(* ===== verification/Prelude.thy ===== *)
theory Prelude
  imports Main "HOL-Library.Word" "HOL-Library.AList"
begin

unbundle bit_operations_syntax

text \<open>
  Shared vocabulary of the development: machine integers and byte strings, the
  big- and little-endian conversions of the Rust integer types, results of fallible
  code, slices, the standard-library list operations the sources use, points in
  time, and the contract of a fixed-width byte codec.
\<close>

section \<open>Types\<close>

type_synonym u8 = "8 word"
type_synonym u16 = "16 word"
type_synonym u32 = "32 word"
type_synonym u64 = "64 word"
type_synonym bytes = "u8 list"

text \<open>
  \<open>[u8; 32]\<close> keys are byte strings; the definitions that rely on the length say so
  with \<open>length k = 32\<close>. An \<open>Instant\<close> and a \<open>Duration\<close> count nanoseconds.
\<close>

type_synonym key32 = bytes
type_synonym instant = nat
type_synonym duration = nat

abbreviation millis :: "nat \<Rightarrow> duration" where
  "millis n \<equiv> n * 1000000"

abbreviation secs :: "nat \<Rightarrow> duration" where
  "secs n \<equiv> n * 1000000000"

text \<open>
  \<open>Instant::duration_since\<close> saturates to zero when the argument is later than the
  receiver, which is subtraction on \<^typ>\<open>nat\<close>.
\<close>

definition duration_since :: "instant \<Rightarrow> instant \<Rightarrow> duration" where
  "duration_since now t = now - t"

named_theorems codec_simps \<open>equations of encoders and decoders on concrete layouts\<close>
named_theorems result_iff \<open>when a sum-typed computation succeeds or fails\<close>
named_theorems frame_simps \<open>what an operation leaves unchanged\<close>

section \<open>Results\<close>

text \<open>The \<open>?\<close> operator: an error returns early, a value is passed on.\<close>

definition and_then :: "'e + 'a \<Rightarrow> ('a \<Rightarrow> 'e + 'b) \<Rightarrow> 'e + 'b" where
  "and_then m k = (case m of Inl e \<Rightarrow> Inl e | Inr x \<Rightarrow> k x)"

lemma and_then_simps [simp]:
  "and_then (Inl e) k = Inl e"
  "and_then (Inr x) k = k x"
  by (simp_all add: and_then_def)

lemma and_then_Inr_iff [result_iff]:
  "and_then m k = Inr y \<longleftrightarrow> (\<exists>x. m = Inr x \<and> k x = Inr y)"
  by (cases m) auto

lemma and_then_Inl_iff [result_iff]:
  "and_then m k = Inl e \<longleftrightarrow> m = Inl e \<or> (\<exists>x. m = Inr x \<and> k x = Inl e)"
  by (cases m) auto

definition ok_or :: "'a option \<Rightarrow> 'e \<Rightarrow> 'e + 'a" where
  "ok_or m e = (case m of None \<Rightarrow> Inl e | Some x \<Rightarrow> Inr x)"

lemma ok_or_simps [simp]:
  "ok_or None e = Inl e"
  "ok_or (Some x) e = Inr x"
  by (simp_all add: ok_or_def)

lemma ok_or_Inr_iff [result_iff]: "ok_or m e = Inr x \<longleftrightarrow> m = Some x"
  by (cases m) auto

section \<open>Slices\<close>

text \<open>\<open>xs[a..b]\<close> for \<open>a \<le> b \<le> xs.len()\<close>.\<close>

definition byte_range :: "nat \<Rightarrow> nat \<Rightarrow> 'a list \<Rightarrow> 'a list" where
  "byte_range a b xs = take (b - a) (drop a xs)"

lemma length_byte_range [simp]: "b \<le> length xs \<Longrightarrow> length (byte_range a b xs) = b - a"
  by (auto simp: byte_range_def)

lemma byte_range_append_left [simp]: "b \<le> length xs \<Longrightarrow> byte_range a b (xs @ ys) = byte_range a b xs"
  by (auto simp: byte_range_def take_drop)

lemma drop_header5: "drop (5 + n) (a # b # c # d # e # xs) = drop n xs"
  by (simp add: drop_Cons')

lemma byte_range_0: "byte_range 0 b xs = take b xs"
  by (simp add: byte_range_def)

lemma byte_range_whole: "byte_range (length xs) (length xs + length ys) (xs @ ys @ zs) = ys"
  by (simp add: byte_range_def)

section \<open>Endianness\<close>

lemma bit_u8_beyond [simp]: "8 \<le> n \<Longrightarrow> \<not> bit (w :: u8) n"
  using bit_imp_le_length [of w n] by auto

lemma bit_u16_beyond [simp]: "16 \<le> n \<Longrightarrow> \<not> bit (w :: u16) n"
  using bit_imp_le_length [of w n] by auto

lemma bit_u32_beyond [simp]: "32 \<le> n \<Longrightarrow> \<not> bit (w :: u32) n"
  using bit_imp_le_length [of w n] by auto

definition u16_to_be_bytes :: "u16 \<Rightarrow> bytes" where
  "u16_to_be_bytes w = [ucast (drop_bit 8 w), ucast w]"

definition u16_from_be_bytes :: "u8 \<Rightarrow> u8 \<Rightarrow> u16" where
  "u16_from_be_bytes a b = push_bit 8 (ucast a) OR ucast b"

definition u32_to_be_bytes :: "u32 \<Rightarrow> bytes" where
  "u32_to_be_bytes w =
     [ucast (drop_bit 24 w), ucast (drop_bit 16 w), ucast (drop_bit 8 w), ucast w]"

definition u32_from_be_bytes :: "u8 \<Rightarrow> u8 \<Rightarrow> u8 \<Rightarrow> u8 \<Rightarrow> u32" where
  "u32_from_be_bytes a b c d =
     push_bit 24 (ucast a) OR push_bit 16 (ucast b) OR push_bit 8 (ucast c) OR ucast d"

definition u32_to_le_bytes :: "u32 \<Rightarrow> bytes" where
  "u32_to_le_bytes w = rev (u32_to_be_bytes w)"

definition u32_from_le_bytes :: "u8 \<Rightarrow> u8 \<Rightarrow> u8 \<Rightarrow> u8 \<Rightarrow> u32" where
  "u32_from_le_bytes a b c d = u32_from_be_bytes d c b a"

lemma u16_from_to_be [simp]:
  "u16_from_be_bytes (ucast (drop_bit 8 w)) (ucast w) = w"
  unfolding u16_from_be_bytes_def
  by (rule bit_word_eqI) (auto simp: bit_simps)

lemma u16_to_from_be [simp]: "u16_to_be_bytes (u16_from_be_bytes a b) = [a, b]"
  unfolding u16_from_be_bytes_def u16_to_be_bytes_def
  by (auto intro!: bit_word_eqI simp: bit_simps)

lemma u32_from_to_be [simp]:
  "u32_from_be_bytes (ucast (drop_bit 24 w)) (ucast (drop_bit 16 w))
     (ucast (drop_bit 8 w)) (ucast w) = w"
proof (rule bit_word_eqI)
  fix n assume "n < LENGTH(32)"
  then show "bit (u32_from_be_bytes (ucast (drop_bit 24 w)) (ucast (drop_bit 16 w))
      (ucast (drop_bit 8 w)) (ucast w)) n = bit w n"
    unfolding u32_from_be_bytes_def
    by (cases "n < 8"; cases "n < 16"; cases "n < 24") (auto simp: bit_simps)
qed

lemma u32_to_from_be [simp]: "u32_to_be_bytes (u32_from_be_bytes a b c d) = [a, b, c, d]"
  unfolding u32_from_be_bytes_def u32_to_be_bytes_def
  by (auto intro!: bit_word_eqI simp: bit_simps)

lemma u32_to_from_le [simp]: "u32_to_le_bytes (u32_from_le_bytes a b c d) = [a, b, c, d]"
  by (simp add: u32_to_le_bytes_def u32_from_le_bytes_def)

lemma length_be_bytes [simp]:
  "length (u16_to_be_bytes x) = 2"
  "length (u32_to_be_bytes y) = 4"
  "length (u32_to_le_bytes y) = 4"
  by (simp_all add: u16_to_be_bytes_def u32_to_be_bytes_def u32_to_le_bytes_def)

lemma u32_of_nat_round [simp]: "n < 2 ^ 32 \<Longrightarrow> unat (word_of_nat n :: u32) = n"
  by (simp add: unat_of_nat)

lemma u16_of_nat_round [simp]: "n < 2 ^ 16 \<Longrightarrow> unat (word_of_nat n :: u16) = n"
  by (simp add: unat_of_nat)

lemma u16_unat_lt: "unat (w :: u16) < 65536"
  using unsigned_less [of w, where ?'a = nat] by simp

lemma u8_unat_lt: "unat (w :: u8) < 256"
  using unsigned_less [of w, where ?'a = nat] by simp

section \<open>Standard-library list operations\<close>

text \<open>
  \<open>Iterator::min_by_key\<close> returns the first of several minimal elements.
\<close>

fun min_by_key :: "('a \<Rightarrow> 'k::linorder) \<Rightarrow> 'a list \<Rightarrow> 'a option" where
  "min_by_key f [] = None"
| "min_by_key f (x # xs) =
     (case min_by_key f xs of
        None \<Rightarrow> Some x
      | Some y \<Rightarrow> Some (if f x \<le> f y then x else y))"

lemma min_by_key_None [simp]: "min_by_key f xs = None \<longleftrightarrow> xs = []"
  by (cases xs) (auto split: option.splits)

lemma min_by_key_mem: "min_by_key f xs = Some x \<Longrightarrow> x \<in> set xs"
  by (induction xs arbitrary: x) (auto split: option.splits if_splits)

lemma min_by_key_le: "min_by_key f xs = Some x \<Longrightarrow> y \<in> set xs \<Longrightarrow> f x \<le> f y"
proof (induction xs arbitrary: x)
  case Nil
  then show ?case by simp
next
  case (Cons a xs)
  then show ?case
    by (cases "min_by_key f xs") (auto split: if_splits intro: order_trans)
qed

text \<open>A bounded log that drops its oldest entry when full.\<close>

definition ring_push :: "nat \<Rightarrow> 'a \<Rightarrow> 'a list \<Rightarrow> 'a list" where
  "ring_push cap x q = (if cap \<le> length q then drop 1 q else q) @ [x]"

lemma ring_push_bound: "0 < cap \<Longrightarrow> length q \<le> cap \<Longrightarrow> length (ring_push cap x q) \<le> cap"
  by (auto simp: ring_push_def)

lemma find_append: "find P (xs @ ys) = (case find P xs of None \<Rightarrow> find P ys | Some x \<Rightarrow> Some x)"
  by (induction xs) auto

lemma list_all_True [simp]: "list_all (\<lambda>_. True) xs"
  by (simp add: list_all_iff)

section \<open>Fixed-width codecs\<close>

text \<open>
  A slice whose element type has a fixed size is decoded element by element, and only
  when its length is a multiple of that size.
\<close>

fun decode_count :: "nat \<Rightarrow> nat \<Rightarrow> ('b list \<Rightarrow> 'a option) \<Rightarrow> 'b list \<Rightarrow> 'a list option" where
  "decode_count 0 n dec bs = (if bs = [] then Some [] else None)"
| "decode_count (Suc k) n dec bs =
     (case dec (take n bs) of
        None \<Rightarrow> None
      | Some x \<Rightarrow> map_option (Cons x) (decode_count k n dec (drop n bs)))"

definition decode_slice :: "nat \<Rightarrow> ('b list \<Rightarrow> 'a option) \<Rightarrow> 'b list \<Rightarrow> 'a list option" where
  "decode_slice n dec bs =
     (if length bs mod n = 0 then decode_count (length bs div n) n dec bs else None)"

locale fixed_codec =
  fixes enc :: "'a \<Rightarrow> 'b list"
    and dec :: "'b list \<Rightarrow> 'a option"
    and width :: nat
    and valid :: "'a \<Rightarrow> bool"
  assumes width_pos: "0 < width"
    and enc_width: "valid x \<Longrightarrow> length (enc x) = width"
    and dec_enc: "valid x \<Longrightarrow> dec (enc x) = Some x"
    and dec_total: "length bs = width \<Longrightarrow> \<exists>x. dec bs = Some x \<and> valid x \<and> enc x = bs"
begin

lemma decode_count_enc:
  assumes "list_all valid xs"
  shows "decode_count (length xs) width dec (concat (map enc xs)) = Some xs"
  using assms by (induction xs) (auto simp: enc_width dec_enc)

lemma length_concat_enc:
  assumes "list_all valid xs"
  shows "length (concat (map enc xs)) = width * length xs"
  using assms by (induction xs) (auto simp: enc_width)

lemma decode_slice_enc:
  assumes "list_all valid xs"
  shows "decode_slice width dec (concat (map enc xs)) = Some xs"
  using width_pos
  by (simp add: decode_slice_def length_concat_enc [OF assms] decode_count_enc [OF assms])

lemma decode_count_total:
  assumes "length bs = width * k"
  shows "\<exists>xs. decode_count k width dec bs = Some xs \<and> list_all valid xs \<and> concat (map enc xs) = bs"
  using assms
proof (induction k arbitrary: bs)
  case 0
  then show ?case by simp
next
  case (Suc k)
  then have "length (take width bs) = width" and "length (drop width bs) = width * k"
    by auto
  then obtain x xs where "dec (take width bs) = Some x" "valid x" "enc x = take width bs"
    and "decode_count k width dec (drop width bs) = Some xs" "list_all valid xs"
      "concat (map enc xs) = drop width bs"
    using Suc.IH dec_total by metis
  then show ?case by (intro exI [of _ "x # xs"]) simp
qed

lemma decode_slice_total:
  assumes "length bs mod width = 0"
  shows "\<exists>xs. decode_slice width dec bs = Some xs \<and> list_all valid xs \<and> concat (map enc xs) = bs"
proof -
  have "length bs = width * (length bs div width)"
    using assms by auto
  from decode_count_total [OF this] assms show ?thesis
    by (simp add: decode_slice_def)
qed

lemma decode_slice_defined: "decode_slice width dec bs \<noteq> None \<longleftrightarrow> length bs mod width = 0"
  using decode_slice_total [of bs] by (auto simp: decode_slice_def)

end

text \<open>The big-endian integers are such codecs.\<close>

definition u16_decode :: "bytes \<Rightarrow> u16 option" where
  "u16_decode bs = (case bs of [a, b] \<Rightarrow> Some (u16_from_be_bytes a b) | _ \<Rightarrow> None)"

definition u32_decode :: "bytes \<Rightarrow> u32 option" where
  "u32_decode bs = (case bs of [a, b, c, d] \<Rightarrow> Some (u32_from_be_bytes a b c d) | _ \<Rightarrow> None)"

interpretation be16: fixed_codec u16_to_be_bytes u16_decode 2 "\<lambda>_. True"
proof unfold_locales
  fix x :: u16
  show "u16_decode (u16_to_be_bytes x) = Some x"
    by (simp add: u16_decode_def u16_to_be_bytes_def)
next
  fix bs :: bytes
  assume "length bs = 2"
  then obtain a b where "bs = [a, b]"
    by (metis (no_types) Suc_1 length_0_conv length_Suc_conv One_nat_def)
  then show "\<exists>x. u16_decode bs = Some x \<and> True \<and> u16_to_be_bytes x = bs"
    by (simp add: u16_decode_def)
qed auto

interpretation be32: fixed_codec u32_to_be_bytes u32_decode 4 "\<lambda>_. True"
proof unfold_locales
  fix x :: u32
  show "u32_decode (u32_to_be_bytes x) = Some x"
    by (simp add: u32_decode_def u32_to_be_bytes_def)
next
  fix bs :: bytes
  assume "length bs = 4"
  then obtain a b c d where "bs = [a, b, c, d]"
    by (auto simp: eval_nat_numeral length_Suc_conv)
  then show "\<exists>x. u32_decode bs = Some x \<and> True \<and> u32_to_be_bytes x = bs"
    by (simp add: u32_decode_def)
qed auto

end
