(* ===== verification/Framing.thy ===== *)
theory Framing
  imports Prelude
begin

text \<open>
  Length-prefixed frames over a byte stream that arrives in pieces. A framer looks at the
  buffered bytes and reports an error, asks for more, or splits off one frame. The
  locale states what makes such a framer independent of how the stream is cut up;
  the run of a resumable reader over any schedule of reads is then fixed by the bytes alone.
\<close>

text \<open>What one \<open>Read::read\<close> call with a read timeout can return.\<close>

datatype read_result = ReadOk bytes | WouldBlock | TimedOut | ReadErr nat

text \<open>Every frame a buffer holds, and the error or the unconsumed bytes behind them.\<close>

function frames_of :: "('b list \<Rightarrow> 'e + ('f \<times> 'b list) option) \<Rightarrow> 'b list \<Rightarrow> 'f list \<times> ('e + 'b list)" where
  "frames_of next_frame buf =
     (case next_frame buf of
        Inl e \<Rightarrow> ([], Inl e)
      | Inr None \<Rightarrow> ([], Inr buf)
      | Inr (Some (f, rest)) \<Rightarrow>
          if length rest < length buf
          then (let (fs, r) = frames_of next_frame rest in (f # fs, r))
          else ([], Inr buf))"
  by pat_completeness auto
termination
  by (relation "measure (\<lambda>(_, buf). length buf)") auto

declare frames_of.simps [simp del]

lemma framer_result_cases:
  obtains (error) e where "x = Inl e" | (more) "x = Inr None"
    | (frame) f rest where "x = Inr (Some (f, rest))"
proof (cases x)
  case (Inl e)
  then show thesis by (rule error)
next
  case (Inr y)
  then show thesis using more frame by (cases y) auto
qed

locale stream_framer =
  fixes next_frame :: "'b list \<Rightarrow> 'e + ('f \<times> 'b list) option"
  assumes next_shorter: "next_frame buf = Inr (Some (f, rest)) \<Longrightarrow> length rest < length buf"
    and next_frame_mono:
      "next_frame buf = Inr (Some (f, rest)) \<Longrightarrow> next_frame (buf @ more) = Inr (Some (f, rest @ more))"
    and next_error_mono: "next_frame buf = Inl e \<Longrightarrow> next_frame (buf @ more) = Inl e"
begin

lemma frames_of_error: "next_frame buf = Inl e \<Longrightarrow> frames_of next_frame buf = ([], Inl e)"
  by (simp add: frames_of.simps)

lemma frames_of_more: "next_frame buf = Inr None \<Longrightarrow> frames_of next_frame buf = ([], Inr buf)"
  by (simp add: frames_of.simps)

lemma frames_of_frame:
  "next_frame buf = Inr (Some (f, rest)) \<Longrightarrow>
     frames_of next_frame buf = (f # fst (frames_of next_frame rest), snd (frames_of next_frame rest))"
  using next_shorter [of buf f rest]
  by (subst frames_of.simps) (simp add: case_prod_beta Let_def)

text \<open>Later bytes only add frames behind the ones already there.\<close>

lemma frames_of_append:
  "frames_of next_frame (buf @ more) =
     (case snd (frames_of next_frame buf) of
        Inl e \<Rightarrow> frames_of next_frame buf
      | Inr rest \<Rightarrow> (fst (frames_of next_frame buf) @ fst (frames_of next_frame (rest @ more)),
                     snd (frames_of next_frame (rest @ more))))"
proof (induction buf rule: length_induct)
  case (1 buf)
  show ?case
  proof (cases "next_frame buf" rule: framer_result_cases)
    case (error e)
    then show ?thesis using next_error_mono by (simp add: frames_of_error)
  next
    case more
    then show ?thesis by (simp add: frames_of_more)
  next
    case (frame f rest)
    then have "length rest < length buf" by (rule next_shorter)
    with "1.IH" have "frames_of next_frame (rest @ more) =
     (case snd (frames_of next_frame rest) of
        Inl e \<Rightarrow> frames_of next_frame rest
      | Inr r \<Rightarrow> (fst (frames_of next_frame rest) @ fst (frames_of next_frame (r @ more)),
                     snd (frames_of next_frame (r @ more))))" by blast
    then show ?thesis
      using frames_of_frame [OF frame] frames_of_frame [OF next_frame_mono [OF frame]]
      by (auto split: sum.splits)
  qed
qed

end

text \<open>
  The stream of encoded frames: \<open>encode\<close> writes a frame so that the framer finds exactly it.
\<close>

locale framed_codec = stream_framer next_frame
  for next_frame :: "'b list \<Rightarrow> 'e + ('f \<times> 'b list) option" +
  fixes encode :: "'f \<Rightarrow> 'b list"
    and sendable :: "'f \<Rightarrow> bool"
  assumes next_encode: "sendable f \<Longrightarrow> next_frame (encode f @ rest) = Inr (Some (f, rest))"
    and next_Nil: "next_frame [] = Inr None"
begin

lemma frames_of_encoded:
  assumes "list_all sendable fs"
  shows "frames_of next_frame (concat (map encode fs)) = (fs, Inr [])"
  using assms
proof (induction fs)
  case Nil
  then show ?case by (simp add: frames_of_more next_Nil)
next
  case (Cons f fs)
  then show ?case
    using frames_of_frame [OF next_encode [of f "concat (map encode fs)"]] by simp
qed

lemma frames_of_encoded_partial:
  assumes "list_all sendable fs" and "next_frame part = Inr None"
  shows "frames_of next_frame (concat (map encode fs) @ part) = (fs, Inr part)"
  using assms(1)
proof (induction fs)
  case Nil
  then show ?case using assms(2) by (simp add: frames_of_more)
next
  case (Cons f fs)
  then show ?case
    using frames_of_frame [OF next_encode [of f "concat (map encode fs) @ part"]] by simp
qed

text \<open>A proper prefix of an encoded frame is neither a frame nor an error.\<close>

lemma proper_prefix_incomplete:
  assumes "sendable f" and "encode f = part @ more" and "more \<noteq> []"
  shows "next_frame part = Inr None"
proof (cases "next_frame part" rule: framer_result_cases)
  case (error e)
  from next_error_mono [OF this, of more] next_encode [OF assms(1), of "[]"] assms(2)
  show ?thesis by simp
next
  case more
  then show ?thesis .
next
  case (frame g rest)
  from next_frame_mono [OF this, of more] next_encode [OF assms(1), of "[]"] assms(2,3)
  show ?thesis by simp
qed

end

end
