(* ===== verification/Derp_Frame.thy ===== *)
theory Derp_Frame
  imports Framing
begin

text \<open>
  The DERP frame codec of \<open>crates/ts-derp/src/frame.rs\<close> with the constants of
  \<open>magic.rs\<close> and the errors of \<open>error.rs\<close>: writing and reading single frames, the
  resumable \<open>FrameReader\<close> that survives read timeouts in the middle of a frame, and the
  typed payload helpers.
\<close>

section \<open>Errors, constants, frame types\<close>

datatype io_error_kind = UnexpectedEof | OtherIo nat

datatype derp_error =
    Io io_error_kind
  | Tls string
  | HttpParse string
  | Upgrade string
  | BadMagic bytes
  | BadFrameType u8
  | FrameTooLarge nat nat
  | FrameTooShort string nat nat
  | NaclBox string
  | Json string
  | UnsupportedServerVersion u32 u32
  | NoReachableRegion nat nat
  | UnknownRegion u16
  | DerpMapNotSet
  | CapExceededHome nat u16
  | ConnDied string
  | Internal string

definition MAX_PAYLOAD :: nat where "MAX_PAYLOAD = 64 * 1024"
definition FRAME_HEADER_LEN :: nat where "FRAME_HEADER_LEN = 5"

datatype frame_type =
    FtServerKey | FtClientInfo | FtServerInfo | FtSendPacket | FtRecvPacket | FtKeepAlive
  | FtNotePreferred | FtPeerGone | FtPeerPresent | FtForwardPacket | FtWatchConns | FtClosePeer
  | FtPing | FtPong | FtHealth | FtRestarting

fun frame_type_byte :: "frame_type \<Rightarrow> u8" where
  "frame_type_byte FtServerKey = 0x01"
| "frame_type_byte FtClientInfo = 0x02"
| "frame_type_byte FtServerInfo = 0x03"
| "frame_type_byte FtSendPacket = 0x04"
| "frame_type_byte FtRecvPacket = 0x05"
| "frame_type_byte FtKeepAlive = 0x06"
| "frame_type_byte FtNotePreferred = 0x07"
| "frame_type_byte FtPeerGone = 0x08"
| "frame_type_byte FtPeerPresent = 0x09"
| "frame_type_byte FtForwardPacket = 0x0a"
| "frame_type_byte FtWatchConns = 0x10"
| "frame_type_byte FtClosePeer = 0x11"
| "frame_type_byte FtPing = 0x12"
| "frame_type_byte FtPong = 0x13"
| "frame_type_byte FtHealth = 0x14"
| "frame_type_byte FtRestarting = 0x15"

definition frame_type_from_byte :: "u8 \<Rightarrow> derp_error + frame_type" where
  "frame_type_from_byte b =
     (if b = 0x01 then Inr FtServerKey
      else if b = 0x02 then Inr FtClientInfo
      else if b = 0x03 then Inr FtServerInfo
      else if b = 0x04 then Inr FtSendPacket
      else if b = 0x05 then Inr FtRecvPacket
      else if b = 0x06 then Inr FtKeepAlive
      else if b = 0x07 then Inr FtNotePreferred
      else if b = 0x08 then Inr FtPeerGone
      else if b = 0x09 then Inr FtPeerPresent
      else if b = 0x0a then Inr FtForwardPacket
      else if b = 0x10 then Inr FtWatchConns
      else if b = 0x11 then Inr FtClosePeer
      else if b = 0x12 then Inr FtPing
      else if b = 0x13 then Inr FtPong
      else if b = 0x14 then Inr FtHealth
      else if b = 0x15 then Inr FtRestarting
      else Inl (BadFrameType b))"

lemma frame_type_from_byte_byte [simp]: "frame_type_from_byte (frame_type_byte t) = Inr t"
  by (cases t) (simp_all add: frame_type_from_byte_def)

lemma frame_type_from_byte_Inr [result_iff]:
  "frame_type_from_byte b = Inr t \<longleftrightarrow> b = frame_type_byte t"
  by (auto simp: frame_type_from_byte_def split: if_splits) (cases t; simp)+

lemma frame_type_from_byte_Inl [result_iff]:
  "frame_type_from_byte b = Inl e \<longleftrightarrow> e = BadFrameType b \<and> b \<notin> range frame_type_byte"
proof (cases "frame_type_from_byte b")
  case (Inl e')
  then have "e' = BadFrameType b" by (auto simp: frame_type_from_byte_def split: if_splits)
  with Inl show ?thesis by auto
next
  case (Inr t)
  then show ?thesis by (auto simp: frame_type_from_byte_Inr)
qed

section \<open>Raw codec\<close>

text \<open>
  \<open>write_frame\<close> hands the header and the payload to \<open>write_all\<close>; its value is the bytes
  written.
\<close>

definition write_frame :: "frame_type \<Rightarrow> bytes \<Rightarrow> derp_error + bytes" where
  "write_frame ty payload =
     (if length payload > MAX_PAYLOAD then Inl (FrameTooLarge (length payload) MAX_PAYLOAD)
      else let hdr = frame_type_byte ty # u32_to_be_bytes (word_of_nat (length payload))
           in Inr (hdr @ payload))"

text \<open>\<open>read_exact\<close> on a blocking stream: the next \<open>n\<close> bytes, or end of file.\<close>

definition read_exact :: "nat \<Rightarrow> bytes \<Rightarrow> derp_error + (bytes \<times> bytes)" where
  "read_exact n r = (if length r < n then Inl (Io UnexpectedEof) else Inr (take n r, drop n r))"

definition read_frame :: "bytes \<Rightarrow> derp_error + ((frame_type \<times> bytes) \<times> bytes)" where
  "read_frame r =
     and_then (read_exact FRAME_HEADER_LEN r) (\<lambda>(hdr, r).
     and_then (frame_type_from_byte (hdr ! 0)) (\<lambda>ty.
     let len = unat (u32_from_be_bytes (hdr ! 1) (hdr ! 2) (hdr ! 3) (hdr ! 4)) in
     if len > MAX_PAYLOAD then Inl (FrameTooLarge len MAX_PAYLOAD)
     else and_then (read_exact len r) (\<lambda>(payload, r). Inr ((ty, payload), r))))"

section \<open>FrameReader\<close>

record frame_reader =
  fr_buf :: bytes

definition frame_reader_new :: frame_reader where
  "frame_reader_new = \<lparr>fr_buf = []\<rparr>"

definition try_extract ::
  "frame_reader \<Rightarrow> frame_reader \<times> (derp_error + (frame_type \<times> bytes) option)" where
  "try_extract slf =
     (let buf = fr_buf slf in
      if length buf < FRAME_HEADER_LEN then (slf, Inr None)
      else case frame_type_from_byte (buf ! 0) of
        Inl e \<Rightarrow> (slf, Inl e)
      | Inr ty \<Rightarrow>
          let len = unat (u32_from_be_bytes (buf ! 1) (buf ! 2) (buf ! 3) (buf ! 4)) in
          if len > MAX_PAYLOAD then (slf, Inl (FrameTooLarge len MAX_PAYLOAD))
          else let total = FRAME_HEADER_LEN + len in
            if length buf < total then (slf, Inr None)
            else (slf\<lparr>fr_buf := drop total buf\<rparr>,
                  Inr (Some (ty, byte_range FRAME_HEADER_LEN total buf))))"

text \<open>
  \<open>poll_frame\<close> performs at most one read. The schedule lists what the coming reads
  return; when nothing more is scheduled a read times out.
\<close>

definition next_read :: "read_result list \<Rightarrow> read_result \<times> read_result list" where
  "next_read rs = (case rs of [] \<Rightarrow> (TimedOut, []) | r # rs' \<Rightarrow> (r, rs'))"

definition poll_frame ::
  "frame_reader \<Rightarrow> read_result list
     \<Rightarrow> frame_reader \<times> read_result list \<times> (derp_error + (frame_type \<times> bytes) option)" where
  "poll_frame slf rs =
     (case try_extract slf of
        (slf, Inl e) \<Rightarrow> (slf, rs, Inl e)
      | (slf, Inr (Some f)) \<Rightarrow> (slf, rs, Inr (Some f))
      | (slf, Inr None) \<Rightarrow>
          (case next_read rs of
             (ReadOk tmp, rs) \<Rightarrow>
               if tmp = [] then (slf, rs, Inl (Io UnexpectedEof))
               else (case try_extract (slf\<lparr>fr_buf := fr_buf slf @ tmp\<rparr>) of
                       (slf, res) \<Rightarrow> (slf, rs, res))
           | (WouldBlock, rs) \<Rightarrow> (slf, rs, Inr None)
           | (TimedOut, rs) \<Rightarrow> (slf, rs, Inr None)
           | (ReadErr k, rs) \<Rightarrow> (slf, rs, Inl (Io (OtherIo k)))))"

section \<open>Typed helpers\<close>

definition write_send_packet :: "key32 \<Rightarrow> bytes \<Rightarrow> derp_error + bytes" where
  "write_send_packet dst_pubkey wg_bytes =
     (let total = 32 + length wg_bytes in
      if total > MAX_PAYLOAD then Inl (FrameTooLarge total MAX_PAYLOAD)
      else let hdr = frame_type_byte FtSendPacket # u32_to_be_bytes (word_of_nat total)
           in Inr (hdr @ dst_pubkey @ wg_bytes))"

definition parse_recv_packet :: "bytes \<Rightarrow> derp_error + (key32 \<times> bytes)" where
  "parse_recv_packet payload =
     (if length payload < 32 then Inl (FrameTooShort ''RecvPacket'' (length payload) 32)
      else Inr (take 32 payload, drop 32 payload))"

definition write_note_preferred :: "bool \<Rightarrow> derp_error + bytes" where
  "write_note_preferred is_home = write_frame FtNotePreferred [if is_home then 0x01 else 0x00]"

definition write_pong :: "bytes \<Rightarrow> derp_error + bytes" where
  "write_pong payload = write_frame FtPong payload"

definition parse_ping :: "bytes \<Rightarrow> derp_error + bytes" where
  "parse_ping payload =
     (if length payload < 8 then Inl (FrameTooShort ''Ping'' (length payload) 8)
      else Inr (take 8 payload))"

definition parse_peer_gone :: "bytes \<Rightarrow> derp_error + (key32 \<times> u8)" where
  "parse_peer_gone payload =
     (if length payload < 32 then Inl (FrameTooShort ''PeerGone'' (length payload) 33)
      else Inr (take 32 payload, if 32 < length payload then payload ! 32 else 0))"

definition parse_restarting :: "bytes \<Rightarrow> derp_error + (u32 \<times> u32)" where
  "parse_restarting payload =
     (if length payload < 8 then Inl (FrameTooShort ''Restarting'' (length payload) 8)
      else Inr (u32_from_be_bytes (payload ! 0) (payload ! 1) (payload ! 2) (payload ! 3),
                u32_from_be_bytes (payload ! 4) (payload ! 5) (payload ! 6) (payload ! 7)))"

section \<open>The reader as a framer\<close>

definition derp_extract :: "bytes \<Rightarrow> derp_error + ((frame_type \<times> bytes) \<times> bytes) option" where
  "derp_extract buf =
     (case try_extract \<lparr>fr_buf = buf\<rparr> of
        (_, Inl e) \<Rightarrow> Inl e
      | (_, Inr None) \<Rightarrow> Inr None
      | (slf, Inr (Some f)) \<Rightarrow> Inr (Some (f, fr_buf slf)))"

definition sendable_frame :: "frame_type \<times> bytes \<Rightarrow> bool" where
  "sendable_frame f \<longleftrightarrow> length (snd f) \<le> MAX_PAYLOAD"

definition frame_bytes :: "frame_type \<times> bytes \<Rightarrow> bytes" where
  "frame_bytes f =
     frame_type_byte (fst f) # u32_to_be_bytes (word_of_nat (length (snd f))) @ snd f"

lemma write_frame_ok: "sendable_frame (ty, p) \<Longrightarrow> write_frame ty p = Inr (frame_bytes (ty, p))"
  by (simp add: write_frame_def sendable_frame_def frame_bytes_def)

lemma write_frame_Inr_iff [result_iff]:
  "write_frame ty p = Inr bs \<longleftrightarrow> sendable_frame (ty, p) \<and> bs = frame_bytes (ty, p)"
  by (auto simp: write_frame_def sendable_frame_def frame_bytes_def)

lemma derp_extract_unfold:
  "derp_extract buf =
     (if length buf < 5 then Inr None
      else case frame_type_from_byte (buf ! 0) of
        Inl e \<Rightarrow> Inl e
      | Inr ty \<Rightarrow>
          let len = unat (u32_from_be_bytes (buf ! 1) (buf ! 2) (buf ! 3) (buf ! 4)) in
          if len > MAX_PAYLOAD then Inl (FrameTooLarge len MAX_PAYLOAD)
          else if length buf < 5 + len then Inr None
          else Inr (Some ((ty, byte_range 5 (5 + len) buf), drop (5 + len) buf)))"
  by (auto simp: derp_extract_def try_extract_def FRAME_HEADER_LEN_def Let_def split: sum.splits)

lemma derp_extract_encode:
  assumes "sendable_frame f"
  shows "derp_extract (frame_bytes f @ rest) = Inr (Some (f, rest))"
proof -
  obtain ty p where f: "f = (ty, p)" by (cases f)
  have "length p < 2 ^ 32" and "length p \<le> MAX_PAYLOAD"
    using assms by (simp_all add: f sendable_frame_def MAX_PAYLOAD_def)
  then show ?thesis
    by (simp add: f derp_extract_unfold frame_bytes_def u32_to_be_bytes_def byte_range_def Let_def
        drop_header5)
qed

lemma derp_extract_frame_bytes:
  assumes "derp_extract buf = Inr (Some (f, rest))"
  shows "buf = frame_bytes f @ rest"
proof -
  from assms have "5 \<le> length buf" by (auto simp: derp_extract_unfold split: if_splits)
  then obtain a b c d e xs where buf: "buf = a # b # c # d # e # xs"
    by (auto simp: eval_nat_numeral Suc_le_length_iff)
  show ?thesis
    using assms
    by (auto simp: buf derp_extract_unfold frame_bytes_def Let_def byte_range_def drop_header5
        result_iff min_def u32_to_from_be split: if_splits sum.splits)
qed

interpretation derp: framed_codec derp_extract frame_bytes sendable_frame
proof unfold_locales
  fix buf f rest
  assume "derp_extract buf = Inr (Some (f, rest))"
  then show "length rest < length buf"
    by (auto simp: derp_extract_unfold Let_def split: if_splits sum.splits)
next
  fix buf f rest more
  assume "derp_extract buf = Inr (Some (f, rest))"
  then show "derp_extract (buf @ more) = Inr (Some (f, rest @ more))"
    by (auto simp: derp_extract_unfold Let_def nth_append split: if_splits sum.splits)
next
  fix buf e more
  assume "derp_extract buf = Inl e"
  then show "derp_extract (buf @ more) = Inl e"
    by (auto simp: derp_extract_unfold Let_def nth_append split: if_splits sum.splits)
next
  fix f rest
  assume "sendable_frame f"
  then show "derp_extract (frame_bytes f @ rest) = Inr (Some (f, rest))"
    by (rule derp_extract_encode)
next
  show "derp_extract [] = Inr None" by (simp add: derp_extract_unfold)
qed

section \<open>Runs of the reader\<close>

text \<open>
  Polling until an error, or until the schedule is used up and the buffer holds no
  complete frame: the frames in the order the polls returned them, and how it ended.
\<close>

lemma try_extract_shorter:
  "try_extract slf = (slf', Inr (Some f)) \<Longrightarrow> length (fr_buf slf') < length (fr_buf slf)"
  by (auto simp: try_extract_def FRAME_HEADER_LEN_def Let_def split: if_splits sum.splits)

lemma poll_frame_progress:
  assumes "poll_frame slf rs = (slf', rs', Inr res)" and "rs \<noteq> [] \<or> res \<noteq> None"
  shows "length rs' < length rs \<or> length rs' = length rs \<and> length (fr_buf slf') < length (fr_buf slf)"
  using assms
  by (auto simp: poll_frame_def next_read_def dest: try_extract_shorter
      split: prod.splits sum.splits option.splits list.splits read_result.splits if_splits)

function poll_all ::
  "frame_reader \<Rightarrow> read_result list \<Rightarrow> (frame_type \<times> bytes) list \<times> (derp_error + frame_reader)" where
  "poll_all slf rs =
     (case poll_frame slf rs of
        (slf', rs', Inl e) \<Rightarrow> ([], Inl e)
      | (slf', rs', Inr (Some f)) \<Rightarrow> (case poll_all slf' rs' of (fs, r) \<Rightarrow> (f # fs, r))
      | (slf', rs', Inr None) \<Rightarrow> if rs = [] then ([], Inr slf') else poll_all slf' rs')"
  by pat_completeness auto
termination
  by (relation "measures [\<lambda>(_, rs). length rs, \<lambda>(slf, _). length (fr_buf slf)]")
    (auto dest: poll_frame_progress [OF sym, where res = None, simplified]
      poll_frame_progress [OF sym, where res = "Some f" for f, simplified])

declare poll_all.simps [simp del]

text \<open>A schedule without failures: data arrives in non-empty chunks, between timeouts.\<close>

fun clean_read :: "read_result \<Rightarrow> bool" where
  "clean_read (ReadOk bs) = (bs \<noteq> [])"
| "clean_read WouldBlock = True"
| "clean_read TimedOut = True"
| "clean_read (ReadErr _) = False"

fun read_bytes :: "read_result \<Rightarrow> bytes" where
  "read_bytes (ReadOk bs) = bs"
| "read_bytes _ = []"

abbreviation schedule_bytes :: "read_result list \<Rightarrow> bytes" where
  "schedule_bytes rs \<equiv> concat (map read_bytes rs)"

lemma try_extract_iff:
  "derp_extract (fr_buf slf) = Inl e \<longleftrightarrow> try_extract slf = (slf, Inl e)"
  "derp_extract (fr_buf slf) = Inr None \<longleftrightarrow> try_extract slf = (slf, Inr None)"
  "derp_extract (fr_buf slf) = Inr (Some (f, rest)) \<longleftrightarrow>
     try_extract slf = (slf\<lparr>fr_buf := rest\<rparr>, Inr (Some f))"
  by (cases slf; auto simp: derp_extract_def try_extract_def Let_def split: sum.splits if_splits)+

lemma poll_frame_cases:
  assumes "list_all clean_read rs"
  obtains
    (error) e slf' rs' where "poll_frame slf rs = (slf', rs', Inl e)"
      "snd (frames_of derp_extract (fr_buf slf @ schedule_bytes rs)) = Inl e"
      "fst (frames_of derp_extract (fr_buf slf @ schedule_bytes rs)) = []"
  | (frame) f slf' rs' where "poll_frame slf rs = (slf', rs', Inr (Some f))"
      "list_all clean_read rs'"
      "derp_extract (fr_buf slf @ schedule_bytes rs)
         = Inr (Some (f, fr_buf slf' @ schedule_bytes rs'))"
  | (more) slf' rs' where "poll_frame slf rs = (slf', rs', Inr None)"
      "list_all clean_read rs'"
      "fr_buf slf @ schedule_bytes rs = fr_buf slf' @ schedule_bytes rs'"
      "derp_extract (fr_buf slf') = Inr None"
proof -
  show thesis
  proof (cases "derp_extract (fr_buf slf)" rule: framer_result_cases)
    case e1: (error e)
    then have "poll_frame slf rs = (slf, rs, Inl e)"
      by (simp add: poll_frame_def try_extract_iff)
    moreover have "frames_of derp_extract (fr_buf slf @ schedule_bytes rs) = ([], Inl e)"
      by (rule derp.frames_of_error [OF derp.next_error_mono [OF e1]])
    ultimately show thesis by (intro error) simp_all
  next
    case e3: (frame f rest)
    then have "poll_frame slf rs = (slf\<lparr>fr_buf := rest\<rparr>, rs, Inr (Some f))"
      by (simp add: poll_frame_def try_extract_iff)
    moreover have "derp_extract (fr_buf slf @ schedule_bytes rs) =
        Inr (Some (f, fr_buf (slf\<lparr>fr_buf := rest\<rparr>) @ schedule_bytes rs))"
      using derp.next_frame_mono [OF e3, of "schedule_bytes rs"] by simp
    ultimately show thesis using assms by (intro frame)
  next
    case e2: more
    then have t: "try_extract slf = (slf, Inr None)" by (simp add: try_extract_iff)
    show thesis
    proof (cases rs)
      case Nil
      then have "poll_frame slf rs = (slf, rs, Inr None)"
        by (simp add: poll_frame_def next_read_def t)
      then show thesis using assms e2 by (intro more) simp_all
    next
      case (Cons r rs')
      show thesis
      proof (cases "\<exists>bs. r = ReadOk bs")
        case False
        then have "poll_frame slf rs = (slf, rs', Inr None)" and "read_bytes r = []"
          using assms Cons by (cases r; simp add: poll_frame_def next_read_def t)+
        then show thesis using assms e2 Cons by (intro more) simp_all
      next
        case True
        then obtain bs where r: "r = ReadOk bs" by blast
        then have bs: "bs \<noteq> []" using assms by (simp add: Cons)
        let ?s = "slf\<lparr>fr_buf := fr_buf slf @ bs\<rparr>"
        have poll: "poll_frame slf rs = (fst (try_extract ?s), rs', snd (try_extract ?s))"
          by (simp add: poll_frame_def t Cons next_read_def r bs split: prod.split)
        have all: "fr_buf slf @ schedule_bytes rs = fr_buf ?s @ schedule_bytes rs'"
          by (simp add: Cons r)
        show thesis
        proof (cases "derp_extract (fr_buf ?s)" rule: framer_result_cases)
          case e1: (error e)
          then have "poll_frame slf rs = (?s, rs', Inl e)"
            using poll by (simp only: try_extract_iff fst_conv snd_conv)
          moreover have "frames_of derp_extract (fr_buf slf @ schedule_bytes rs) = ([], Inl e)"
            unfolding all by (rule derp.frames_of_error [OF derp.next_error_mono [OF e1]])
          ultimately show thesis by (intro error) simp_all
        next
          case e2: more
          then have "poll_frame slf rs = (?s, rs', Inr None)"
            using poll by (simp only: try_extract_iff fst_conv snd_conv)
          then show thesis
            using assms Cons all e2 by (intro more [of ?s rs']) simp_all
        next
          case e3: (frame f rest)
          then have "poll_frame slf rs = (?s\<lparr>fr_buf := rest\<rparr>, rs', Inr (Some f))"
            using poll by (simp only: try_extract_iff fst_conv snd_conv)
          moreover have "derp_extract (fr_buf slf @ schedule_bytes rs) =
              Inr (Some (f, fr_buf (?s\<lparr>fr_buf := rest\<rparr>) @ schedule_bytes rs'))"
            using derp.next_frame_mono [OF e3, of "schedule_bytes rs'"] by (simp only: all) simp
          ultimately show thesis
            using assms Cons by (intro frame [of "?s\<lparr>fr_buf := rest\<rparr>" rs' f]) simp_all
        qed
      qed
    qed
  qed
qed

lemma poll_all_frames:
  assumes "list_all clean_read rs"
  shows "poll_all slf rs =
    (let (fs, r) = frames_of derp_extract (fr_buf slf @ schedule_bytes rs)
     in (fs, map_sum (\<lambda>e. e) (\<lambda>b. \<lparr>fr_buf = b\<rparr>) r))"
  using assms
proof (induction slf rs rule: poll_all.induct)
  case (1 slf rs)
  from 1(3) show ?case
  proof (cases rule: poll_frame_cases [of rs slf])
    case (error e slf' rs')
    then show ?thesis by (subst poll_all.simps) (simp add: Let_def case_prod_beta)
  next
    case (frame f slf' rs')
    note IH = 1(2) [OF frame(1)[symmetric] refl refl refl frame(2)]
    show ?thesis
      using IH derp.frames_of_frame [OF frame(3)]
      by (subst poll_all.simps) (simp add: frame(1) Let_def case_prod_beta)
  next
    case (more slf' rs')
    show ?thesis
    proof (cases "rs = []")
      case True
      then have "rs' = []"
        using more(1) by (auto simp: poll_frame_def next_read_def
            split: prod.splits sum.splits option.splits)
      then show ?thesis
        using more True by (subst poll_all.simps) (cases slf', simp add: derp.frames_of_more)
    next
      case False
      note IH = 1(1) [OF more(1)[symmetric] refl refl refl False more(2)]
      show ?thesis
        using IH False by (subst poll_all.simps) (simp add: more)
    qed
  qed
qed

section \<open>Properties\<close>

text \<open>
  C4: The resumable reader delivers exactly the frames that were written. However the
  stream is cut into reads, and wherever timeouts fall, also in the middle of a frame,
  polling returns the written frames in order; a last frame of which only a proper
  prefix has arrived stays in the buffer and costs nothing.
\<close>

theorem poll_all_delivers_written_frames:
  assumes "list_all2 (\<lambda>(ty, p) bs. write_frame ty p = Inr bs) fs wire"
    and "write_frame ty p = Inr (part @ missing)" and "missing \<noteq> []"
    and "list_all clean_read rs" and "schedule_bytes rs = concat wire @ part"
  shows "poll_all frame_reader_new rs = (fs, Inr \<lparr>fr_buf = part\<rparr>)"
proof -
  have fs: "list_all sendable_frame fs \<and> concat wire = concat (map frame_bytes fs)"
    using assms(1) by (induction fs wire rule: list_all2_induct) (auto simp: write_frame_Inr_iff)
  have "derp_extract part = Inr None"
    using assms(2,3) derp.proper_prefix_incomplete [of "(ty, p)" part missing]
    by (auto simp: write_frame_Inr_iff)
  then have "frames_of derp_extract (concat wire @ part) = (fs, Inr part)"
    using fs derp.frames_of_encoded_partial by simp
  then show ?thesis
    using poll_all_frames [OF assms(4), of frame_reader_new] assms(5)
    by (simp add: frame_reader_new_def)
qed

theorem poll_all_delivers_written_frames_witness:
  "poll_all frame_reader_new
     [ReadOk [0x13, 0, 0], TimedOut, ReadOk [0, 2, 7], WouldBlock, ReadOk [8, 6, 0]]
   = ([(FtPong, [7, 8])], Inr \<lparr>fr_buf = [6, 0]\<rparr>)"
proof -
  have "write_frame FtKeepAlive [] = Inr ([6, 0] @ [0, 0, 0])"
    by (simp add: write_frame_def u32_to_be_bytes_def)
  moreover have "list_all2 (\<lambda>(ty, p) bs. write_frame ty p = Inr bs) [(FtPong, [7, 8])]
      [[0x13, 0, 0, 0, 2, 7, 8]]"
    by (simp add: write_frame_def MAX_PAYLOAD_def u32_to_be_bytes_def)
  ultimately show ?thesis
    by (intro poll_all_delivers_written_frames [where ty = FtKeepAlive and p = "[]"
          and missing = "[0, 0, 0]" and wire = "[[0x13, 0, 0, 0, 2, 7, 8]]"]) simp_all
qed

text \<open>
  The blocking reader and the resumable reader agree: on a stream that holds a
  complete frame both return it and leave the same bytes behind, both fail with the same
  error on an unknown type or an oversized length, and where the resumable reader waits
  for more the blocking reader reports the end of the stream. No payload over
  \<open>MAX_PAYLOAD\<close> is ever returned.
\<close>

theorem read_frame_agrees:
  "read_frame r =
     (case derp_extract r of
        Inl e \<Rightarrow> Inl e
      | Inr None \<Rightarrow> Inl (Io UnexpectedEof)
      | Inr (Some (f, rest)) \<Rightarrow> Inr (f, rest)) \<and>
   (\<forall>f rest. read_frame r = Inr (f, rest) \<longrightarrow> length (snd f) \<le> MAX_PAYLOAD)"
  by (auto simp: read_frame_def read_exact_def derp_extract_unfold FRAME_HEADER_LEN_def Let_def
      and_then_def byte_range_def add.commute split: sum.splits if_splits)

theorem read_frame_agrees_witness:
  "read_frame [0x13, 0, 0, 0, 2, 7, 8, 6] = Inr ((FtPong, [7, 8]), [6]) \<and>
   length (snd (FtPong, [7 :: u8, 8])) \<le> MAX_PAYLOAD"
proof -
  have "derp_extract [0x13, 0, 0, 0, 2, 7, 8, 6] = Inr (Some ((FtPong, [7, 8]), [6]))"
    using derp_extract_encode [of "(FtPong, [7, 8])" "[6]"]
    by (simp add: frame_bytes_def sendable_frame_def MAX_PAYLOAD_def u32_to_be_bytes_def)
  then show ?thesis
    using read_frame_agrees [of "[0x13, 0, 0, 0, 2, 7, 8, 6]"] by auto
qed

text \<open>
  What a client sends through the relay is what the other client parses: a packet for
  a peer is the frame whose payload is the peer's key followed by the datagram, refused
  when it would exceed the frame limit, and a received payload of that shape parses back
  into key and datagram.
\<close>

theorem send_packet_recv_packet:
  assumes "length key = 32"
  shows "write_send_packet key wg = write_frame FtSendPacket (key @ wg) \<and>
    parse_recv_packet (key @ wg) = Inr (key, wg)"
  using assms
  by (simp add: write_send_packet_def write_frame_def parse_recv_packet_def Let_def)

theorem send_packet_recv_packet_witness:
  "write_send_packet (replicate 32 9) [1, 2] = write_frame FtSendPacket (replicate 32 9 @ [1, 2]) \<and>
   parse_recv_packet (replicate 32 9 @ [1, 2]) = Inr (replicate 32 9, [1, 2])"
  using send_packet_recv_packet [of "replicate 32 9" "[1, 2]"] by simp

end
