(* ===== verification/Derp_Conn.thy ===== *)
theory Derp_Conn
  imports Derp_Frame
begin

text \<open>
  One relay connection, \<open>crates/ts-derp/src/conn.rs\<close>: the messages of its channels, the
  handle \<open>DerpConn\<close> the multiplexer holds, dialling the nodes of a region in order, and one
  pass of the I/O thread's loop, which writes the queued messages with pongs first, reads
  at most one frame, handles it, and runs the watchdog. Whether a dial, a write or a read
  succeeds, and what the clock shows, comes from outside.
\<close>

section \<open>Channel messages and the connection handle\<close>

datatype derp_tx =
    SendPacket (dst_pubkey: key32) (tx_wg_bytes: bytes)
  | NotePreferred bool
  | Pong bytes

record derp_rx =
  src_pubkey :: key32
  wg_bytes :: bytes

record derp_node_addr =
  dn_region_id :: u16
  dn_name :: string
  dn_hostname :: string
  dn_ipv4 :: string
  dn_ipv6 :: string
  dn_port :: u16

text \<open>
  The handle sees the tail of the queue, the time of the last batch, the home marker and
  whether the thread still runs.
\<close>

record derp_conn =
  cn_region :: u16
  cn_tx :: "derp_tx list"
  cn_last_used :: instant
  cn_is_home :: bool
  cn_shutdown :: bool
  cn_alive :: bool

definition conn_send :: "bool \<Rightarrow> derp_tx \<Rightarrow> derp_conn \<Rightarrow> derp_conn \<times> (derp_error + unit)" where
  "conn_send closed msg c =
     (if closed then (c, Inl (ConnDied ''thread closed''))
      else (c\<lparr>cn_tx := cn_tx c @ [msg]\<rparr>, Inr ()))"

definition conn_set_home :: "bool \<Rightarrow> bool \<Rightarrow> derp_conn \<Rightarrow> derp_conn \<times> (derp_error + unit)" where
  "conn_set_home closed home c = conn_send closed (NotePreferred home) (c\<lparr>cn_is_home := home\<rparr>)"

definition spawn_io :: "derp_error option \<Rightarrow> instant \<Rightarrow> u16 \<Rightarrow> bool \<Rightarrow> derp_error + derp_conn" where
  "spawn_io spawn_err now region is_home =
     (case spawn_err of
        Some e \<Rightarrow> Inl e
      | None \<Rightarrow>
          let c = \<lparr>cn_region = region, cn_tx = [], cn_last_used = now, cn_is_home = False,
                   cn_shutdown = False, cn_alive = True\<rparr>
          in Inr (if is_home then c\<lparr>cn_is_home := True, cn_tx := [NotePreferred True]\<rparr> else c))"

text \<open>
  \<open>dial node\<close> is \<open>None\<close> when the TLS connection and the handshake with that node succeed.
\<close>

fun dial_nodes ::
  "(derp_node_addr \<Rightarrow> derp_error option) \<Rightarrow> (unit \<Rightarrow> derp_error + derp_conn)
     \<Rightarrow> derp_error option \<Rightarrow> derp_node_addr list \<Rightarrow> derp_error + derp_conn" where
  "dial_nodes dial spawn last_err [] =
     Inl (case last_err of Some e \<Rightarrow> e | None \<Rightarrow> Internal ''no nodes for region'')"
| "dial_nodes dial spawn last_err (node # nodes) =
     (case dial node of
        None \<Rightarrow> spawn ()
      | Some e \<Rightarrow> dial_nodes dial spawn (Some e) nodes)"

definition dial_and_spawn ::
  "(derp_node_addr \<Rightarrow> derp_error option) \<Rightarrow> derp_error option \<Rightarrow> instant \<Rightarrow> u16
     \<Rightarrow> derp_node_addr list \<Rightarrow> bool \<Rightarrow> derp_error + derp_conn" where
  "dial_and_spawn dial spawn_err now region nodes is_home =
     (if nodes = [] then Inl (UnknownRegion region)
      else dial_nodes dial (\<lambda>_. spawn_io spawn_err now region is_home) None nodes)"

section \<open>The I/O thread\<close>

datatype handle_action = Continue | Restart duration

text \<open>
  \<open>handle_frame\<close> returns the action together with the contents of the two channels it may
  push to, its own transmit queue and the shared receive sink.
\<close>

definition handle_frame ::
  "u16 \<Rightarrow> frame_type \<Rightarrow> bytes \<Rightarrow> derp_tx list \<Rightarrow> (u16 \<times> derp_rx) list
     \<Rightarrow> handle_action \<times> derp_tx list \<times> (u16 \<times> derp_rx) list" where
  "handle_frame region ty payload tx_self rx_sink =
     (case ty of
        FtRecvPacket \<Rightarrow>
          (case parse_recv_packet payload of
             Inr (src, body) \<Rightarrow>
               (Continue, tx_self, rx_sink @ [(region, \<lparr>src_pubkey = src, wg_bytes = body\<rparr>)])
           | Inl _ \<Rightarrow> (Continue, tx_self, rx_sink))
      | FtPing \<Rightarrow>
          (case parse_ping payload of
             Inr echo \<Rightarrow> (Continue, tx_self @ [Pong echo], rx_sink)
           | Inl _ \<Rightarrow> (Continue, tx_self, rx_sink))
      | FtRestarting \<Rightarrow>
          (case parse_restarting payload of
             Inr (reconnect_in_ms, try_for_ms) \<Rightarrow>
               (Restart (millis (unat reconnect_in_ms)), tx_self, rx_sink)
           | Inl _ \<Rightarrow> (Continue, tx_self, rx_sink))
      | _ \<Rightarrow> (Continue, tx_self, rx_sink))"

fun write_outbound :: "derp_tx \<Rightarrow> derp_error + bytes" where
  "write_outbound (SendPacket dst wg) = write_send_packet dst wg"
| "write_outbound (NotePreferred b) = write_note_preferred b"
| "write_outbound (Pong p) = write_pong p"

fun is_pong :: "derp_tx \<Rightarrow> bool" where
  "is_pong (Pong _) = True"
| "is_pong _ = False"

definition KEEPALIVE_DEADLINE :: duration where "KEEPALIVE_DEADLINE = secs 125"

record io_state =
  io_reader :: frame_reader
  io_reads :: "read_result list"
  io_tx :: "derp_tx list"
  io_sink :: "(u16 \<times> derp_rx) list"
  io_last_rx :: instant
  io_last_used :: instant
  io_written :: bytes

text \<open>
  \<open>io_reads\<close> is what the coming reads from the relay return and \<open>io_written\<close> what has been
  written to it. One pass of the loop meets: the shutdown flag, possibly a write that
  fails, possibly a failing flush, and the clock at the flush, after a frame and at the
  watchdog.
\<close>

record io_env =
  ev_shutdown :: bool
  ev_write_err :: "nat option"
  ev_flush_err :: bool
  ev_now_flush :: instant
  ev_now_rx :: instant
  ev_now_watchdog :: instant

datatype io_exit =
    ShutdownRequested | TxError derp_error | FlushError | RxError derp_error
  | Restarting duration | DeadConn

fun write_batch :: "nat option \<Rightarrow> derp_tx list \<Rightarrow> bytes \<Rightarrow> bytes \<times> derp_error option" where
  "write_batch fail [] out = (out, None)"
| "write_batch fail (m # ms) out =
     (case (if fail = Some 0 then Inl (Io (OtherIo 0)) else write_outbound m) of
        Inl e \<Rightarrow> (out, Some e)
      | Inr bs \<Rightarrow> write_batch (map_option (\<lambda>k. k - 1) fail) ms (out @ bs))"

definition drain_order :: "derp_tx list \<Rightarrow> derp_tx list" where
  "drain_order q = filter is_pong q @ filter (\<lambda>m. \<not> is_pong m) q"

definition io_write_phase :: "io_env \<Rightarrow> io_state \<Rightarrow> io_state \<times> io_exit option" where
  "io_write_phase ev s =
     (let batch = drain_order (io_tx s);
          s = s\<lparr>io_tx := []\<rparr>
      in case write_batch (ev_write_err ev) batch (io_written s) of
           (out, Some e) \<Rightarrow> (s\<lparr>io_written := out\<rparr>, Some (TxError e))
         | (out, None) \<Rightarrow>
             if batch = [] then (s, None)
             else if ev_flush_err ev then (s\<lparr>io_written := out\<rparr>, Some FlushError)
             else (s\<lparr>io_written := out, io_last_used := ev_now_flush ev\<rparr>, None))"

definition io_read_phase :: "u16 \<Rightarrow> io_env \<Rightarrow> io_state \<Rightarrow> io_state \<times> io_exit option" where
  "io_read_phase region ev s =
     (case poll_frame (io_reader s) (io_reads s) of
        (rd, rs, res) \<Rightarrow>
          let s = s\<lparr>io_reader := rd, io_reads := rs\<rparr> in
          case res of
            Inr (Some (ty, payload)) \<Rightarrow>
              (case handle_frame region ty payload (io_tx s) (io_sink s) of
                 (act, tx, sink) \<Rightarrow>
                   (s\<lparr>io_last_rx := ev_now_rx ev, io_tx := tx, io_sink := sink\<rparr>,
                    case act of Restart delay \<Rightarrow> Some (Restarting delay) | Continue \<Rightarrow> None))
          | Inr None \<Rightarrow> (s, None)
          | Inl e \<Rightarrow> (s, Some (RxError e)))"

definition io_iter :: "u16 \<Rightarrow> io_env \<Rightarrow> io_state \<Rightarrow> io_state \<times> io_exit option" where
  "io_iter region ev s =
     (if ev_shutdown ev then (s, Some ShutdownRequested)
      else case io_write_phase ev s of
        (s, Some x) \<Rightarrow> (s, Some x)
      | (s, None) \<Rightarrow>
          (case io_read_phase region ev s of
             (s, Some x) \<Rightarrow> (s, Some x)
           | (s, None) \<Rightarrow>
               if duration_since (ev_now_watchdog ev) (io_last_rx s) > KEEPALIVE_DEADLINE
               then (s, Some DeadConn) else (s, None)))"

text \<open>
  The loop over a list of passes. Between two passes other threads may push messages to
  the transmit queue; \<open>push\<close> lists what they push before each pass.
\<close>

fun io_run :: "u16 \<Rightarrow> (derp_tx list \<times> io_env) list \<Rightarrow> io_state \<Rightarrow> io_state \<times> io_exit option" where
  "io_run region [] s = (s, None)"
| "io_run region ((push, ev) # evs) s =
     (case io_iter region ev (s\<lparr>io_tx := io_tx s @ push\<rparr>) of
        (s, Some x) \<Rightarrow> (s, Some x)
      | (s, None) \<Rightarrow> io_run region evs s)"

section \<open>Facts about dialling and one pass\<close>

lemma dial_nodes_ok:
  "\<exists>n \<in> set nodes. dial n = None \<Longrightarrow> dial_nodes dial spawn le nodes = spawn ()"
  by (induction nodes arbitrary: le) (auto split: option.splits)

lemma dial_nodes_fail:
  assumes "\<forall>n \<in> set nodes. dial n \<noteq> None" and "nodes \<noteq> []"
  shows "dial_nodes dial spawn le nodes = Inl (the (dial (last nodes)))"
  using assms
proof (induction nodes arbitrary: le)
  case Nil
  then show ?case by simp
next
  case (Cons n nodes)
  then obtain e where "dial n = Some e" by auto
  with Cons show ?case by (cases "nodes = []") auto
qed

lemma dial_nodes_Inr:
  "dial_nodes dial spawn le nodes = Inr c \<longleftrightarrow> (\<exists>n \<in> set nodes. dial n = None) \<and> spawn () = Inr c"
  by (induction nodes arbitrary: le) (auto split: option.splits)

lemma spawn_io_Inr [result_iff]:
  "spawn_io se now r h = Inr c \<longleftrightarrow> se = None \<and>
     c = \<lparr>cn_region = r, cn_tx = (if h then [NotePreferred True] else []), cn_last_used = now,
          cn_is_home = h, cn_shutdown = False, cn_alive = True\<rparr>"
  by (auto simp: spawn_io_def Let_def split: option.splits)

lemma dial_and_spawn_Inr [result_iff]:
  "dial_and_spawn dial se now r nodes h = Inr c \<longleftrightarrow>
     (\<exists>n \<in> set nodes. dial n = None) \<and> spawn_io se now r h = Inr c"
  by (cases "nodes = []") (auto simp: dial_and_spawn_def dial_nodes_Inr)

lemma write_outbound_Inr:
  "write_outbound m = Inr bs \<Longrightarrow>
     bs = (case m of SendPacket k w \<Rightarrow> frame_type_byte FtSendPacket # u32_to_be_bytes (word_of_nat (32 + length w)) @ k @ w
         | NotePreferred b \<Rightarrow> frame_bytes (FtNotePreferred, [if b then 1 else 0])
         | Pong p \<Rightarrow> frame_bytes (FtPong, p))"
  by (cases m)
    (auto simp: write_send_packet_def write_note_preferred_def write_pong_def Let_def
      result_iff split: if_splits)

lemma write_batch_None:
  assumes "write_batch fail ms out = (out', None)"
  shows "\<exists>bss. list_all2 (\<lambda>m bs. write_outbound m = Inr bs) ms bss \<and> out' = out @ concat bss"
  using assms
proof (induction fail ms out rule: write_batch.induct)
  case (1 fail out)
  then show ?case by simp
next
  case (2 fail m ms out)
  then obtain bs where m: "write_outbound m = Inr bs" and f: "fail \<noteq> Some 0"
    and r: "write_batch (map_option (\<lambda>k. k - 1) fail) ms (out @ bs) = (out', None)"
    by (auto split: sum.splits if_splits)
  from m f have "(if fail = Some 0 then Inl (Io (OtherIo 0)) else write_outbound m) = Inr bs"
    by simp
  from "2.IH" [OF this r] obtain bss where
    "list_all2 (\<lambda>m bs. write_outbound m = Inr bs) ms bss" "out' = (out @ bs) @ concat bss"
    by blast
  with m show ?case by (intro exI [of _ "bs # bss"]) simp
qed

lemma write_phase_None:
  assumes "io_write_phase ev s = (s', None)"
  shows "\<exists>bss. list_all2 (\<lambda>m bs. write_outbound m = Inr bs) (drain_order (io_tx s)) bss \<and>
      io_written s' = io_written s @ concat bss \<and> io_tx s' = [] \<and>
      io_reader s' = io_reader s \<and> io_reads s' = io_reads s \<and> io_sink s' = io_sink s"
proof -
  obtain out r where w: "write_batch (ev_write_err ev) (drain_order (io_tx s)) (io_written s) = (out, r)"
    by fastforce
  with assms have "r = None"
    by (auto simp: io_write_phase_def Let_def split: option.splits)
  with write_batch_None w obtain bss where
    "list_all2 (\<lambda>m bs. write_outbound m = Inr bs) (drain_order (io_tx s)) bss"
    "out = io_written s @ concat bss" by blast
  then show ?thesis
    using assms w \<open>r = None\<close>
    by (intro exI [of _ bss]) (auto simp: io_write_phase_def Let_def split: if_splits)
qed

lemma io_iter_None:
  assumes "io_iter region ev s = (s', None)"
  obtains t where "io_write_phase ev s = (t, None)" and "io_read_phase region ev t = (s', None)"
  using assms
  by (auto simp: io_iter_def split: if_splits prod.splits option.splits)

lemma read_phase_written [frame_simps]:
  "io_read_phase region ev s = (s', x) \<Longrightarrow> io_written s' = io_written s"
  by (auto simp: io_read_phase_def Let_def split: prod.splits sum.splits option.splits)

text \<open>What a frame from the relay adds to the receive sink.\<close>

definition relayed :: "u16 \<Rightarrow> frame_type \<times> bytes \<Rightarrow> (u16 \<times> derp_rx) list" where
  "relayed region f =
     (if fst f = FtRecvPacket \<and> 32 \<le> length (snd f)
      then [(region, \<lparr>src_pubkey = take 32 (snd f), wg_bytes = drop 32 (snd f)\<rparr>)] else [])"

lemma handle_frame_sink:
  "handle_frame region ty p tx sink = (act, tx', sink') \<Longrightarrow> sink' = sink @ relayed region (ty, p)"
  by (cases ty)
    (auto simp: handle_frame_def relayed_def parse_recv_packet_def split: sum.splits if_splits)

lemma handle_frame_ping:
  "handle_frame region FtPing p tx sink =
     (Continue, if length p < 8 then tx else tx @ [Pong (take 8 p)], sink)"
  by (simp add: handle_frame_def parse_ping_def)

lemma read_phase_None:
  assumes "io_read_phase region ev s = (s', None)" and "list_all clean_read (io_reads s)"
  shows "list_all clean_read (io_reads s') \<and>
    (\<exists>fs. fr_buf (io_reader s) @ schedule_bytes (io_reads s) =
        concat (map frame_bytes fs) @ fr_buf (io_reader s') @ schedule_bytes (io_reads s') \<and>
      io_sink s' = io_sink s @ concat (map (relayed region) fs))"
  using assms(2)
proof (cases rule: poll_frame_cases [of "io_reads s" "io_reader s"])
  case (error e rd rs)
  with assms(1) show ?thesis by (simp add: io_read_phase_def)
next
  case (frame f rd rs)
  obtain ty p where f: "f = (ty, p)" by (cases f)
  obtain act tx sink where h: "handle_frame region ty p (io_tx s) (io_sink s) = (act, tx, sink)"
    by (cases "handle_frame region ty p (io_tx s) (io_sink s)")
  from assms(1) frame(1) f h have
    "io_reader s' = rd" "io_reads s' = rs" "io_sink s' = sink"
    by (auto simp: io_read_phase_def split: handle_action.splits)
  then show ?thesis
    using frame(2) derp_extract_frame_bytes [OF frame(3)] handle_frame_sink [OF h] f
    by (intro conjI exI [of _ "[f]"]) simp_all
next
  case (more rd rs)
  with assms(1) have "io_reader s' = rd" "io_reads s' = rs" "io_sink s' = io_sink s"
    by (auto simp: io_read_phase_def)
  then show ?thesis using more by (intro conjI exI [of _ "[]"]) simp_all
qed

lemma io_iter_sink:
  assumes "io_iter region ev s = (s', None)" and "list_all clean_read (io_reads s)"
  shows "list_all clean_read (io_reads s') \<and>
    (\<exists>fs. fr_buf (io_reader s) @ schedule_bytes (io_reads s) =
        concat (map frame_bytes fs) @ fr_buf (io_reader s') @ schedule_bytes (io_reads s') \<and>
      io_sink s' = io_sink s @ concat (map (relayed region) fs))"
proof -
  from assms(1) obtain t where w: "io_write_phase ev s = (t, None)"
    and r: "io_read_phase region ev t = (s', None)" by (rule io_iter_None)
  from write_phase_None [OF w] have "io_reader t = io_reader s" "io_reads t = io_reads s"
    "io_sink t = io_sink s" by auto
  with read_phase_None [OF r] assms(2) show ?thesis by simp
qed

section \<open>Properties\<close>

text \<open>
  C16: A connection relays exactly what the relay server sent. As long as the I/O thread
  runs, the bytes that arrived are whole frames followed by what is still buffered or
  still to come, and the receive sink has got, in order, the sender and the datagram of
  every well-formed packet frame among them and nothing else, however passes, timeouts
  and outgoing traffic interleave.
\<close>

theorem io_run_relays:
  assumes "io_run region evs s = (s', None)" and "list_all clean_read (io_reads s)"
  shows "\<exists>fs. fr_buf (io_reader s) @ schedule_bytes (io_reads s) =
      concat (map frame_bytes fs) @ fr_buf (io_reader s') @ schedule_bytes (io_reads s') \<and>
    io_sink s' = io_sink s @ concat (map (relayed region) fs)"
  using assms
proof (induction region evs s rule: io_run.induct)
  case (1 region s)
  then show ?case by (intro exI [of _ "[]"]) simp
next
  case (2 region push ev evs s)
  then obtain t where t: "io_iter region ev (s\<lparr>io_tx := io_tx s @ push\<rparr>) = (t, None)"
    and run: "io_run region evs t = (s', None)"
    by (auto split: prod.splits option.splits)
  from io_iter_sink [OF t] 2(3) obtain fs where "list_all clean_read (io_reads t)"
    and fs: "fr_buf (io_reader s) @ schedule_bytes (io_reads s) =
        concat (map frame_bytes fs) @ fr_buf (io_reader t) @ schedule_bytes (io_reads t)"
      "io_sink t = io_sink s @ concat (map (relayed region) fs)"
    by auto
  with "2.IH" [OF t [symmetric] refl run] obtain gs where
    "fr_buf (io_reader t) @ schedule_bytes (io_reads t) =
        concat (map frame_bytes gs) @ fr_buf (io_reader s') @ schedule_bytes (io_reads s')"
    "io_sink s' = io_sink t @ concat (map (relayed region) gs)" by auto
  with fs show ?case by (intro exI [of _ "fs @ gs"]) simp
qed

definition quiet_env :: io_env where
  "quiet_env = \<lparr>ev_shutdown = False, ev_write_err = None, ev_flush_err = False,
     ev_now_flush = 0, ev_now_rx = 0, ev_now_watchdog = 0\<rparr>"

text \<open>A whole frame that arrives in one read is returned by the poll that reads it.\<close>

lemma poll_frame_whole:
  assumes "sendable_frame f"
  shows "poll_frame frame_reader_new (ReadOk (frame_bytes f) # rs) = (frame_reader_new, rs, Inr (Some f))"
proof -
  have "try_extract frame_reader_new = (frame_reader_new, Inr None)"
    by (simp add: frame_reader_new_def try_extract_def FRAME_HEADER_LEN_def)
  moreover have "try_extract \<lparr>fr_buf = frame_bytes f\<rparr> = (\<lparr>fr_buf = []\<rparr>, Inr (Some f))"
    using try_extract_iff(3) [of "\<lparr>fr_buf = frame_bytes f\<rparr>"] derp_extract_encode [OF assms, of "[]"] by simp
  ultimately show ?thesis
    by (simp add: poll_frame_def next_read_def frame_reader_new_def frame_bytes_def)
qed

lemmas io_pass_simps = io_iter_def io_write_phase_def io_read_phase_def drain_order_def
  poll_frame_whole duration_since_def KEEPALIVE_DEADLINE_def

definition fresh_io :: "read_result list \<Rightarrow> io_state" where
  "fresh_io rs = \<lparr>io_reader = frame_reader_new, io_reads = rs, io_tx = [], io_sink = [],
     io_last_rx = 0, io_last_used = 0, io_written = []\<rparr>"

theorem io_run_relays_witness:
  "\<exists>s'. io_run 1 [([], quiet_env)] (fresh_io [ReadOk (frame_bytes (FtRecvPacket, replicate 32 7 @ [9]))])
     = (s', None) \<and> io_sink s' = [(1, \<lparr>src_pubkey = replicate 32 7, wg_bytes = [9]\<rparr>)] \<and>
   (\<exists>fs. frame_bytes (FtRecvPacket, replicate 32 7 @ [9]) = concat (map frame_bytes fs) \<and>
      io_sink s' = concat (map (relayed 1) fs))"
proof -
  let ?f = "(FtRecvPacket, replicate 32 7 @ [9])"
  let ?s = "fresh_io [ReadOk (frame_bytes ?f)]"
  let ?s' = "?s\<lparr>io_reads := [], io_sink := [(1, \<lparr>src_pubkey = replicate 32 7, wg_bytes = [9]\<rparr>)]\<rparr>"
  have "sendable_frame ?f" by (simp add: sendable_frame_def MAX_PAYLOAD_def)
  then have run: "io_run 1 [([], quiet_env)] ?s = (?s', None)"
    by (simp add: io_pass_simps fresh_io_def quiet_env_def handle_frame_def parse_recv_packet_def)
  have "list_all clean_read (io_reads ?s)" by (simp add: fresh_io_def frame_bytes_def)
  from io_run_relays [OF run this] run show ?thesis
    by (intro exI [of _ ?s']) (simp add: fresh_io_def frame_reader_new_def)
qed

text \<open>
  C17: Pongs overtake. When a pass reads a ping, the next thing the thread writes is the
  pong with the same eight bytes, whatever other threads queued before or after it in the
  meantime; everything else queued follows behind, in order.
\<close>

theorem ping_answered_first:
  assumes "io_iter region ev s = (s1, None)"
    and "poll_frame (io_reader s) (io_reads s) = (rd, rs, Inr (Some (FtPing, payload)))"
    and "8 \<le> length payload"
    and "list_all (\<lambda>m. \<not> is_pong m) (pre @ post)"
    and "io_iter region ev' (s1\<lparr>io_tx := pre @ io_tx s1 @ post\<rparr>) = (s2, None)"
  shows "\<exists>bss. list_all2 (\<lambda>m bs. write_outbound m = Inr bs) (pre @ post) bss \<and>
    io_written s2 = io_written s1 @ frame_bytes (FtPong, take 8 payload) @ concat bss"
proof -
  from assms(1) obtain t where w: "io_write_phase ev s = (t, None)"
    and r: "io_read_phase region ev t = (s1, None)" by (rule io_iter_None)
  from write_phase_None [OF w] have t: "io_reader t = io_reader s" "io_reads t = io_reads s" "io_tx t = []"
    by auto
  with r assms(2,3) have tx: "io_tx s1 = [Pong (take 8 payload)]"
    by (auto simp: io_read_phase_def handle_frame_ping)
  have order: "drain_order (pre @ io_tx s1 @ post) = Pong (take 8 payload) # pre @ post"
    using assms(4) tx by (auto simp: drain_order_def list_all_iff filter_empty_conv filter_id_conv)
  from assms(5) obtain t' where w': "io_write_phase ev' (s1\<lparr>io_tx := pre @ io_tx s1 @ post\<rparr>) = (t', None)"
    and r': "io_read_phase region ev' t' = (s2, None)" by (rule io_iter_None)
  from write_phase_None [OF w'] order obtain bss where
    "list_all2 (\<lambda>m bs. write_outbound m = Inr bs) (Pong (take 8 payload) # pre @ post) bss"
    "io_written t' = io_written s1 @ concat bss" by auto
  then show ?thesis
    using read_phase_written [OF r']
    by (auto simp: list_all2_Cons1 write_pong_def write_frame_Inr_iff)
qed

theorem ping_answered_first_witness:
  "\<exists>s1 s2. io_iter 1 quiet_env (fresh_io [ReadOk (frame_bytes (FtPing, replicate 8 5))]) = (s1, None) \<and>
     io_iter 1 quiet_env (s1\<lparr>io_tx := [NotePreferred True] @ io_tx s1 @ []\<rparr>) = (s2, None) \<and>
     (\<exists>rest. io_written s2 = frame_bytes (FtPong, replicate 8 5) @ rest)"
proof -
  let ?p = "replicate 8 5 :: bytes"
  let ?s = "fresh_io [ReadOk (frame_bytes (FtPing, ?p))]"
  let ?s1 = "?s\<lparr>io_reads := [], io_tx := [Pong ?p]\<rparr>"
  let ?s2 = "?s1\<lparr>io_tx := [], io_written := frame_bytes (FtPong, ?p) @ frame_bytes (FtNotePreferred, [1])\<rparr>"
  have f: "sendable_frame (FtPing, ?p)" "sendable_frame (FtPong, ?p)" "sendable_frame (FtNotePreferred, [1])"
    by (simp_all add: sendable_frame_def MAX_PAYLOAD_def)
  have 1: "io_iter 1 quiet_env ?s = (?s1, None)"
    using f(1) by (simp add: io_pass_simps fresh_io_def quiet_env_def handle_frame_ping)
  have 2: "poll_frame (io_reader ?s) (io_reads ?s) = (frame_reader_new, [], Inr (Some (FtPing, ?p)))"
    using f(1) by (simp add: fresh_io_def poll_frame_whole)
  have "poll_frame frame_reader_new [] = (frame_reader_new, [], Inr None)"
    by (simp add: poll_frame_def next_read_def try_extract_def frame_reader_new_def FRAME_HEADER_LEN_def)
  then have 3: "io_iter 1 quiet_env (?s1\<lparr>io_tx := [NotePreferred True] @ io_tx ?s1 @ []\<rparr>) = (?s2, None)"
    using f(2,3) by (simp add: io_pass_simps fresh_io_def quiet_env_def write_pong_def
        write_note_preferred_def write_frame_ok)
  from ping_answered_first [OF 1 2 _ _ 3] have "\<exists>rest. io_written ?s2 = frame_bytes (FtPong, ?p) @ rest"
    by (auto simp: fresh_io_def)
  with 1 3 show ?thesis by (intro exI [of _ ?s1] exI [of _ ?s2]) simp
qed

end
