(* ===== verification/Derp_Mux.thy ===== *)
theory Derp_Mux
  imports Derp_Conn
begin

text \<open>
  The pool of relay connections, \<open>crates/ts-derp/src/mux.rs\<close>, and the choice of the home
  region, \<open>probe.rs\<close>. The connection table is an association list, so every statement holds
  for whatever order the hash map iterates in.
\<close>

section \<open>State\<close>

definition DEFAULT_MAX_CONNS :: nat where "DEFAULT_MAX_CONNS = 8"

record derp_mux =
  mx_conns :: "(u16 \<times> derp_conn) list"
  mx_derp_map :: "(u16 \<times> derp_node_addr list) list"
  mx_home :: u16
  mx_cap :: nat

definition mux_new :: "nat \<Rightarrow> derp_mux" where
  "mux_new cap =
     \<lparr>mx_conns = [], mx_derp_map = [], mx_home = 0,
      mx_cap = (if cap = 0 then DEFAULT_MAX_CONNS else cap)\<rparr>"

definition mux_set_derp_map :: "(u16 \<times> derp_node_addr list) list \<Rightarrow> derp_mux \<Rightarrow> derp_mux" where
  "mux_set_derp_map mp m = m\<lparr>mx_derp_map := mp\<rparr>"

section \<open>Operations\<close>

text \<open>
  \<open>ensure_region\<close> releases the lock of the table around the dial, so it is three steps:
  looking for a live connection, making room, and inserting the new connection.
\<close>

definition find_alive :: "u16 \<Rightarrow> derp_mux \<Rightarrow> derp_conn option" where
  "find_alive region m =
     (case map_of (mx_conns m) region of
        Some c \<Rightarrow> if cn_alive c then Some c else None
      | None \<Rightarrow> None)"

definition evict_target :: "u16 \<Rightarrow> (u16 \<times> derp_conn) list \<Rightarrow> (u16 \<times> instant) option" where
  "evict_target home conns =
     min_by_key snd (map (\<lambda>(r, c). (r, cn_last_used c)) (filter (\<lambda>(r, _). r \<noteq> home) conns))"

definition make_room :: "derp_mux \<Rightarrow> derp_mux \<times> (derp_error + unit)" where
  "make_room m =
     (let conns = filter (\<lambda>(_, c). cn_alive c) (mx_conns m);
          m = m\<lparr>mx_conns := conns\<rparr>
      in if length conns \<ge> mx_cap m
         then (case evict_target (mx_home m) conns of
                 Some (evict_region, _) \<Rightarrow> (m\<lparr>mx_conns := AList.delete evict_region conns\<rparr>, Inr ())
               | None \<Rightarrow> (m, Inl (CapExceededHome (mx_cap m) (mx_home m))))
         else (m, Inr ()))"

definition insert_conn :: "u16 \<Rightarrow> derp_conn \<Rightarrow> derp_mux \<Rightarrow> derp_mux" where
  "insert_conn region c m = m\<lparr>mx_conns := AList.update region c (mx_conns m)\<rparr>"

record dial_env =
  de_dial :: "derp_node_addr \<Rightarrow> derp_error option"
  de_spawn_err :: "derp_error option"
  de_now :: instant

definition ensure_region ::
  "dial_env \<Rightarrow> u16 \<Rightarrow> bool \<Rightarrow> derp_mux \<Rightarrow> derp_mux \<times> (derp_error + derp_conn)" where
  "ensure_region env region is_home m =
     (case find_alive region m of
        Some c \<Rightarrow> (m, Inr c)
      | None \<Rightarrow>
          (case map_of (mx_derp_map m) region of
             None \<Rightarrow> (m, Inl (UnknownRegion region))
           | Some nodes \<Rightarrow>
               (case make_room m of
                  (m, Inl e) \<Rightarrow> (m, Inl e)
                | (m, Inr _) \<Rightarrow>
                    (case dial_and_spawn (de_dial env) (de_spawn_err env) (de_now env) region nodes is_home of
                       Inl e \<Rightarrow> (m, Inl e)
                     | Inr c \<Rightarrow> (insert_conn region c m, Inr c)))))"

text \<open>
  The table holds shared handles: marking the previous home acts on the handle in the
  table. \<open>closed\<close> tells whether that connection's channel has lost its receiver.
\<close>

definition mux_set_home ::
  "dial_env \<Rightarrow> bool \<Rightarrow> u16 \<Rightarrow> derp_mux \<Rightarrow> derp_mux \<times> (derp_error + unit)" where
  "mux_set_home env closed region m =
     (let prev = mx_home m;
          m = m\<lparr>mx_home := region\<rparr>
      in if prev = region then (m, Inr ())
         else (case ensure_region env region True m of
                 (m, Inl e) \<Rightarrow> (m, Inl e)
               | (m, Inr _) \<Rightarrow>
                   if prev \<noteq> 0
                   then (case map_of (mx_conns m) prev of
                           Some c \<Rightarrow> (insert_conn prev (fst (conn_set_home closed False c)) m, Inr ())
                         | None \<Rightarrow> (m, Inr ()))
                   else (m, Inr ())))"

definition mux_send ::
  "dial_env \<Rightarrow> bool \<Rightarrow> u16 \<Rightarrow> key32 \<Rightarrow> bytes \<Rightarrow> derp_mux \<Rightarrow> derp_mux \<times> (derp_error + unit)" where
  "mux_send env closed region dst wg m =
     (let is_home = (region = mx_home m)
      in case ensure_region env region is_home m of
           (m, Inl e) \<Rightarrow> (m, Inl e)
         | (m, Inr c) \<Rightarrow>
             (case conn_send closed (SendPacket dst wg) c of
                (c, Inr _) \<Rightarrow> (insert_conn region c m, Inr ())
              | (c, Inl e) \<Rightarrow> (m\<lparr>mx_conns := AList.delete region (mx_conns m)\<rparr>, Inl e)))"

definition alive_regions :: "derp_mux \<Rightarrow> u16 list" where
  "alive_regions m = map fst (filter (\<lambda>(_, c). cn_alive c) (mx_conns m))"

definition mux_shutdown :: "derp_mux \<Rightarrow> derp_mux" where
  "mux_shutdown m = m\<lparr>mx_conns := []\<rparr>"

section \<open>Invariant\<close>

definition mux_ok :: "derp_mux \<Rightarrow> bool" where
  "mux_ok m \<longleftrightarrow> distinct (map fst (mx_conns m)) \<and> length (mx_conns m) \<le> mx_cap m \<and> 0 < mx_cap m"

text \<open>
  What happens to the pool: calls, one after the other, and between them whatever the
  connection threads do to their own handles.
\<close>

inductive mux_step :: "derp_mux \<Rightarrow> derp_mux \<Rightarrow> bool" where
  set_map: "mux_step m (mux_set_derp_map mp m)"
| set_home: "mux_step m (fst (mux_set_home env closed r m))"
| send: "mux_step m (fst (mux_send env closed r dst wg m))"
| ensure: "mux_step m (fst (ensure_region env r h m))"
| shutdown: "mux_step m (mux_shutdown m)"
| thread: "(r, c) \<in> set (mx_conns m) \<Longrightarrow> cn_region c' = cn_region c \<Longrightarrow> cn_is_home c' = cn_is_home c
    \<Longrightarrow> (cn_alive c' \<longrightarrow> cn_alive c) \<Longrightarrow> mux_step m (insert_conn r c' m)"

inductive_cases mux_stepE: "mux_step m m'"

lemma length_AList_update:
  "length (AList.update k v al) = (if k \<in> fst ` set al then length al else Suc (length al))"
proof -
  have "length (map fst (AList.update k v al)) = (if k \<in> fst ` set al then length al else Suc (length al))"
    by (simp add: update_keys)
  then show ?thesis by simp
qed

lemma length_delete_less: "k \<in> fst ` set al \<Longrightarrow> length (AList.delete k al) < length al"
  unfolding AList.delete_eq by (auto intro!: length_filter_less)

lemma distinct_filter_keys: "distinct (map fst al) \<Longrightarrow> distinct (map fst (filter P al))"
  by (induction al) auto

lemma map_of_filter_keep:
  "distinct (map fst al) \<Longrightarrow> map_of (filter (\<lambda>(_, c). P c) al) r =
     (case map_of al r of Some c \<Rightarrow> if P c then Some c else None | None \<Rightarrow> None)"
  by (induction al) (auto simp: map_of_eq_None_iff image_iff split: option.splits)

lemma evict_target_Some:
  assumes "evict_target home conns = Some (r, t)"
  shows "r \<noteq> home \<and> (\<exists>c. (r, c) \<in> set conns \<and> t = cn_last_used c) \<and>
    (\<forall>(r', c') \<in> set conns. r' \<noteq> home \<longrightarrow> t \<le> cn_last_used c')"
proof -
  let ?xs = "map (\<lambda>(r, c). (r, cn_last_used c)) (filter (\<lambda>(r, _). r \<noteq> home) conns)"
  from assms have m: "min_by_key snd ?xs = Some (r, t)" by (simp add: evict_target_def)
  from min_by_key_mem [OF m] obtain c where "(r, c) \<in> set conns" "r \<noteq> home" "t = cn_last_used c"
    by auto
  moreover have "t \<le> cn_last_used c'" if "(r', c') \<in> set conns" "r' \<noteq> home" for r' c'
  proof -
    from that have "(r', cn_last_used c') \<in> set ?xs" by force
    from min_by_key_le [OF m this] show ?thesis by simp
  qed
  ultimately show ?thesis by blast
qed

lemma evict_target_None: "evict_target home conns = None \<longleftrightarrow> (\<forall>(r, c) \<in> set conns. r = home)"
  by (auto simp: evict_target_def filter_empty_conv)

lemma make_room_keeps [frame_simps]:
  "make_room m = (m', res) \<Longrightarrow>
     mx_home m' = mx_home m \<and> mx_cap m' = mx_cap m \<and> mx_derp_map m' = mx_derp_map m"
  by (auto simp: make_room_def Let_def split: if_splits option.splits)

lemma make_room_ok:
  assumes "mux_ok m" and "make_room m = (m', res)"
  shows "mux_ok m'" and "res = Inr () \<Longrightarrow> length (mx_conns m') < mx_cap m'"
proof -
  let ?c = "filter (\<lambda>(_, c). cn_alive c) (mx_conns m)"
  have d: "distinct (map fst ?c)" and l: "length ?c \<le> mx_cap m" and p: "0 < mx_cap m"
    using assms(1) by (auto simp: mux_ok_def distinct_filter_keys intro: le_trans [OF length_filter_le])
  have "mux_ok m' \<and> (res = Inr () \<longrightarrow> length (mx_conns m') < mx_cap m')"
  proof (cases "length ?c \<ge> mx_cap m")
    case False
    then show ?thesis using assms(2) d l p by (auto simp: make_room_def mux_ok_def Let_def)
  next
    case full: True
    show ?thesis
    proof (cases "evict_target (mx_home m) ?c")
      case None
      then show ?thesis using assms(2) full d l p by (auto simp: make_room_def mux_ok_def Let_def)
    next
      case (Some rt)
      obtain r t where rt: "rt = (r, t)" by (cases rt)
      from evict_target_Some [OF Some [unfolded rt]] obtain c where "(r, c) \<in> set ?c" by blast
      then have "r \<in> fst ` set ?c" by (rule image_eqI [rotated]) simp
      then have "length (AList.delete r ?c) < mx_cap m"
        using length_delete_less [of r ?c] l by simp
      then show ?thesis
        using assms(2) full d p Some rt
        by (auto simp: make_room_def mux_ok_def Let_def distinct_delete)
    qed
  qed
  then show "mux_ok m'" and "res = Inr () \<Longrightarrow> length (mx_conns m') < mx_cap m'" by blast+
qed

lemma insert_conn_ok:
  "mux_ok m \<Longrightarrow> r \<in> fst ` set (mx_conns m) \<or> length (mx_conns m) < mx_cap m \<Longrightarrow> mux_ok (insert_conn r c m)"
  by (auto simp: mux_ok_def insert_conn_def length_AList_update distinct_update)

lemma ensure_region_cases:
  obtains
    (live) c where "find_alive r m = Some c" "ensure_region env r h m = (m, Inr c)"
  | (unknown) "find_alive r m = None" "map_of (mx_derp_map m) r = None"
      "ensure_region env r h m = (m, Inl (UnknownRegion r))"
  | (full) m' e where "find_alive r m = None" "make_room m = (m', Inl e)"
      "ensure_region env r h m = (m', Inl e)"
  | (no_dial) m' e where "find_alive r m = None" "make_room m = (m', Inr ())"
      "ensure_region env r h m = (m', Inl e)"
  | (dialled) m' nodes c where "find_alive r m = None" "map_of (mx_derp_map m) r = Some nodes"
      "make_room m = (m', Inr ())"
      "dial_and_spawn (de_dial env) (de_spawn_err env) (de_now env) r nodes h = Inr c"
      "ensure_region env r h m = (insert_conn r c m', Inr c)"
proof (cases "find_alive r m")
  case (Some c)
  then show thesis by (intro live) (simp_all add: ensure_region_def)
next
  case none: None
  show thesis
  proof (cases "map_of (mx_derp_map m) r")
    case None
    with none show thesis by (intro unknown) (simp_all add: ensure_region_def)
  next
    case (Some nodes)
    obtain m' res where mr: "make_room m = (m', res)" by fastforce
    show thesis
    proof (cases res)
      case (Inl e)
      with none Some mr show thesis by (intro full [of m' e]) (simp_all add: ensure_region_def)
    next
      case (Inr u)
      show thesis
      proof (cases "dial_and_spawn (de_dial env) (de_spawn_err env) (de_now env) r nodes h")
        case (Inl e)
        with none Some mr Inr show thesis by (intro no_dial [of m' e]) (simp_all add: ensure_region_def)
      next
        case (Inr c)
        with none Some mr \<open>res = Inr u\<close> show thesis
          by (intro dialled [of nodes m' c]) (simp_all add: ensure_region_def)
      qed
    qed
  qed
qed

lemma ensure_region_keeps [frame_simps]:
  "ensure_region env r h m = (m', res) \<Longrightarrow>
     mx_home m' = mx_home m \<and> mx_cap m' = mx_cap m \<and> mx_derp_map m' = mx_derp_map m"
  by (cases rule: ensure_region_cases [of r m env h])
    (auto simp: insert_conn_def dest: make_room_keeps)

lemma ensure_region_ok:
  assumes "mux_ok m" and "ensure_region env r h m = (m', res)"
  shows "mux_ok m'"
proof (cases rule: ensure_region_cases [of r m env h])
  case (dialled t nodes c)
  then have "mux_ok (insert_conn r c t)"
    using make_room_ok [OF assms(1) dialled(3)] by (intro insert_conn_ok) simp_all
  with dialled assms(2) show ?thesis by simp
qed (use assms make_room_ok in auto)

lemma map_of_insert_conn [simp]:
  "map_of (mx_conns (insert_conn r c m)) = (map_of (mx_conns m))(r \<mapsto> c)"
  by (simp add: insert_conn_def update_conv')

lemma insert_conn_simps [simp]:
  "mx_home (insert_conn r c m) = mx_home m"
  "mx_cap (insert_conn r c m) = mx_cap m"
  "mx_derp_map (insert_conn r c m) = mx_derp_map m"
  by (simp_all add: insert_conn_def)

lemma map_of_mem_keys: "map_of al r = Some c \<Longrightarrow> r \<in> fst ` set al"
  by (metis domI dom_map_of_conv_image_fst)

lemma ensure_region_result:
  assumes "ensure_region env r h m = (m', Inr c)"
  shows "map_of (mx_conns m') r = Some c \<and> cn_alive c"
proof (cases rule: ensure_region_cases [of r m env h])
  case (live c')
  then show ?thesis using assms by (auto simp: find_alive_def split: option.splits if_splits)
next
  case (dialled t nodes c')
  then have "cn_alive c'" by (auto simp: result_iff)
  then show ?thesis using dialled assms by simp
qed (use assms in simp_all)

lemma mux_set_home_ok:
  assumes "mux_ok m"
  shows "mux_ok (fst (mux_set_home env closed r m))"
proof -
  have m1: "mux_ok (m\<lparr>mx_home := r\<rparr>)" using assms by (simp add: mux_ok_def)
  obtain m2 res where e: "ensure_region env r True (m\<lparr>mx_home := r\<rparr>) = (m2, res)" by fastforce
  have "mux_ok m2" by (rule ensure_region_ok [OF m1 e])
  moreover have "mux_ok (insert_conn k c m2)" if "map_of (mx_conns m2) k = Some d" for k c d
    using \<open>mux_ok m2\<close> map_of_mem_keys [OF that] by (intro insert_conn_ok) simp_all
  ultimately show ?thesis
    using e m1 by (auto simp: mux_set_home_def Let_def split: sum.splits option.splits)
qed

lemma mux_send_ok:
  assumes "mux_ok m"
  shows "mux_ok (fst (mux_send env closed r dst wg m))"
proof -
  obtain m2 res where e: "ensure_region env r (r = mx_home m) m = (m2, res)" by fastforce
  have ok: "mux_ok m2" by (rule ensure_region_ok [OF assms e])
  show ?thesis
  proof (cases res)
    case (Inl x)
    then show ?thesis using e ok by (simp add: mux_send_def)
  next
    case (Inr c)
    then have "r \<in> fst ` set (mx_conns m2)"
      using ensure_region_result [OF e [unfolded Inr]] by (auto intro: map_of_mem_keys)
    then have "mux_ok (insert_conn r c' m2)" for c' using ok by (intro insert_conn_ok) simp_all
    moreover have "mux_ok (m2\<lparr>mx_conns := AList.delete r (mx_conns m2)\<rparr>)"
      using ok le_trans [OF length_delete_le] by (auto simp: mux_ok_def distinct_delete)
    ultimately show ?thesis using e Inr by (simp add: mux_send_def conn_send_def)
  qed
qed

lemma mux_set_home_cap: "mx_cap (fst (mux_set_home env closed r m)) = mx_cap m"
  by (auto simp: mux_set_home_def Let_def dest!: ensure_region_keeps
      split: prod.splits sum.splits option.splits)

lemma mux_send_cap: "mx_cap (fst (mux_send env closed r dst wg m)) = mx_cap m"
  by (auto simp: mux_send_def Let_def dest!: ensure_region_keeps split: prod.splits sum.splits)

lemma ensure_region_cap: "mx_cap (fst (ensure_region env r h m)) = mx_cap m"
  using ensure_region_keeps [OF surjective_pairing] by blast

lemma mux_step_ok: "mux_step m m' \<Longrightarrow> mux_ok m \<Longrightarrow> mux_ok m' \<and> mx_cap m' = mx_cap m"
proof (induction rule: mux_step.induct)
  case (set_map m mp)
  then show ?case by (simp add: mux_ok_def mux_set_derp_map_def)
next
  case (set_home m env closed r)
  then show ?case by (simp add: mux_set_home_ok mux_set_home_cap)
next
  case (send m env closed r dst wg)
  then show ?case by (simp add: mux_send_ok mux_send_cap)
next
  case (ensure m env r h)
  then show ?case using ensure_region_ok [OF _ surjective_pairing] by (simp add: ensure_region_cap)
next
  case (shutdown m)
  then show ?case by (simp add: mux_ok_def mux_shutdown_def)
next
  case (thread r c m c')
  then have "r \<in> fst ` set (mx_conns m)" by force
  with thread show ?case by (simp add: insert_conn_ok)
qed

lemma make_room_map_of:
  assumes "mux_ok m" and "make_room m = (m', res)" and "map_of (mx_conns m) r = Some c" and "cn_alive c"
  shows "map_of (mx_conns m') r = Some c \<or>
    map_of (mx_conns m') r = None \<and> r \<noteq> mx_home m \<and>
      mx_cap m \<le> length (filter (\<lambda>(_, c). cn_alive c) (mx_conns m)) \<and>
      (\<forall>(r', c') \<in> set (mx_conns m). r' \<noteq> mx_home m \<and> cn_alive c' \<longrightarrow> cn_last_used c \<le> cn_last_used c')"
proof -
  let ?c = "filter (\<lambda>(_, c). cn_alive c) (mx_conns m)"
  have d: "distinct (map fst (mx_conns m))" using assms(1) by (simp add: mux_ok_def)
  then have kept: "map_of ?c r = Some c" using assms(3,4) by (simp add: map_of_filter_keep)
  show ?thesis
  proof (cases "mx_cap m \<le> length ?c \<and> (\<exists>t. evict_target (mx_home m) ?c = Some (r, t))")
    case False
    then show ?thesis
      using assms(2) kept
      by (auto simp: make_room_def Let_def delete_conv' split: if_splits option.splits)
  next
    case True
    then obtain t where ev: "evict_target (mx_home m) ?c = Some (r, t)" by blast
    from evict_target_Some [OF ev] obtain c1 where c1: "r \<noteq> mx_home m" "(r, c1) \<in> set ?c"
      "t = cn_last_used c1" "\<forall>(r', c') \<in> set ?c. r' \<noteq> mx_home m \<longrightarrow> t \<le> cn_last_used c'" by blast
    have "c1 = c"
      using c1(2) kept distinct_filter_keys [OF d] map_of_is_SomeI [of ?c r c1] by auto
    moreover have "map_of (mx_conns m') r = None"
      using assms(2) True ev by (auto simp: make_room_def Let_def delete_conv')
    ultimately show ?thesis using c1 True by auto
  qed
qed

lemma ensure_region_map_of:
  assumes "mux_ok m" and "ensure_region env k h m = (m', res)"
    and "map_of (mx_conns m) r = Some c" and "cn_alive c"
  shows "map_of (mx_conns m') r = Some c \<or>
    map_of (mx_conns m') r = None \<and> r \<noteq> mx_home m \<and>
      mx_cap m \<le> length (filter (\<lambda>(_, c). cn_alive c) (mx_conns m)) \<and>
      (\<forall>(r', c') \<in> set (mx_conns m). r' \<noteq> mx_home m \<and> cn_alive c' \<longrightarrow> cn_last_used c \<le> cn_last_used c')"
proof (cases rule: ensure_region_cases [of k m env h])
  case (full t e)
  then show ?thesis using make_room_map_of [OF assms(1) full(2) assms(3,4)] assms(2) by simp
next
  case (no_dial t e)
  then show ?thesis using make_room_map_of [OF assms(1) no_dial(2) assms(3,4)] assms(2) by simp
next
  case (dialled t nodes d)
  then have "r \<noteq> k" using assms(3,4) by (auto simp: find_alive_def)
  moreover from dialled(5) assms(2) have "m' = insert_conn k d t" by simp
  ultimately have "map_of (mx_conns m') r = map_of (mx_conns t) r" by simp
  then show ?thesis
    using make_room_map_of [OF assms(1) dialled(3) assms(3,4)] by simp
qed (use assms in simp_all)

section \<open>Properties\<close>


definition reachable_env :: dial_env where
  "reachable_env = \<lparr>de_dial = (\<lambda>_. None), de_spawn_err = None, de_now = 0\<rparr>"

definition node0 :: derp_node_addr where
  "node0 = \<lparr>dn_region_id = 1, dn_name = [], dn_hostname = [], dn_ipv4 = [], dn_ipv6 = [], dn_port = 0\<rparr>"

definition live_conn :: "u16 \<Rightarrow> instant \<Rightarrow> bool \<Rightarrow> derp_conn" where
  "live_conn r t h = \<lparr>cn_region = r, cn_tx = (if h then [NotePreferred True] else []),
     cn_last_used = t, cn_is_home = h, cn_shutdown = False, cn_alive = True\<rparr>"


text \<open>
  C15: Making room for a new region never costs the home connection, and costs another
  live connection only when the pool is full of live ones; the one given up is a least
  recently used one among the connections that are not home.
\<close>

theorem ensure_region_evicts_lru:
  assumes "mux_ok m" and "ensure_region env k h m = (m', res)"
    and "map_of (mx_conns m) r = Some c" and "cn_alive c"
  shows "map_of (mx_conns m') r = Some c \<or>
    r \<noteq> mx_home m \<and> mx_cap m \<le> length (filter (\<lambda>(_, c). cn_alive c) (mx_conns m)) \<and>
    (\<forall>(r', c') \<in> set (mx_conns m). r' \<noteq> mx_home m \<and> cn_alive c' \<longrightarrow> cn_last_used c \<le> cn_last_used c')"
  using ensure_region_map_of [OF assms] by blast

theorem ensure_region_evicts_lru_witness:
  "\<exists>m'. ensure_region reachable_env 9 False
      \<lparr>mx_conns = [(1, live_conn 1 3 True), (2, live_conn 2 5 False)],
       mx_derp_map = [(9, [node0])], mx_home = 1, mx_cap = 2\<rparr> = (m', Inr (live_conn 9 0 False)) \<and>
    map_of (mx_conns m') 1 = Some (live_conn 1 3 True)"
proof -
  let ?m = "\<lparr>mx_conns = [(1, live_conn 1 3 True), (2, live_conn 2 5 False)],
       mx_derp_map = [(9, [node0])], mx_home = 1, mx_cap = 2\<rparr>"
  have e: "ensure_region reachable_env 9 False ?m =
      (?m\<lparr>mx_conns := [(1, live_conn 1 3 True), (9, live_conn 9 0 False)]\<rparr>, Inr (live_conn 9 0 False))"
    by (simp add: ensure_region_def find_alive_def make_room_def evict_target_def live_conn_def
        dial_and_spawn_def reachable_env_def spawn_io_def insert_conn_def Let_def)
  have "mux_ok ?m" by (simp add: mux_ok_def)
  from ensure_region_evicts_lru [OF this e, of 1 "live_conn 1 3 True"] e show ?thesis
    by (auto simp: live_conn_def)
qed

text \<open>
  C28: A successful change of the home region records it, leaves a live connection to it in
  the pool, and tells the previous home, when it is still connected, that it no longer is.
  A connection dialled for the purpose starts by announcing itself as home.
\<close>

theorem mux_set_home_effect:
  assumes "mux_set_home env False r m = (m', Inr ())" and "mx_home m \<noteq> r"
  shows "mx_home m' = r \<and>
    (\<exists>c. map_of (mx_conns m') r = Some c \<and> cn_alive c \<and>
       (find_alive r m = None \<longrightarrow> cn_is_home c \<and> cn_tx c = [NotePreferred True])) \<and>
    (\<forall>p. mx_home m \<noteq> 0 \<and> map_of (mx_conns m') (mx_home m) = Some p
       \<longrightarrow> \<not> cn_is_home p \<and> last (cn_tx p) = NotePreferred False)"
proof -
  let ?m = "m\<lparr>mx_home := r\<rparr>"
  obtain m1 res where e: "ensure_region env r True ?m = (m1, res)" by fastforce
  with assms obtain c where c: "res = Inr c"
    by (cases res) (auto simp: mux_set_home_def Let_def)
  have new: "cn_is_home c \<and> cn_tx c = [NotePreferred True]" if "find_alive r m = None"
    using that e c
    by (cases rule: ensure_region_cases [of r ?m env True]) (auto simp: find_alive_def result_iff)
  have "map_of (mx_conns m1) r = Some c \<and> cn_alive c" "mx_home m1 = r"
    using ensure_region_result ensure_region_keeps [OF e] e c by auto
  then show ?thesis
    using assms e c new
    by (auto simp: mux_set_home_def Let_def conn_set_home_def conn_send_def
        split: if_splits option.splits)
qed

theorem mux_set_home_effect_witness:
  "\<exists>m'. mux_set_home reachable_env False 2
      \<lparr>mx_conns = [(1, live_conn 1 3 True)], mx_derp_map = [(2, [node0])], mx_home = 1, mx_cap = 8\<rparr>
      = (m', Inr ()) \<and> mx_home m' = 2 \<and> map_of (mx_conns m') 2 = Some (live_conn 2 0 True) \<and>
    (\<exists>p. map_of (mx_conns m') 1 = Some p \<and> \<not> cn_is_home p \<and> last (cn_tx p) = NotePreferred False)"
proof -
  let ?m = "\<lparr>mx_conns = [(1, live_conn 1 3 True)], mx_derp_map = [(2, [node0])], mx_home = 1, mx_cap = 8\<rparr>"
  let ?p = "(live_conn 1 3 False)\<lparr>cn_tx := [NotePreferred True, NotePreferred False]\<rparr>"
  let ?m' = "?m\<lparr>mx_conns := [(1, ?p), (2, live_conn 2 0 True)], mx_home := 2\<rparr>"
  have s: "mux_set_home reachable_env False 2 ?m = (?m', Inr ())"
    by (simp add: mux_set_home_def ensure_region_def find_alive_def make_room_def live_conn_def
        dial_and_spawn_def reachable_env_def spawn_io_def insert_conn_def conn_set_home_def
        conn_send_def Let_def)
  from mux_set_home_effect [OF s] s show ?thesis by (intro exI [of _ ?m']) simp
qed

text \<open>
  C30: The home announcement is sent only by a fresh dial. When the new home region is
  already connected, changing the home to it reports success without sending that
  connection anything, so the relay never learns that it is preferred.
\<close>

theorem mux_set_home_connected_not_announced:
  assumes "find_alive r m = Some c" and "mx_home m \<noteq> r"
  shows "\<exists>m'. mux_set_home env closed r m = (m', Inr ()) \<and> map_of (mx_conns m') r = Some c"
  using assms
  by (auto simp: mux_set_home_def ensure_region_def find_alive_def Let_def
      split: option.splits if_splits)

theorem mux_set_home_connected_not_announced_witness:
  "\<exists>m'. mux_set_home reachable_env False 2
      \<lparr>mx_conns = [(2, live_conn 2 3 False)], mx_derp_map = [(2, [node0])], mx_home = 0, mx_cap = 8\<rparr>
      = (m', Inr ()) \<and> map_of (mx_conns m') 2 = Some (live_conn 2 3 False) \<and>
    \<not> cn_is_home (live_conn 2 3 False) \<and> cn_tx (live_conn 2 3 False) = []"
  using mux_set_home_connected_not_announced [of 2
      "\<lparr>mx_conns = [(2, live_conn 2 3 False)], mx_derp_map = [(2, [node0])], mx_home = 0, mx_cap = 8\<rparr>"
      "live_conn 2 3 False" reachable_env False]
  by (simp add: find_alive_def live_conn_def)

text \<open>
  The home region is recorded before the dial. When the dial fails, a second attempt
  with the same region reports success at once, without dialling and without a connection.
\<close>

theorem mux_set_home_retry_is_noop:
  assumes "mux_set_home env closed r m = (m1, Inl e)"
  shows "mux_set_home env' closed' r m1 = (m1, Inr ())"
proof -
  have "mx_home m1 = r"
    using assms
    by (auto simp: mux_set_home_def Let_def split: if_splits prod.splits sum.splits option.splits
        dest: ensure_region_keeps)
  then show ?thesis by (cases m1) (simp add: mux_set_home_def)
qed

theorem mux_set_home_retry_is_noop_witness:
  "mux_set_home reachable_env False 5 (mux_new 8) = ((mux_new 8)\<lparr>mx_home := 5\<rparr>, Inl (UnknownRegion 5)) \<and>
   mux_set_home reachable_env False 5 ((mux_new 8)\<lparr>mx_home := 5\<rparr>) = ((mux_new 8)\<lparr>mx_home := 5\<rparr>, Inr ())"
proof -
  have "mux_set_home reachable_env False 5 (mux_new 8) = ((mux_new 8)\<lparr>mx_home := 5\<rparr>, Inl (UnknownRegion 5))"
    by (simp add: mux_set_home_def ensure_region_def find_alive_def mux_new_def)
  with mux_set_home_retry_is_noop [OF this] show ?thesis by blast
qed

section \<open>Choosing the home region\<close>

record home_probe_cache =
  hp_region :: u16
  hp_rtt :: duration
  hp_measured_at :: instant

definition HOME_PROBE_CACHE :: duration where "HOME_PROBE_CACHE = secs 300"

text \<open>
  \<open>mul_duration(d, 0.75)\<close> computes in \<open>f64\<close> and rounds to the nearest nanosecond. Below
  \<open>2 ^ 51\<close> nanoseconds, twenty-six days, the product is exact; a round-trip time is bounded by
  the 1.5 s dial timeout and name resolution.
\<close>

definition mul_duration_switch :: "duration \<Rightarrow> duration" where
  "mul_duration_switch d = (3 * d + 2) div 4"

text \<open>
  \<open>results\<close> are the regions whose first node answered a TCP connect in time, with the
  measured time, in the order the answers came in. \<open>now\<close> is the time of the cache check
  and \<open>now'\<close> that of the measurement.
\<close>

definition pick_home ::
  "instant \<Rightarrow> (u16 \<times> duration) list \<Rightarrow> instant \<Rightarrow> (u16 \<times> derp_node_addr list) list
     \<Rightarrow> home_probe_cache option \<Rightarrow> home_probe_cache option \<times> (derp_error + u16)" where
  "pick_home now results now' derp_map cache =
     (let hit = (case cache of
                   Some c \<Rightarrow> duration_since now (hp_measured_at c) < HOME_PROBE_CACHE \<and>
                             map_of derp_map (hp_region c) \<noteq> None
                 | None \<Rightarrow> False);
          total = length derp_map
      in if hit then (cache, Inr (hp_region (the cache)))
         else if total = 0 then (cache, Inl (NoReachableRegion 0 0))
         else if results = [] then (cache, Inl (NoReachableRegion total total))
         else let (winner, rtt) = sort_key snd results ! 0;
                  measured = Some \<lparr>hp_region = winner, hp_rtt = rtt, hp_measured_at = now'\<rparr>
              in case cache of
                   Some prev \<Rightarrow>
                     if hp_region prev \<noteq> winner \<and> rtt > mul_duration_switch (hp_rtt prev)
                     then (cache, Inr (hp_region prev))
                     else (measured, Inr winner)
                 | None \<Rightarrow> (measured, Inr winner))"

definition probe_invalidate :: "home_probe_cache option \<Rightarrow> home_probe_cache option" where
  "probe_invalidate cache = None"

lemma sort_key_first:
  assumes "xs \<noteq> []"
  shows "sort_key f xs ! 0 \<in> set xs" and "y \<in> set xs \<Longrightarrow> f (sort_key f xs ! 0) \<le> f y"
proof -
  have n: "sort_key f xs \<noteq> []" using assms by (metis length_0_conv length_sort)
  then have "sort_key f xs ! 0 \<in> set (sort_key f xs)" by (intro nth_mem) (simp add: assms)
  then show "sort_key f xs ! 0 \<in> set xs" by simp
  assume "y \<in> set xs"
  then obtain i where "i < length (sort_key f xs)" "sort_key f xs ! i = y"
    by (metis in_set_conv_nth set_sort)
  then show "f (sort_key f xs ! 0) \<le> f y"
    using sorted_nth_mono [OF sorted_sort_key [of f xs], of 0 i] assms by simp
qed

text \<open>
  C27: The home region changes only for a real gain. When a probe picks a region other than
  the cached one, that region answered fastest of all and in at most three quarters of the
  time the cached region took (up to rounding), and it becomes the cached one; in
  every other case the cache and its region are kept.
\<close>

theorem pick_home_switches_for_gain:
  assumes "pick_home now results now' derp_map (Some prev) = (cache', Inr r)"
  shows "r = hp_region prev \<or>
    (\<exists>rtt. (r, rtt) \<in> set results \<and> (\<forall>(_, t) \<in> set results. rtt \<le> t) \<and>
       4 * rtt \<le> 3 * hp_rtt prev + 2 \<and>
       cache' = Some \<lparr>hp_region = r, hp_rtt = rtt, hp_measured_at = now'\<rparr>)"
proof (cases "r = hp_region prev")
  case False
  obtain w t where wt: "sort_key snd results ! 0 = (w, t)" by fastforce
  have "results \<noteq> []" and "r = w" and "\<not> t > mul_duration_switch (hp_rtt prev)"
    and c: "cache' = Some \<lparr>hp_region = w, hp_rtt = t, hp_measured_at = now'\<rparr>"
    using assms wt False by (auto simp: pick_home_def Let_def split: if_splits)
  moreover have "(w, t) \<in> set results" "\<forall>(_, t') \<in> set results. t \<le> t'"
    using sort_key_first [OF \<open>results \<noteq> []\<close>, where f = snd] wt by fastforce+
  ultimately show ?thesis by (auto simp: mul_duration_switch_def)
qed simp

theorem pick_home_switches_for_gain_witness:
  "pick_home (secs 400) [(1, 90), (2, 70)] (secs 402) [(1, [node0]), (2, [node0])]
     (Some \<lparr>hp_region = 1, hp_rtt = 100, hp_measured_at = 0\<rparr>)
   = (Some \<lparr>hp_region = 2, hp_rtt = 70, hp_measured_at = secs 402\<rparr>, Inr 2) \<and> 4 * 70 \<le> 3 * 100 + (2 :: nat)"
proof -
  have "pick_home (secs 400) [(1, 90), (2, 70)] (secs 402) [(1, [node0]), (2, [node0])]
     (Some \<lparr>hp_region = 1, hp_rtt = 100, hp_measured_at = 0\<rparr>)
   = (Some \<lparr>hp_region = 2, hp_rtt = 70, hp_measured_at = secs 402\<rparr>, Inr 2)"
    by (simp add: pick_home_def duration_since_def HOME_PROBE_CACHE_def mul_duration_switch_def)
  with pick_home_switches_for_gain [OF this] show ?thesis by simp
qed

text \<open>
  The cached region survives even when it has left the map: the hysteresis does not ask
  whether the previous region still exists or answered at all.
\<close>

lemma pick_home_may_leave_map:
  "snd (pick_home (secs 400) [(2, 90)] (secs 402) [(2, [node0])]
     (Some \<lparr>hp_region = 1, hp_rtt = 100, hp_measured_at = 0\<rparr>)) = Inr 1"
  by (simp add: pick_home_def duration_since_def HOME_PROBE_CACHE_def mul_duration_switch_def)

end
