(* ===== verification/Net_Addr.thy ===== *)
theory Net_Addr
  imports Prelude "HOL-Library.Product_Lexorder"
begin

text \<open>
  The address types of Rust's \<open>std::net\<close> as the sources use them, and the
  \<open>Ipv4Cidr\<close> of \<open>crates/wg-engine/src/peer.rs\<close>. An IPv4 address is its
  \<open>u32\<close> value, an IPv6 address its \<open>u128\<close> value, both in network order, so the
  derived order of the Rust types is the unsigned order of the words.
\<close>

section \<open>Addresses\<close>

type_synonym ipv4 = "32 word"
type_synonym ipv6 = "128 word"

datatype ip_addr = IpV4 ipv4 | IpV6 ipv6

text \<open>\<open>SocketAddrV6\<close> carries flow information and a scope id beside address and port.\<close>

datatype sock_addr =
    SockV4 (sock_ip4: ipv4) (sock_port4: u16)
  | SockV6 (sock_ip6: ipv6) (sock_port6: u16) (flowinfo: u32) (scope_id: u32)

definition sock_new :: "ip_addr \<Rightarrow> u16 \<Rightarrow> sock_addr" where
  "sock_new ip p = (case ip of IpV4 a \<Rightarrow> SockV4 a p | IpV6 a \<Rightarrow> SockV6 a p 0 0)"

fun sock_ip :: "sock_addr \<Rightarrow> ip_addr" where
  "sock_ip (SockV4 a _) = IpV4 a"
| "sock_ip (SockV6 a _ _ _) = IpV6 a"

fun sock_port :: "sock_addr \<Rightarrow> u16" where
  "sock_port (SockV4 _ p) = p"
| "sock_port (SockV6 _ p _ _) = p"

fun is_ipv4 :: "sock_addr \<Rightarrow> bool" where
  "is_ipv4 (SockV4 _ _) = True"
| "is_ipv4 (SockV6 _ _ _ _) = False"

definition ipv4_new :: "u8 \<Rightarrow> u8 \<Rightarrow> u8 \<Rightarrow> u8 \<Rightarrow> ipv4" where
  "ipv4_new a b c d = u32_from_be_bytes a b c d"

definition ipv4_octets :: "ipv4 \<Rightarrow> bytes" where
  "ipv4_octets a = u32_to_be_bytes a"

text \<open>\<open>Ipv6Addr::new\<close> and \<open>Ipv6Addr::segments\<close>: eight 16-bit segments, high first.\<close>

definition ipv6_new ::
  "u16 \<Rightarrow> u16 \<Rightarrow> u16 \<Rightarrow> u16 \<Rightarrow> u16 \<Rightarrow> u16 \<Rightarrow> u16 \<Rightarrow> u16 \<Rightarrow> ipv6" where
  "ipv6_new a b c d e f g h =
     push_bit 112 (ucast a) OR push_bit 96 (ucast b) OR push_bit 80 (ucast c)
     OR push_bit 64 (ucast d) OR push_bit 48 (ucast e) OR push_bit 32 (ucast f)
     OR push_bit 16 (ucast g) OR ucast h"

definition ipv6_segments :: "ipv6 \<Rightarrow> u16 list" where
  "ipv6_segments w =
     [ucast (drop_bit 112 w), ucast (drop_bit 96 w), ucast (drop_bit 80 w), ucast (drop_bit 64 w),
      ucast (drop_bit 48 w), ucast (drop_bit 32 w), ucast (drop_bit 16 w), ucast w]"

lemma ipv6_segments_new [simp]:
  "ipv6_segments (ipv6_new a b c d e f g h) = [a, b, c, d, e, f, g, h]"
  unfolding ipv6_new_def ipv6_segments_def
  by (auto intro!: bit_word_eqI simp: bit_simps)

lemma ipv6_new_segments:
  "ipv6_new (ucast (drop_bit 112 w)) (ucast (drop_bit 96 w)) (ucast (drop_bit 80 w))
     (ucast (drop_bit 64 w)) (ucast (drop_bit 48 w)) (ucast (drop_bit 32 w))
     (ucast (drop_bit 16 w)) (ucast w) = w"
proof (rule bit_word_eqI)
  fix n assume n: "n < LENGTH(128)"
  then consider "n < 16" | "16 \<le> n" "n < 32" | "32 \<le> n" "n < 48" | "48 \<le> n" "n < 64"
    | "64 \<le> n" "n < 80" | "80 \<le> n" "n < 96" | "96 \<le> n" "n < 112" | "112 \<le> n" "n < 128"
    by fastforce
  then show "bit (ipv6_new (ucast (drop_bit 112 w)) (ucast (drop_bit 96 w))
      (ucast (drop_bit 80 w)) (ucast (drop_bit 64 w)) (ucast (drop_bit 48 w))
      (ucast (drop_bit 32 w)) (ucast (drop_bit 16 w)) (ucast w)) n = bit w n"
    unfolding ipv6_new_def by cases (simp_all add: bit_simps less_diff_conv2)
qed

section \<open>IPv4-mapped IPv6 addresses\<close>

definition to_ipv6_mapped :: "ipv4 \<Rightarrow> ipv6" where
  "to_ipv6_mapped a = push_bit 32 0xFFFF OR ucast a"

definition to_ipv4_mapped :: "ipv6 \<Rightarrow> ipv4 option" where
  "to_ipv4_mapped w = (if drop_bit 32 w = 0xFFFF then Some (ucast w) else None)"

lemma bit_mapped:
  "bit (to_ipv6_mapped a) n \<longleftrightarrow> 32 \<le> n \<and> n < 48 \<or> n < 32 \<and> bit a n"
proof -
  have "(0xFFFF :: ipv6) = mask 16" by (simp add: mask_eq_exp_minus_1)
  then have "to_ipv6_mapped a = push_bit 32 (mask 16) OR ucast a"
    by (simp only: to_ipv6_mapped_def)
  then show ?thesis by (auto simp: bit_simps)
qed

lemma to_ipv4_mapped_iff: "to_ipv4_mapped w = Some a \<longleftrightarrow> w = to_ipv6_mapped a"
proof -
  have m: "(0xFFFF :: ipv6) = mask 16" by (simp add: mask_eq_exp_minus_1)
  have "drop_bit 32 w = mask 16 \<longleftrightarrow> (\<forall>n. n < 128 \<longrightarrow> 32 \<le> n \<longrightarrow> bit w n = (n < 48))"
  proof
    assume *: "drop_bit 32 w = mask 16"
    show "\<forall>n. n < 128 \<longrightarrow> 32 \<le> n \<longrightarrow> bit w n = (n < 48)"
    proof (intro allI impI)
      fix n :: nat assume "n < 128" "32 \<le> n"
      then have "bit w n = bit (drop_bit 32 w) (n - 32)" by (simp add: bit_simps)
      then show "bit w n = (n < 48)"
        using \<open>n < 128\<close> \<open>32 \<le> n\<close> by (simp only: *) (auto simp: bit_simps)
    qed
  next
    assume *: "\<forall>n. n < 128 \<longrightarrow> 32 \<le> n \<longrightarrow> bit w n = (n < 48)"
    show "drop_bit 32 w = mask 16"
    proof (rule bit_word_eqI)
      fix n assume "n < LENGTH(128)"
      then show "bit (drop_bit 32 w) n = bit (mask 16 :: ipv6) n"
        using * [rule_format, of "32 + n"] bit_imp_le_length [of w "32 + n"]
        by (auto simp: bit_simps)
    qed
  qed
  moreover have "w = to_ipv6_mapped a \<longleftrightarrow>
      (\<forall>n. n < 128 \<longrightarrow> 32 \<le> n \<longrightarrow> bit w n = (n < 48)) \<and> ucast w = a"
    by (auto simp: bit_eq_iff bit_mapped bit_simps) (metis leI)+
  ultimately show ?thesis
    by (simp only: to_ipv4_mapped_def m) auto
qed

lemma to_ipv4_mapped_mapped [simp]: "to_ipv4_mapped (to_ipv6_mapped a) = Some a"
  by (simp add: to_ipv4_mapped_iff)

section \<open>The order of socket addresses\<close>

text \<open>
  \<open>Ord for SocketAddr\<close> puts every IPv4 address before every IPv6 address and compares
  address, port, flow information and scope in that order.
\<close>

fun sock_key :: "sock_addr \<Rightarrow> nat \<times> nat \<times> nat \<times> nat \<times> nat" where
  "sock_key (SockV4 a p) = (0, unat a, unat p, 0, 0)"
| "sock_key (SockV6 a p f s) = (1, unat a, unat p, unat f, unat s)"

lemma sock_key_inj [simp]: "sock_key a = sock_key b \<longleftrightarrow> a = b"
  by (cases a; cases b) (auto simp: word_unat_eq_iff)

instantiation sock_addr :: linorder
begin

definition less_eq_sock_addr :: "sock_addr \<Rightarrow> sock_addr \<Rightarrow> bool" where
  "less_eq_sock_addr a b \<longleftrightarrow> sock_key a \<le> sock_key b"

definition less_sock_addr :: "sock_addr \<Rightarrow> sock_addr \<Rightarrow> bool" where
  "less_sock_addr a b \<longleftrightarrow> sock_key a < sock_key b"

instance
proof
  fix a b c :: sock_addr
  show "a < b \<longleftrightarrow> a \<le> b \<and> \<not> b \<le> a"
    unfolding less_eq_sock_addr_def less_sock_addr_def by (rule less_le_not_le)
  show "a \<le> a" by (simp add: less_eq_sock_addr_def)
  show "a \<le> b \<Longrightarrow> b \<le> c \<Longrightarrow> a \<le> c"
    unfolding less_eq_sock_addr_def by (rule order_trans)
  show "a \<le> b \<Longrightarrow> b \<le> a \<Longrightarrow> a = b"
    unfolding less_eq_sock_addr_def using order_antisym sock_key_inj by blast
  show "a \<le> b \<or> b \<le> a"
    by (auto simp: less_eq_sock_addr_def)
qed

end

section \<open>CIDR ranges\<close>

text \<open>\<open>Ipv4Cidr\<close>: an address and a prefix length.\<close>

record ipv4_cidr =
  addr :: ipv4
  prefix :: u8

text \<open>
  \<open>Ipv4Cidr::contains\<close>. The shift amount \<open>32 - prefix\<close> is a \<open>u8\<close> subtraction;
  \<open>Ipv4Cidr::parse\<close> refuses prefixes over 32, and \<open>cidr_ok\<close> says so.
\<close>

definition cidr_mask :: "u8 \<Rightarrow> u32" where
  "cidr_mask p = (if p = 0 then 0 else push_bit (unat (32 - p)) (NOT 0))"

definition contains :: "ipv4_cidr \<Rightarrow> ipv4 \<Rightarrow> bool" where
  "contains c ip =
     (let mask = cidr_mask (prefix c); net = addr c AND mask in (ip AND mask) = net)"

definition cidr_ok :: "ipv4_cidr \<Rightarrow> bool" where
  "cidr_ok c \<longleftrightarrow> prefix c \<le> 32"

lemma unat_32_minus: "p \<le> (32 :: u8) \<Longrightarrow> unat (32 - p) = 32 - unat p"
  using unat_sub [of p 32] by simp

text \<open>A range contains exactly the addresses that agree with it on the prefix bits.\<close>

lemma bit_cidr_mask:
  assumes "p \<le> 32"
  shows "bit (cidr_mask p) n \<longleftrightarrow> n < 32 \<and> 32 - unat p \<le> n"
proof (cases "p = 0")
  case True
  then show ?thesis by (simp add: cidr_mask_def)
next
  case False
  then have "cidr_mask p = push_bit (32 - unat p) (NOT 0)"
    by (simp only: cidr_mask_def unat_32_minus [OF assms] if_False)
  then show ?thesis by (auto simp: bit_simps)
qed

lemma contains_iff_prefix:
  assumes "cidr_ok c"
  shows "contains c ip \<longleftrightarrow>
    (\<forall>n < 32. 32 - unat (prefix c) \<le> n \<longrightarrow> bit ip n = bit (addr c) n)"
proof -
  have "contains c ip \<longleftrightarrow> (\<forall>n < 32. bit (ip AND cidr_mask (prefix c)) n
      = bit (addr c AND cidr_mask (prefix c)) n)"
    unfolding contains_def Let_def by (auto simp: bit_eq_iff)
  also have "\<dots> \<longleftrightarrow> (\<forall>n < 32. 32 - unat (prefix c) \<le> n \<longrightarrow> bit ip n = bit (addr c) n)"
    using assms by (auto simp: bit_and_iff bit_cidr_mask cidr_ok_def)
  finally show ?thesis .
qed

lemma contains_self: "contains c (addr c)"
  by (simp add: contains_def)

lemma contains_32_iff: "prefix c = 32 \<Longrightarrow> contains c ip \<longleftrightarrow> ip = addr c"
  by (auto simp: contains_def cidr_mask_def)

lemma contains_0: "prefix c = 0 \<Longrightarrow> contains c ip"
  by (simp add: contains_def cidr_mask_def)

text \<open>Two ranges that share an address are nested, the longer prefix inside.\<close>

lemma contains_nested:
  assumes "cidr_ok c" and "cidr_ok d" and "prefix c \<le> prefix d"
    and "contains c ip" and "contains d ip" and "contains d ip'"
  shows "contains c ip'"
proof -
  have "unat (prefix c) \<le> unat (prefix d)"
    using assms(3) by (simp add: word_le_nat_alt)
  then show ?thesis
    using assms by (auto simp: contains_iff_prefix)
qed

end
