(* ===== verification/Wg_Icmp.thy ===== *)
theory Wg_Icmp
  imports Net_Addr
begin

text \<open>
  The ICMP echo packets of \<open>crates/wg-engine/src/icmp.rs\<close>: building a request, parsing a
  reply, and the internet checksum with its 32-bit accumulator.
\<close>

section \<open>Checksum\<close>

text \<open>The accumulator is a \<open>u32\<close>; below 65538 bytes of data it cannot overflow.\<close>

fun checksum_sum :: "bytes \<Rightarrow> u32 \<Rightarrow> u32" where
  "checksum_sum [] s = s"
| "checksum_sum [a] s = s + ucast (u16_from_be_bytes a 0)"
| "checksum_sum (a # b # rest) s = checksum_sum rest (s + ucast (u16_from_be_bytes a b))"

lemma unat_drop_bit16: "unat (drop_bit 16 (s :: u32)) = unat s div 65536"
proof -
  have "unat s < 2 ^ 32" using unsigned_less [of s, where ?'a = nat] by simp
  then have "take_bit 32 (unat s) = unat s" by (simp only: take_bit_nat_eq_self_iff)
  then have "unat (drop_bit 16 s) = drop_bit 16 (unat s)"
    using unsigned_drop_bit_eq [of 16 s, where ?'a = nat] by simp
  then show ?thesis by (simp add: drop_bit_eq_div)
qed

lemma fold_carry_less:
  assumes "drop_bit 16 (s :: u32) \<noteq> 0"
  shows "unat ((s AND 0xFFFF) + drop_bit 16 s) = unat s mod 65536 + unat s div 65536"
    and "unat ((s AND 0xFFFF) + drop_bit 16 s) < unat s"
proof -
  have m: "s AND 0xFFFF = take_bit 16 s"
    using take_bit_eq_mask [of 16 s] by (simp add: mask_eq_exp_minus_1)
  have a: "unat (s AND 0xFFFF) = unat s mod 65536"
    by (simp only: m unsigned_take_bit_eq) (simp add: take_bit_eq_mod)
  have b: "unat (drop_bit 16 s) = unat s div 65536"
    by (rule unat_drop_bit16)
  have lt: "unat s < 2 ^ 32" using unsigned_less [of s, where ?'a = nat] by simp
  then have "unat (s AND 0xFFFF) + unat (drop_bit 16 s) < 2 ^ 32"
    unfolding a b by (auto simp: algebra_simps)
  then have sum: "unat ((s AND 0xFFFF) + drop_bit 16 s) = unat s mod 65536 + unat s div 65536"
    using a b unat_add_lem [of "s AND 0xFFFF" "drop_bit 16 s"] by simp
  then show "unat ((s AND 0xFFFF) + drop_bit 16 s) = unat s mod 65536 + unat s div 65536" .
  have "unat s div 65536 \<noteq> 0"
    using assms b by (metis unat_eq_zero)
  moreover have "unat s = unat s mod 65536 + 65536 * (unat s div 65536)" by simp
  ultimately have "unat s mod 65536 + unat s div 65536 < unat s" by linarith
  with sum show "unat ((s AND 0xFFFF) + drop_bit 16 s) < unat s" by simp
qed

function fold_carries :: "u32 \<Rightarrow> u32" where
  "fold_carries s = (if drop_bit 16 s \<noteq> 0 then fold_carries ((s AND 0xFFFF) + drop_bit 16 s) else s)"
  by auto
termination by (relation "measure unat") (simp_all add: fold_carry_less(2))

declare fold_carries.simps [simp del]

definition internet_checksum :: "bytes \<Rightarrow> u16" where
  "internet_checksum data = NOT (ucast (fold_carries (checksum_sum data 0)))"

section \<open>Packets\<close>

definition IPV4_HEADER_LEN :: nat where "IPV4_HEADER_LEN = 20"
definition ICMP_HEADER_LEN :: nat where "ICMP_HEADER_LEN = 8"

text \<open>\<open>buf[n..n + 2].copy_from_slice(&w.to_be_bytes())\<close>\<close>

definition put_u16 :: "nat \<Rightarrow> u16 \<Rightarrow> bytes \<Rightarrow> bytes" where
  "put_u16 n w buf = take n buf @ u16_to_be_bytes w @ drop (n + 2) buf"

definition ip_header :: "ipv4 \<Rightarrow> ipv4 \<Rightarrow> nat \<Rightarrow> bytes" where
  "ip_header src dst total_len =
     [push_bit 4 4 OR 5, 0] @ u16_to_be_bytes (word_of_nat total_len) @ u16_to_be_bytes 0
       @ u16_to_be_bytes 0x4000 @ [64, 1, 0, 0] @ ipv4_octets src @ ipv4_octets dst"

definition icmp_message :: "u8 \<Rightarrow> u16 \<Rightarrow> u16 \<Rightarrow> bytes \<Rightarrow> bytes" where
  "icmp_message ty ident seq payload =
     [ty, 0, 0, 0] @ u16_to_be_bytes ident @ u16_to_be_bytes seq @ payload"

text \<open>A request has type 8; type 0 is the reply the other side builds in the same layout.\<close>

definition icmp_echo :: "u8 \<Rightarrow> ipv4 \<Rightarrow> ipv4 \<Rightarrow> u16 \<Rightarrow> u16 \<Rightarrow> bytes \<Rightarrow> bytes" where
  "icmp_echo ty src dst ident seq payload =
     (let total_len = IPV4_HEADER_LEN + ICMP_HEADER_LEN + length payload;
          hdr = ip_header src dst total_len;
          icmp = icmp_message ty ident seq payload
      in put_u16 10 (internet_checksum hdr) hdr @ put_u16 2 (internet_checksum icmp) icmp)"

definition build_icmp_echo_request :: "ipv4 \<Rightarrow> ipv4 \<Rightarrow> u16 \<Rightarrow> u16 \<Rightarrow> bytes \<Rightarrow> bytes" where
  "build_icmp_echo_request src dst ident seq payload = icmp_echo 8 src dst ident seq payload"

record echo_reply =
  er_src :: ipv4
  er_dst :: ipv4
  er_ident :: u16
  er_seq :: u16
  er_payload :: bytes

definition parse_icmp_echo_reply :: "bytes \<Rightarrow> echo_reply option" where
  "parse_icmp_echo_reply pkt =
     (if length pkt < IPV4_HEADER_LEN + ICMP_HEADER_LEN then None
      else if drop_bit 4 (pkt ! 0) \<noteq> 4 then None
      else let ihl = unat (pkt ! 0 AND 0x0F) * 4 in
        if ihl < IPV4_HEADER_LEN \<or> length pkt < ihl + ICMP_HEADER_LEN then None
        else if pkt ! 9 \<noteq> 1 then None
        else let icmp = drop ihl pkt in
          if icmp ! 0 \<noteq> 0 \<or> icmp ! 1 \<noteq> 0 then None
          else Some \<lparr>er_src = ipv4_new (pkt ! 12) (pkt ! 13) (pkt ! 14) (pkt ! 15),
                     er_dst = ipv4_new (pkt ! 16) (pkt ! 17) (pkt ! 18) (pkt ! 19),
                     er_ident = u16_from_be_bytes (icmp ! 4) (icmp ! 5),
                     er_seq = u16_from_be_bytes (icmp ! 6) (icmp ! 7),
                     er_payload = drop ICMP_HEADER_LEN icmp\<rparr>)"

section \<open>The carries\<close>

lemma carry_mod: "(x mod 65536 + x div 65536) mod 65535 = x mod (65535 :: nat)"
proof -
  let ?r = "x mod 65536" and ?q = "x div 65536"
  have "x = (?r + ?q) + ?q * 65535" using mod_mult_div_eq [of x 65536] by linarith
  then show ?thesis by (metis mod_mult_self1)
qed

lemma fold_carries_props:
  "unat (fold_carries s) < 65536 \<and> unat (fold_carries s) mod 65535 = unat s mod 65535 \<and>
   (fold_carries s = 0 \<longleftrightarrow> s = 0)"
proof (induction s rule: fold_carries.induct)
  case (1 s)
  show ?case
  proof (cases "drop_bit 16 s = 0")
    case True
    then have "unat s div 65536 = 0"
      using unat_drop_bit16 [of s] by simp
    then show ?thesis using True by (subst fold_carries.simps) (auto simp: fold_carries.simps)
  next
    case False
    let ?t = "(s AND 0xFFFF) + drop_bit 16 s"
    have t: "unat ?t = unat s mod 65536 + unat s div 65536" by (rule fold_carry_less(1) [OF False])
    have "unat ?t mod 65535 = unat s mod 65535" unfolding t by (rule carry_mod)
    moreover have "?t \<noteq> 0 \<and> s \<noteq> 0"
    proof -
      have "unat (drop_bit 16 s) \<noteq> 0" using False unat_eq_zero by blast
      then have "unat s div 65536 \<noteq> 0" by (simp add: unat_drop_bit16)
      then have "unat ?t \<noteq> 0" "unat s \<noteq> 0" using t by auto
      then show ?thesis by auto
    qed
    ultimately show ?thesis
      using 1 [OF False] by (subst (1 2 3) fold_carries.simps) (simp add: False)
  qed
qed

text \<open>The sum of the words, in the natural numbers.\<close>

fun word_total :: "bytes \<Rightarrow> nat" where
  "word_total [] = 0"
| "word_total [a] = unat (u16_from_be_bytes a 0)"
| "word_total (a # b # rest) = unat (u16_from_be_bytes a b) + word_total rest"

lemma unat_ucast_u16 [simp]: "unat (ucast (w :: u16) :: u32) = unat w"
  by (simp add: unsigned_ucast_eq take_bit_nat_eq_self_iff less_trans [OF u16_unat_lt])

lemma word_total_bound: "word_total data \<le> 65535 * ((length data + 1) div 2)"
proof (induction data rule: word_total.induct)
  case (2 a)
  then show ?case using u16_unat_lt [of "u16_from_be_bytes a 0"] by simp
next
  case (3 a b rest)
  then show ?case using u16_unat_lt [of "u16_from_be_bytes a b"] by simp
qed simp

lemma checksum_sum_total:
  assumes "unat s + word_total data < 2 ^ 32"
  shows "unat (checksum_sum data s) = unat s + word_total data"
  using assms
proof (induction data s rule: checksum_sum.induct)
  case (2 a s)
  then show ?case using unat_add_lem [of s "ucast (u16_from_be_bytes a 0)"] by simp
next
  case (3 a b rest s)
  have "unat (s + ucast (u16_from_be_bytes a b)) = unat s + unat (u16_from_be_bytes a b)"
    using 3 unat_add_lem [of s "ucast (u16_from_be_bytes a b)"] by simp
  then show ?case using 3 by simp
qed simp

lemma word_total_append:
  "even (length xs) \<Longrightarrow> word_total (xs @ ys) = word_total xs + word_total ys"
  by (induction xs rule: word_total.induct) auto

lemma word_total_u16: "word_total (u16_to_be_bytes w @ ys) = unat w + word_total ys"
  by (simp add: u16_to_be_bytes_def)

lemma u16_to_be_bytes_zero: "u16_to_be_bytes 0 = [0, 0]"
  by (simp add: u16_to_be_bytes_def)

lemma unat_not_u16: "unat (NOT (w :: u16)) = 65535 - unat w"
proof -
  have "NOT w = - 1 - w" by (simp add: not_eq_complement)
  moreover have "unat (- 1 - w) = unat (- 1 :: u16) - unat w" by (rule unat_sub) simp
  ultimately show ?thesis by (simp add: unsigned_minus_1_eq_mask mask_eq_exp_minus_1)
qed

lemma unat_checksum:
  assumes "length data < 131072"
  shows "unat (internet_checksum data) = 65535 - unat (fold_carries (checksum_sum data 0))"
    and "unat (checksum_sum data 0) = word_total data"
proof -
  have "unat (ucast (fold_carries s) :: u16) = unat (fold_carries s)" for s
    using fold_carries_props [of s] by (simp add: unsigned_ucast_eq take_bit_nat_eq_self_iff)
  then show "unat (internet_checksum data) = 65535 - unat (fold_carries (checksum_sum data 0))"
    by (simp add: internet_checksum_def unat_not_u16)
  have "word_total data < 2 ^ 32"
    using word_total_bound [of data] assms by simp
  then show "unat (checksum_sum data 0) = word_total data"
    using checksum_sum_total [of 0 data] by simp
qed

text \<open>
  Writing the checksum over two zero bytes at an even offset makes the data verify: the
  checksum of the result is zero, the receiver's test.
\<close>

lemma checksum_put:
  assumes "even n" and "n + 2 \<le> length data" and "length data < 131072"
    and "data ! n = 0" and "data ! (n + 1) = 0"
  shows "internet_checksum (put_u16 n (internet_checksum data) data) = 0"
proof -
  let ?c = "internet_checksum data"
  let ?d = "put_u16 n ?c data"
  have split: "data = take n data @ u16_to_be_bytes 0 @ drop (n + 2) data"
  proof -
    have "drop n data = data ! n # data ! (n + 1) # drop (n + 2) data"
      using assms(2) by (simp add: Cons_nth_drop_Suc)
    then show ?thesis using assms(4,5) by (metis append_take_drop_id u16_to_be_bytes_zero append_Cons append_Nil)
  qed
  have len: "length ?d = length data" using assms(2) by (simp add: put_u16_def)
  have even: "even (length (take n data))" using assms(1,2) by simp
  have total: "word_total ?d = word_total data + unat ?c"
    by (subst (2) split) (simp add: put_u16_def word_total_append [OF even] word_total_u16)
  let ?f = "unat (fold_carries (checksum_sum data 0))"
  have f: "?f < 65536" "?f mod 65535 = word_total data mod 65535"
    using fold_carries_props [of "checksum_sum data 0"] unat_checksum(2) [OF assms(3)] by simp_all
  have "unat ?c = 65535 - ?f" by (rule unat_checksum(1) [OF assms(3)])
  have "(word_total data + (65535 - ?f)) mod 65535 = 0"
  proof -
    have "(word_total data + (65535 - ?f)) mod 65535 = (?f + (65535 - ?f)) mod 65535"
      using f(2) by (metis mod_add_left_eq)
    then show ?thesis using f(1) by simp
  qed
  then have z: "word_total ?d mod 65535 = 0" using total \<open>unat ?c = _\<close> by simp
  have pos: "word_total ?d \<noteq> 0"
  proof
    assume "word_total ?d = 0"
    then have "word_total data = 0" "unat ?c = 0" using total by simp_all
    then have "checksum_sum data 0 = 0" using unat_checksum(2) [OF assms(3)] by (simp add: unat_eq_zero)
    then have "?f = 0" using fold_carries_props [of "checksum_sum data 0"] by simp
    then show False using \<open>unat ?c = 0\<close> \<open>unat ?c = 65535 - ?f\<close> by simp
  qed
  have d: "length ?d < 131072" using len assms(3) by simp
  let ?g = "unat (fold_carries (checksum_sum ?d 0))"
  have "?g mod 65535 = 0" and g: "?g < 65536"
    using fold_carries_props [of "checksum_sum ?d 0"] unat_checksum(2) [OF d] z by simp_all
  then obtain k where k: "?g = 65535 * k" by (metis dvdE mod_0_imp_dvd)
  have "checksum_sum ?d 0 \<noteq> 0" using unat_checksum(2) [OF d] pos by auto
  then have "?g \<noteq> 0" using fold_carries_props [of "checksum_sum ?d 0"] unat_eq_zero by blast
  with g k have "k = 1" by linarith
  with k have "?g = 65535" by simp
  then show ?thesis using unat_checksum(1) [OF d] by (simp add: unat_eq_zero)
qed

lemma length_ip_header [simp]: "length (ip_header src dst n) = 20"
  by (simp add: ip_header_def ipv4_octets_def)

lemma length_icmp_message [simp]: "length (icmp_message ty ident seq p) = 8 + length p"
  by (simp add: icmp_message_def)

section \<open>Properties\<close>

text \<open>
  C31: A built request carries two checksums that verify, and the reply with the same fields
  parses back to the addresses, identifier, sequence number and payload it was built
  from, while a request is never taken for a reply.
\<close>

theorem icmp_echo_roundtrip:
  assumes "length payload < 65536"
  shows "parse_icmp_echo_reply (icmp_echo 0 src dst ident seq payload) =
      Some \<lparr>er_src = src, er_dst = dst, er_ident = ident, er_seq = seq, er_payload = payload\<rparr> \<and>
    parse_icmp_echo_reply (build_icmp_echo_request src dst ident seq payload) = None \<and>
    internet_checksum (take 20 (build_icmp_echo_request src dst ident seq payload)) = 0 \<and>
    internet_checksum (drop 20 (build_icmp_echo_request src dst ident seq payload)) = 0"
proof -
  have hdr: "internet_checksum (put_u16 10 (internet_checksum (ip_header src dst n)) (ip_header src dst n)) = 0" for n
    by (rule checksum_put) (simp_all add: ip_header_def u16_to_be_bytes_def ipv4_octets_def)
  have icmp: "internet_checksum (put_u16 2 (internet_checksum (icmp_message 8 ident seq payload))
      (icmp_message 8 ident seq payload)) = 0"
    using assms by (intro checksum_put) (simp_all add: icmp_message_def)
  have len: "length (put_u16 10 w (ip_header src dst n)) = 20" for w n by (simp add: put_u16_def)
  have parse: "parse_icmp_echo_reply (icmp_echo ty src dst ident seq payload) =
      (if ty = 0 then Some \<lparr>er_src = src, er_dst = dst, er_ident = ident, er_seq = seq, er_payload = payload\<rparr>
       else None)" for ty
    by (simp add: parse_icmp_echo_reply_def icmp_echo_def put_u16_def ip_header_def icmp_message_def
        u16_to_be_bytes_def ipv4_octets_def ipv4_new_def u32_to_be_bytes_def IPV4_HEADER_LEN_def ICMP_HEADER_LEN_def Let_def)
  show ?thesis
    using hdr icmp len by (simp add: parse build_icmp_echo_request_def) (simp add: icmp_echo_def Let_def)
qed

theorem icmp_echo_roundtrip_witness:
  "parse_icmp_echo_reply (icmp_echo 0 1 2 3 4 [5]) =
     Some \<lparr>er_src = 1, er_dst = 2, er_ident = 3, er_seq = 4, er_payload = [5]\<rparr> \<and>
   internet_checksum (take 20 (build_icmp_echo_request 1 2 3 4 [5])) = 0"
  using icmp_echo_roundtrip [of "[5]" 1 2 3 4] by simp

end
