(* ===== verification/Disco.thy ===== *)
theory Disco
  imports Net_Addr
begin

text \<open>
  The Disco wire protocol of \<open>crates/ts-disco\<close>: message types, the packet header, the
  endpoint encoding, the Ping, Pong and CallMeMaybe bodies, and packets with their
  in-place encryption. The structs are \<open>repr(C, packed)\<close> views of a byte slice
  (\<open>zerocopy\<close>), so a struct is modelled by a record together with the layout
  functions between the record and its bytes; a cast of a slice fails with
  \<open>TooShort\<close> exactly when the length does not fit the layout.
\<close>

section \<open>Errors and message types\<close>

datatype disco_error =
  CryptoFailed | WrongMagic | UnknownVersion | TooShort | Alignment | Validity

datatype message_type =
    MtPing | MtPong | MtCallMeMaybe
  | MtBindUdpRelayEndpoint | MtBindUdpRelayEndpointChallenge | MtBindUdpRelayEndpointAnswer
  | MtCallMeMaybeVia
  | MtAllocateUdpRelayEndpointsRequest | MtAllocateUdpRelayEndpointsResponse

fun message_type_byte :: "message_type \<Rightarrow> u8" where
  "message_type_byte MtPing = 0x1"
| "message_type_byte MtPong = 0x2"
| "message_type_byte MtCallMeMaybe = 0x3"
| "message_type_byte MtBindUdpRelayEndpoint = 0x4"
| "message_type_byte MtBindUdpRelayEndpointChallenge = 0x5"
| "message_type_byte MtBindUdpRelayEndpointAnswer = 0x6"
| "message_type_byte MtCallMeMaybeVia = 0x7"
| "message_type_byte MtAllocateUdpRelayEndpointsRequest = 0x8"
| "message_type_byte MtAllocateUdpRelayEndpointsResponse = 0x9"

text \<open>\<open>TryFrom<u8> for MessageType\<close>: the derived \<open>from_u8\<close>.\<close>

definition message_type_try_from :: "u8 \<Rightarrow> message_type option" where
  "message_type_try_from b =
     (if b = 0x1 then Some MtPing
      else if b = 0x2 then Some MtPong
      else if b = 0x3 then Some MtCallMeMaybe
      else if b = 0x4 then Some MtBindUdpRelayEndpoint
      else if b = 0x5 then Some MtBindUdpRelayEndpointChallenge
      else if b = 0x6 then Some MtBindUdpRelayEndpointAnswer
      else if b = 0x7 then Some MtCallMeMaybeVia
      else if b = 0x8 then Some MtAllocateUdpRelayEndpointsRequest
      else if b = 0x9 then Some MtAllocateUdpRelayEndpointsResponse
      else None)"

lemma message_type_try_from_byte [simp]:
  "message_type_try_from (message_type_byte t) = Some t"
  by (cases t) (simp_all add: message_type_try_from_def)

lemma message_type_try_from_Some:
  "message_type_try_from b = Some t \<longleftrightarrow> b = message_type_byte t"
  by (auto simp: message_type_try_from_def split: if_splits)
    (cases t; simp)+

section \<open>Header\<close>

definition disco_magic :: bytes where
  "disco_magic = [0x54, 0x53, 0xf0, 0x9f, 0x92, 0xac]"

definition nonce_len :: nat where "nonce_len = 24"

record disco_header =
  magic :: bytes
  sender_pub :: key32
  nonce :: bytes

definition header_size :: nat where "header_size = 62"

definition wf_header :: "disco_header \<Rightarrow> bool" where
  "wf_header h \<longleftrightarrow> length (magic h) = 6 \<and> length (sender_pub h) = 32 \<and> length (nonce h) = nonce_len"

definition header_new :: "key32 \<Rightarrow> bytes \<Rightarrow> disco_header" where
  "header_new k n = \<lparr>magic = disco_magic, sender_pub = k, nonce = n\<rparr>"

definition header_bytes :: "disco_header \<Rightarrow> bytes" where
  "header_bytes h = magic h @ sender_pub h @ nonce h"

text \<open>The cast of the first 62 bytes.\<close>

definition header_cast :: "bytes \<Rightarrow> disco_header" where
  "header_cast b = \<lparr>magic = take 6 b, sender_pub = byte_range 6 38 b, nonce = byte_range 38 62 b\<rparr>"

definition header_is_valid :: "disco_header \<Rightarrow> bool" where
  "header_is_valid h \<longleftrightarrow> magic h = disco_magic"

definition header_validate :: "disco_header \<Rightarrow> disco_error + unit" where
  "header_validate h = (if \<not> header_is_valid h then Inl WrongMagic else Inr ())"

definition header_from_bytes :: "bytes \<Rightarrow> disco_error + (disco_header \<times> bytes)" where
  "header_from_bytes buf =
     (if length buf < header_size then Inl TooShort
      else let slf = header_cast buf; rest = drop header_size buf in
        and_then (header_validate slf) (\<lambda>_. Inr (slf, rest)))"

text \<open>\<open>is_disco_message\<close>: the demultiplexer's test.\<close>

definition is_disco_message :: "bytes \<Rightarrow> bool" where
  "is_disco_message buf = (case header_from_bytes buf of Inl _ \<Rightarrow> False | Inr _ \<Rightarrow> True)"

lemma header_cast_bytes [simp]:
  assumes "wf_header h"
  shows "header_cast (header_bytes h @ rest) = h"
proof -
  have "length (magic h) = 6" "length (sender_pub h) = 32" "length (nonce h) = 24"
    using assms by (auto simp: wf_header_def nonce_len_def)
  then show ?thesis
    by (cases h) (simp add: header_cast_def header_bytes_def byte_range_def)
qed

lemma header_bytes_cast [simp]:
  assumes "header_size \<le> length b"
  shows "header_bytes (header_cast b) @ drop header_size b = b"
proof -
  have *: "header_bytes (header_cast b) = take 62 b"
  proof -
    have "take 62 b = take 6 b @ take 56 (drop 6 b)"
      using take_add [of 6 56 b] by simp
    also have "take 56 (drop 6 b) = take 32 (drop 6 b) @ take 24 (drop 38 b)"
      using take_add [of 32 24 "drop 6 b"] by simp
    finally show ?thesis by (simp add: header_bytes_def header_cast_def byte_range_def)
  qed
  show ?thesis by (simp add: * header_size_def)
qed

lemma length_header_bytes [simp]: "wf_header h \<Longrightarrow> length (header_bytes h) = header_size"
  by (simp add: wf_header_def header_bytes_def header_size_def nonce_len_def)

lemma wf_header_new [simp]:
  "length k = 32 \<Longrightarrow> length n = nonce_len \<Longrightarrow> wf_header (header_new k n)"
  by (simp add: wf_header_def header_new_def disco_magic_def)

lemma wf_header_cast [simp]: "header_size \<le> length b \<Longrightarrow> wf_header (header_cast b)"
  by (simp add: wf_header_def header_cast_def header_size_def nonce_len_def)

lemma header_from_bytes_ok_iff [result_iff]:
  "header_from_bytes buf = Inr (h, rest) \<longleftrightarrow>
     wf_header h \<and> magic h = disco_magic \<and> buf = header_bytes h @ rest"
proof
  assume "header_from_bytes buf = Inr (h, rest)"
  then have len: "header_size \<le> length buf" and h: "h = header_cast buf"
    and "magic h = disco_magic" and r: "rest = drop header_size buf"
    by (auto simp: header_from_bytes_def header_validate_def header_is_valid_def Let_def
        and_then_def split: if_splits)
  then show "wf_header h \<and> magic h = disco_magic \<and> buf = header_bytes h @ rest"
    by simp
next
  assume "wf_header h \<and> magic h = disco_magic \<and> buf = header_bytes h @ rest"
  then show "header_from_bytes buf = Inr (h, rest)"
    by (simp add: header_from_bytes_def header_validate_def header_is_valid_def)
qed

lemma is_disco_message_iff:
  "is_disco_message buf \<longleftrightarrow> header_size \<le> length buf \<and> take 6 buf = disco_magic"
  by (auto simp: is_disco_message_def header_from_bytes_def header_validate_def Let_def
      header_is_valid_def header_cast_def)

section \<open>Endpoints\<close>

text \<open>\<open>Endpoint\<close>: eight big-endian address segments and a big-endian port.\<close>

record endpoint =
  ep_addr :: "u16 list"
  ep_port :: u16

definition endpoint_size :: nat where "endpoint_size = 18"

definition wf_endpoint :: "endpoint \<Rightarrow> bool" where
  "wf_endpoint e \<longleftrightarrow> length (ep_addr e) = 8"

definition addr_v6 :: "endpoint \<Rightarrow> ipv6" where
  "addr_v6 e = ipv6_new (ep_addr e ! 0) (ep_addr e ! 1) (ep_addr e ! 2) (ep_addr e ! 3)
     (ep_addr e ! 4) (ep_addr e ! 5) (ep_addr e ! 6) (ep_addr e ! 7)"

definition endpoint_addr :: "endpoint \<Rightarrow> ip_addr" where
  "endpoint_addr e =
     (let a = addr_v6 e in
      case to_ipv4_mapped a of Some v4 \<Rightarrow> IpV4 v4 | None \<Rightarrow> IpV6 a)"

definition socket_addr_v6 :: "endpoint \<Rightarrow> sock_addr" where
  "socket_addr_v6 e = SockV6 (addr_v6 e) (ep_port e) 0 0"

definition socket_addr :: "endpoint \<Rightarrow> sock_addr" where
  "socket_addr e = sock_new (endpoint_addr e) (ep_port e)"

definition from_v6_segments :: "u16 list \<Rightarrow> u16 \<Rightarrow> endpoint" where
  "from_v6_segments s p =
     \<lparr>ep_addr = [s ! 0, s ! 1, s ! 2, s ! 3, s ! 4, s ! 5, s ! 6, s ! 7], ep_port = p\<rparr>"

definition from_socket_addr :: "sock_addr \<Rightarrow> endpoint" where
  "from_socket_addr sa =
     (let ip = (case sock_ip sa of IpV4 a \<Rightarrow> to_ipv6_mapped a | IpV6 a \<Rightarrow> a)
      in from_v6_segments (ipv6_segments ip) (sock_port sa))"

text \<open>\<open>Ord for Endpoint\<close> compares the decoded socket addresses.\<close>

definition endpoint_cmp_le :: "endpoint \<Rightarrow> endpoint \<Rightarrow> bool" where
  "endpoint_cmp_le a b \<longleftrightarrow> socket_addr a \<le> socket_addr b"

text \<open>The wire layout: each segment and the port in network byte order.\<close>

definition endpoint_bytes :: "endpoint \<Rightarrow> bytes" where
  "endpoint_bytes e = concat (map u16_to_be_bytes (ep_addr e @ [ep_port e]))"

definition endpoint_cast :: "bytes \<Rightarrow> endpoint option" where
  "endpoint_cast b =
     (if length b \<noteq> endpoint_size then None
      else case decode_slice 2 u16_decode b of
        Some ws \<Rightarrow> Some \<lparr>ep_addr = take 8 ws, ep_port = ws ! 8\<rparr>
      | None \<Rightarrow> None)"

lemma list_8: "length xs = 8 \<longleftrightarrow>
   (\<exists>a b c d e f g h. xs = [a, b, c, d, e, f, g, h])"
  by (auto simp: eval_nat_numeral length_Suc_conv)

lemma addr_v6_from_segments [simp]:
  "addr_v6 (from_v6_segments (ipv6_segments w) p) = w"
  by (simp add: addr_v6_def from_v6_segments_def ipv6_segments_def ipv6_new_segments)

lemma from_segments_port [simp]: "ep_port (from_v6_segments s p) = p"
  by (simp add: from_v6_segments_def)

lemma from_segments_addr_v6 [simp]:
  "wf_endpoint e \<Longrightarrow> from_v6_segments (ipv6_segments (addr_v6 e)) (ep_port e) = e"
  by (cases e) (auto simp: wf_endpoint_def list_8 addr_v6_def from_v6_segments_def)

lemma wf_from_segments [simp]: "wf_endpoint (from_v6_segments s p)"
  by (simp add: wf_endpoint_def from_v6_segments_def)

text \<open>
  The address a peer sees after decoding: an IPv4-mapped IPv6 address becomes the
  IPv4 address, flow information and scope id are lost.
\<close>

fun canonical :: "sock_addr \<Rightarrow> sock_addr" where
  "canonical (SockV4 a p) = SockV4 a p"
| "canonical (SockV6 a p _ _) =
     (case to_ipv4_mapped a of Some v4 \<Rightarrow> SockV4 v4 p | None \<Rightarrow> SockV6 a p 0 0)"

lemma socket_addr_from: "socket_addr (from_socket_addr sa) = canonical sa"
  by (cases sa) (auto simp: socket_addr_def from_socket_addr_def endpoint_addr_def sock_new_def
      Let_def split: option.splits)

lemma from_socket_addr_of:
  assumes "wf_endpoint e"
  shows "from_socket_addr (socket_addr e) = e"
proof (cases "to_ipv4_mapped (addr_v6 e)")
  case None
  then show ?thesis
    using assms
    by (simp add: socket_addr_def from_socket_addr_def endpoint_addr_def sock_new_def Let_def)
next
  case (Some v4)
  then have "addr_v6 e = to_ipv6_mapped v4" by (simp add: to_ipv4_mapped_iff)
  then have "from_v6_segments (ipv6_segments (to_ipv6_mapped v4)) (ep_port e) = e"
    using from_segments_addr_v6 [OF assms] by simp
  with Some show ?thesis
    by (simp add: socket_addr_def from_socket_addr_def endpoint_addr_def sock_new_def Let_def)
qed

lemma endpoint_bytes_length: "wf_endpoint e \<Longrightarrow> length (endpoint_bytes e) = endpoint_size"
  by (auto simp: wf_endpoint_def endpoint_bytes_def list_8 endpoint_size_def)

lemma endpoint_cast_bytes: "wf_endpoint e \<Longrightarrow> endpoint_cast (endpoint_bytes e) = Some e"
  using be16.decode_slice_enc [of "ep_addr e @ [ep_port e]"]
  by (simp add: endpoint_cast_def endpoint_bytes_length)
    (simp add: endpoint_bytes_def wf_endpoint_def nth_append)

lemma endpoint_cast_total:
  assumes "length b = endpoint_size"
  shows "\<exists>e. endpoint_cast b = Some e \<and> wf_endpoint e \<and> endpoint_bytes e = b"
proof -
  have "length b mod 2 = 0" using assms by (simp add: endpoint_size_def)
  from be16.decode_slice_total [OF this] obtain ws
    where ws: "decode_slice 2 u16_decode b = Some ws"
      and b: "concat (map u16_to_be_bytes ws) = b"
    by auto
  have "length b = 2 * length ws"
    using be16.length_concat_enc [of ws] b by simp
  then have len: "length ws = 9" using assms by (simp add: endpoint_size_def)
  then have "take 8 ws @ [ws ! 8] = ws"
    using take_Suc_conv_app_nth [of 8 ws] by simp
  then have "concat (map u16_to_be_bytes (take 8 ws @ [ws ! 8])) = b"
    using b by simp
  then show ?thesis
    using ws len assms by (simp add: endpoint_cast_def wf_endpoint_def endpoint_bytes_def)
qed

interpretation ep: fixed_codec endpoint_bytes endpoint_cast endpoint_size wf_endpoint
proof unfold_locales
  show "0 < endpoint_size" by (simp add: endpoint_size_def)
qed (simp_all add: endpoint_bytes_length endpoint_cast_bytes endpoint_cast_total)

section \<open>Message bodies\<close>

record ping =
  ping_tx_id :: bytes
  ping_node_key :: key32
  ping_padding :: bytes

definition ping_size_with_padding :: "nat \<Rightarrow> nat" where
  "ping_size_with_padding n = 12 + 32 + n"

definition wf_ping :: "ping \<Rightarrow> bool" where
  "wf_ping p \<longleftrightarrow> length (ping_tx_id p) = 12 \<and> length (ping_node_key p) = 32"

definition ping_bytes :: "ping \<Rightarrow> bytes" where
  "ping_bytes p = ping_tx_id p @ ping_node_key p @ ping_padding p"

definition ping_cast :: "bytes \<Rightarrow> ping option" where
  "ping_cast b =
     (if length b < 44 then None
      else Some \<lparr>ping_tx_id = take 12 b, ping_node_key = byte_range 12 44 b, ping_padding = drop 44 b\<rparr>)"

record pong =
  pong_tx_id :: bytes
  pong_src :: endpoint

definition pong_size :: nat where "pong_size = 30"

definition wf_pong :: "pong \<Rightarrow> bool" where
  "wf_pong p \<longleftrightarrow> length (pong_tx_id p) = 12 \<and> wf_endpoint (pong_src p)"

definition pong_bytes :: "pong \<Rightarrow> bytes" where
  "pong_bytes p = pong_tx_id p @ endpoint_bytes (pong_src p)"

definition pong_cast :: "bytes \<Rightarrow> pong option" where
  "pong_cast b =
     (if length b \<noteq> pong_size then None
      else map_option (\<lambda>e. \<lparr>pong_tx_id = take 12 b, pong_src = e\<rparr>) (endpoint_cast (drop 12 b)))"

text \<open>\<open>CallMeMaybe\<close> is a slice of endpoints.\<close>

type_synonym call_me_maybe = "endpoint list"

definition cmm_size_for_endpoint_count :: "nat \<Rightarrow> nat" where
  "cmm_size_for_endpoint_count n = endpoint_size * n"

definition cmm_bytes :: "call_me_maybe \<Rightarrow> bytes" where
  "cmm_bytes es = concat (map endpoint_bytes es)"

definition cmm_cast :: "bytes \<Rightarrow> call_me_maybe option" where
  "cmm_cast b = decode_slice endpoint_size endpoint_cast b"

section \<open>Packets\<close>

text \<open>
  \<open>Packet<Plaintext>\<close> and \<open>Packet<Encrypted>\<close> share one layout; the payload of the
  former is a \<open>Plaintext\<close>: type byte, version byte, message.
\<close>

record disco_packet =
  pkt_header :: disco_header
  pkt_tag :: bytes
  pkt_payload :: bytes

record plaintext =
  pt_ty :: u8
  pt_version :: u8
  pt_message :: bytes

definition plaintext_version :: u8 where "plaintext_version = 0"

definition wf_packet :: "disco_packet \<Rightarrow> bool" where
  "wf_packet p \<longleftrightarrow> wf_header (pkt_header p) \<and> length (pkt_tag p) = 16"

definition packet_bytes :: "disco_packet \<Rightarrow> bytes" where
  "packet_bytes p = header_bytes (pkt_header p) @ pkt_tag p @ pkt_payload p"

definition packet_cast :: "bytes \<Rightarrow> disco_error + disco_packet" where
  "packet_cast b =
     (if length b < header_size + 16 then Inl TooShort
      else Inr \<lparr>pkt_header = header_cast b, pkt_tag = byte_range header_size (header_size + 16) b,
                pkt_payload = drop (header_size + 16) b\<rparr>)"

definition plaintext_cast :: "bytes \<Rightarrow> disco_error + plaintext" where
  "plaintext_cast b =
     (case b of t # v # m \<Rightarrow> Inr \<lparr>pt_ty = t, pt_version = v, pt_message = m\<rparr>
      | _ \<Rightarrow> Inl TooShort)"

definition plaintext_bytes :: "plaintext \<Rightarrow> bytes" where
  "plaintext_bytes p = pt_ty p # pt_version p # pt_message p"

definition plaintext_ty :: "plaintext \<Rightarrow> message_type option" where
  "plaintext_ty p = message_type_try_from (pt_ty p)"

definition size_for_message :: "nat \<Rightarrow> nat" where
  "size_for_message n = header_size + (16 + (2 + n))"

definition packet_validate :: "disco_packet \<Rightarrow> disco_error + unit" where
  "packet_validate p =
     and_then (plaintext_cast (pkt_payload p)) (\<lambda>pt.
       if pt_version pt \<noteq> plaintext_version then Inl UnknownVersion else Inr ())"

text \<open>
  \<open>Packet::init_from_bytes\<close>. The message type is given by its type byte, its cast and
  its layout; the closure \<open>init_msg\<close> is the change it makes to the message.
\<close>

definition init_from_bytes ::
  "message_type \<Rightarrow> (bytes \<Rightarrow> 'm option) \<Rightarrow> ('m \<Rightarrow> bytes) \<Rightarrow> ('m \<Rightarrow> 'm) \<Rightarrow> bytes
     \<Rightarrow> disco_error + disco_packet" where
  "init_from_bytes ty cast layout init_msg b =
     and_then (packet_cast b) (\<lambda>s.
     and_then (plaintext_cast (pkt_payload s)) (\<lambda>pt.
     let pt = pt\<lparr>pt_ty := message_type_byte ty, pt_version := 0\<rparr> in
     and_then (ok_or (cast (pt_message pt)) TooShort) (\<lambda>msg.
     let pt = pt\<lparr>pt_message := layout (init_msg msg)\<rparr>;
         s = s\<lparr>pkt_payload := plaintext_bytes pt\<rparr> in
     and_then (packet_validate s) (\<lambda>_. Inr s))))"

text \<open>
  The NaCl box of the \<open>crypto_box\<close> crate: the public half of a secret, sealing with the
  receiver's public key, the sender's secret and a nonce to ciphertext and tag, and
  opening with the sender's public key and the receiver's secret.
\<close>

record salsa_box =
  box_public :: "key32 \<Rightarrow> key32"
  box_seal :: "key32 \<Rightarrow> key32 \<Rightarrow> bytes \<Rightarrow> bytes \<Rightarrow> (bytes \<times> bytes) option"
  box_open :: "key32 \<Rightarrow> key32 \<Rightarrow> bytes \<Rightarrow> bytes \<Rightarrow> bytes \<Rightarrow> bytes option"

definition salsa_box_ok :: "salsa_box \<Rightarrow> bool" where
  "salsa_box_ok cb \<longleftrightarrow>
     (\<forall>k. length k = 32 \<longrightarrow> length (box_public cb k) = 32) \<and>
     (\<forall>a b n m. length a = 32 \<longrightarrow> length b = 32 \<longrightarrow> length n = nonce_len \<longrightarrow>
        (\<exists>c t. box_seal cb (box_public cb b) a n m = Some (c, t) \<and> length t = 16 \<and>
               length c = length m \<and> box_open cb (box_public cb a) b n c t = Some m))"

definition encrypt_in_place ::
  "salsa_box \<Rightarrow> disco_packet \<Rightarrow> key32 \<Rightarrow> key32 \<Rightarrow> bytes \<Rightarrow> disco_error + disco_packet" where
  "encrypt_in_place cb slf secret receiver n =
     (let slf = slf\<lparr>pkt_header := header_new (box_public cb secret) n\<rparr> in
      case box_seal cb receiver secret n (pkt_payload slf) of
        None \<Rightarrow> Inl CryptoFailed
      | Some (ct, tag) \<Rightarrow>
          let slf = slf\<lparr>pkt_payload := ct, pkt_tag := tag\<rparr> in
          packet_cast (packet_bytes slf))"

definition from_encrypted_bytes :: "bytes \<Rightarrow> disco_error + disco_packet" where
  "from_encrypted_bytes b =
     and_then (packet_cast b) (\<lambda>slf.
     and_then (header_validate (pkt_header slf)) (\<lambda>_. Inr slf))"

definition decrypt_in_place ::
  "salsa_box \<Rightarrow> disco_packet \<Rightarrow> key32 \<Rightarrow> disco_error + disco_packet" where
  "decrypt_in_place cb slf secret =
     (case box_open cb (sender_pub (pkt_header slf)) secret (nonce (pkt_header slf))
             (pkt_payload slf) (pkt_tag slf) of
        None \<Rightarrow> Inl CryptoFailed
      | Some pt \<Rightarrow>
          let slf = slf\<lparr>pkt_payload := pt\<rparr> in
          and_then (packet_cast (packet_bytes slf)) (\<lambda>ret.
          and_then (packet_validate ret) (\<lambda>_. Inr ret)))"

definition packet_plaintext :: "disco_packet \<Rightarrow> plaintext option" where
  "packet_plaintext p = (case plaintext_cast (pkt_payload p) of Inl _ \<Rightarrow> None | Inr pt \<Rightarrow> Some pt)"

definition packet_ty :: "disco_packet \<Rightarrow> message_type option" where
  "packet_ty p = Option.bind (packet_plaintext p) plaintext_ty"

definition as_msg :: "message_type \<Rightarrow> (bytes \<Rightarrow> 'm option) \<Rightarrow> disco_packet \<Rightarrow> 'm option" where
  "as_msg ty cast p =
     Option.bind (packet_plaintext p) (\<lambda>pt.
       if plaintext_ty pt \<noteq> Some ty then None else cast (pt_message pt))"

text \<open>
  Sending and receiving one message, composed as \<open>send_ping\<close>, \<open>send_pong\<close> and
  \<open>handle_disco\<close> of \<open>ts-magicsock\<close> do.
\<close>

definition seal_message ::
  "salsa_box \<Rightarrow> message_type \<Rightarrow> (bytes \<Rightarrow> 'm option) \<Rightarrow> ('m \<Rightarrow> bytes) \<Rightarrow> ('m \<Rightarrow> 'm) \<Rightarrow> bytes
     \<Rightarrow> key32 \<Rightarrow> key32 \<Rightarrow> bytes \<Rightarrow> disco_error + bytes" where
  "seal_message cb ty cast layout init_msg buf secret receiver n =
     and_then (init_from_bytes ty cast layout init_msg buf) (\<lambda>p.
     and_then (encrypt_in_place cb p secret receiver n) (\<lambda>c. Inr (packet_bytes c)))"

definition open_packet :: "salsa_box \<Rightarrow> key32 \<Rightarrow> bytes \<Rightarrow> disco_error + disco_packet" where
  "open_packet cb secret b =
     and_then (from_encrypted_bytes b) (\<lambda>p. decrypt_in_place cb p secret)"

section \<open>Layout lemmas\<close>

lemma packet_cast_bytes [simp]:
  assumes "wf_packet p"
  shows "packet_cast (packet_bytes p) = Inr p"
proof -
  have "length (header_bytes (pkt_header p)) = 62" "length (pkt_tag p) = 16"
    using assms by (auto simp: wf_packet_def header_size_def)
  moreover have "header_cast (packet_bytes p) = pkt_header p"
    using assms by (simp add: packet_bytes_def wf_packet_def)
  ultimately show ?thesis
    by (cases p) (simp add: packet_cast_def packet_bytes_def header_size_def byte_range_def)
qed

lemma packet_cast_ok_iff [result_iff]:
  "packet_cast b = Inr p \<longleftrightarrow> wf_packet p \<and> b = packet_bytes p"
proof
  assume "packet_cast b = Inr p"
  then have len: "header_size + 16 \<le> length b"
    and p: "p = \<lparr>pkt_header = header_cast b, pkt_tag = byte_range header_size (header_size + 16) b,
              pkt_payload = drop (header_size + 16) b\<rparr>"
    by (auto simp: packet_cast_def split: if_splits)
  have "drop header_size b = byte_range header_size (header_size + 16) b @ drop (header_size + 16) b"
    by (metis (no_types) append_take_drop_id diff_add_inverse drop_drop byte_range_def add.commute)
  then have "packet_bytes p = header_bytes (header_cast b) @ drop header_size b"
    by (simp add: p packet_bytes_def)
  then show "wf_packet p \<and> b = packet_bytes p"
    using len header_bytes_cast [of b] by (simp add: p wf_packet_def)
next
  assume "wf_packet p \<and> b = packet_bytes p"
  then show "packet_cast b = Inr p" by simp
qed

lemma plaintext_cast_ok_iff [result_iff]:
  "plaintext_cast b = Inr pt \<longleftrightarrow> b = plaintext_bytes pt"
  by (cases pt) (auto simp: plaintext_cast_def plaintext_bytes_def split: list.splits)

lemma plaintext_cast_bytes [simp]: "plaintext_cast (plaintext_bytes pt) = Inr pt"
  by (simp add: plaintext_cast_ok_iff)

lemma plaintext_cast_err [result_iff]: "plaintext_cast b = Inl e \<longleftrightarrow> e = TooShort \<and> length b < 2"
  by (auto simp: plaintext_cast_def split: list.splits)

lemma packet_validate_ok_iff [result_iff]:
  "packet_validate p = Inr u \<longleftrightarrow>
     (\<exists>pt. pkt_payload p = plaintext_bytes pt \<and> pt_version pt = plaintext_version)"
  by (auto simp: packet_validate_def result_iff)

text \<open>What the receiving side needs of a message type's cast and layout.\<close>

locale wire_message =
  fixes mty :: message_type
    and mcast :: "bytes \<Rightarrow> 'm option"
    and mlayout :: "'m \<Rightarrow> bytes"
    and mvalid :: "'m \<Rightarrow> bool"
  assumes cast_layout: "mvalid m \<Longrightarrow> mcast (mlayout m) = Some m"
    and layout_cast: "mcast b = Some m \<Longrightarrow> mlayout m = b \<and> mvalid m"
    and cast_length: "mvalid m \<Longrightarrow> length b = length (mlayout m) \<Longrightarrow> mcast b \<noteq> None"
begin

lemma init_ok:
  assumes "mvalid m" and "length buf = size_for_message (length (mlayout m))"
  shows "\<exists>h t. wf_header h \<and> length t = 16 \<and>
    init_from_bytes mty mcast mlayout (\<lambda>_. m) buf =
      Inr \<lparr>pkt_header = h, pkt_tag = t,
           pkt_payload = message_type_byte mty # 0 # mlayout m\<rparr>"
proof -
  obtain s where s: "packet_cast buf = Inr s"
    using assms(2) by (simp add: packet_cast_def size_for_message_def)
  then have wf: "wf_packet s" and buf: "buf = packet_bytes s"
    by (simp_all add: packet_cast_ok_iff)
  have "length (pkt_payload s) = Suc (Suc (length (mlayout m)))"
    using wf assms(2) buf
    by (simp add: packet_bytes_def size_for_message_def wf_packet_def header_size_def)
  then obtain a b r where pl: "pkt_payload s = a # b # r" and "length r = length (mlayout m)"
    by (auto simp: length_Suc_conv)
  then obtain m0 where "mcast r = Some m0"
    using cast_length [OF assms(1)] by blast
  then have "init_from_bytes mty mcast mlayout (\<lambda>_. m) buf =
      Inr (s\<lparr>pkt_payload := message_type_byte mty # 0 # mlayout m\<rparr>)"
    by (simp add: init_from_bytes_def s pl plaintext_cast_def Let_def plaintext_bytes_def
        packet_validate_def plaintext_version_def)
  then show ?thesis
    using wf by (cases s) (auto simp: wf_packet_def)
qed

lemma as_msg_iff:
  "as_msg mty mcast p = Some m \<longleftrightarrow>
     mvalid m \<and> (\<exists>v. pkt_payload p = message_type_byte mty # v # mlayout m)"
proof
  assume "as_msg mty mcast p = Some m"
  then obtain pt where "plaintext_cast (pkt_payload p) = Inr pt"
    and "plaintext_ty pt = Some mty" and "mcast (pt_message pt) = Some m"
    by (auto simp: as_msg_def packet_plaintext_def split: sum.splits if_splits
        dest!: Option.bind_eq_Some_conv [THEN iffD1])
  then show "mvalid m \<and> (\<exists>v. pkt_payload p = message_type_byte mty # v # mlayout m)"
    using layout_cast
    by (auto simp: plaintext_cast_ok_iff plaintext_bytes_def plaintext_ty_def
        message_type_try_from_Some)
next
  assume "mvalid m \<and> (\<exists>v. pkt_payload p = message_type_byte mty # v # mlayout m)"
  then show "as_msg mty mcast p = Some m"
    by (auto simp: as_msg_def packet_plaintext_def plaintext_cast_def plaintext_ty_def cast_layout)
qed

lemma seal_open:
  assumes box: "salsa_box_ok cb"
    and keys: "length a = 32" "length b = 32" "length n = nonce_len"
    and m: "mvalid m" and buf: "length buf = size_for_message (length (mlayout m))"
  shows "\<exists>wire p. seal_message cb mty mcast mlayout (\<lambda>_. m) buf a (box_public cb b) n = Inr wire \<and>
    is_disco_message wire \<and> length wire = length buf \<and>
    open_packet cb b wire = Inr p \<and> sender_pub (pkt_header p) = box_public cb a \<and>
    as_msg mty mcast p = Some m"
proof -
  let ?pl = "message_type_byte mty # 0 # mlayout m"
  let ?hd = "header_new (box_public cb a) n"
  obtain h t where h: "init_from_bytes mty mcast mlayout (\<lambda>_. m) buf =
      Inr \<lparr>pkt_header = h, pkt_tag = t, pkt_payload = ?pl\<rparr>"
    using init_ok [OF m buf] by blast
  obtain c g where sealed: "box_seal cb (box_public cb b) a n ?pl = Some (c, g)"
    and lens: "length g = 16" "length c = length ?pl"
    and opened: "box_open cb (box_public cb a) b n c g = Some ?pl"
    using box keys unfolding salsa_box_ok_def by blast
  have wf: "wf_header ?hd"
    using box keys by (simp add: salsa_box_ok_def)
  let ?e = "\<lparr>pkt_header = ?hd, pkt_tag = g, pkt_payload = c\<rparr>"
  let ?d = "\<lparr>pkt_header = ?hd, pkt_tag = g, pkt_payload = ?pl\<rparr>"
  have wfe: "wf_packet ?e" and wfd: "wf_packet ?d"
    using wf lens by (simp_all add: wf_packet_def)
  have "seal_message cb mty mcast mlayout (\<lambda>_. m) buf a (box_public cb b) n = Inr (packet_bytes ?e)"
    using wfe by (simp add: seal_message_def h encrypt_in_place_def Let_def sealed)
  moreover have "is_disco_message (packet_bytes ?e)"
    using wf by (simp add: is_disco_message_iff packet_bytes_def header_bytes_def
        header_new_def disco_magic_def)
      (simp add: header_size_def wf_header_def nonce_len_def disco_magic_def)
  moreover have "length (packet_bytes ?e) = length buf"
    using wf lens buf by (simp add: packet_bytes_def size_for_message_def)
  moreover have "open_packet cb b (packet_bytes ?e) = Inr ?d"
    using wfe wfd opened
    by (simp add: open_packet_def from_encrypted_bytes_def header_validate_def
        header_is_valid_def header_new_def decrypt_in_place_def Let_def packet_validate_def
        plaintext_cast_def plaintext_version_def)
  moreover have "as_msg mty mcast ?d = Some m"
    by (simp add: as_msg_iff m)
  ultimately show ?thesis by (auto simp: header_new_def)
qed

end

text \<open>The three message types the client speaks satisfy the contract.\<close>

interpretation ping_msg: wire_message MtPing ping_cast ping_bytes wf_ping
proof unfold_locales
  fix m :: ping assume "wf_ping m"
  then show "ping_cast (ping_bytes m) = Some m"
    by (cases m) (simp add: wf_ping_def ping_cast_def ping_bytes_def byte_range_def)
next
  fix b m assume "ping_cast b = Some m"
  then have len: "44 \<le> length b"
    and m: "m = \<lparr>ping_tx_id = take 12 b, ping_node_key = byte_range 12 44 b, ping_padding = drop 44 b\<rparr>"
    by (auto simp: ping_cast_def split: if_splits)
  have "drop 12 b = byte_range 12 44 b @ drop 44 b"
    using append_take_drop_id [of 32 "drop 12 b"] by (simp add: byte_range_def)
  then show "ping_bytes m = b \<and> wf_ping m"
    using len by (simp add: m ping_bytes_def wf_ping_def) (metis append_take_drop_id)
next
  fix m :: ping and b :: bytes
  assume "wf_ping m" "length b = length (ping_bytes m)"
  then show "ping_cast b \<noteq> None" by (simp add: ping_cast_def ping_bytes_def wf_ping_def)
qed

interpretation pong_msg: wire_message MtPong pong_cast pong_bytes wf_pong
proof unfold_locales
  fix m :: pong assume "wf_pong m"
  then show "pong_cast (pong_bytes m) = Some m"
    by (cases m) (simp add: wf_pong_def pong_cast_def pong_bytes_def pong_size_def
        endpoint_bytes_length endpoint_cast_bytes endpoint_size_def)
next
  fix b m assume "pong_cast b = Some m"
  then obtain e where len: "length b = 30" and e: "endpoint_cast (drop 12 b) = Some e"
    and m: "m = \<lparr>pong_tx_id = take 12 b, pong_src = e\<rparr>"
    by (auto simp: pong_cast_def pong_size_def split: if_splits)
  have "length (drop 12 b) = endpoint_size" using len by (simp add: endpoint_size_def)
  then have "wf_endpoint e \<and> endpoint_bytes e = drop 12 b"
    using endpoint_cast_total e by fastforce
  then show "pong_bytes m = b \<and> wf_pong m"
    using len by (simp add: m pong_bytes_def wf_pong_def)
next
  fix m :: pong and b :: bytes
  assume "wf_pong m" "length b = length (pong_bytes m)"
  then have len: "length b = pong_size"
    by (simp add: wf_pong_def pong_bytes_def endpoint_bytes_length pong_size_def endpoint_size_def)
  then have "length (drop 12 b) = endpoint_size" by (simp add: pong_size_def endpoint_size_def)
  then show "pong_cast b \<noteq> None"
    using len endpoint_cast_total by (fastforce simp: pong_cast_def)
qed

interpretation cmm_msg: wire_message MtCallMeMaybe cmm_cast cmm_bytes "list_all wf_endpoint"
proof unfold_locales
  fix m :: call_me_maybe assume "list_all wf_endpoint m"
  then show "cmm_cast (cmm_bytes m) = Some m"
    by (simp add: cmm_cast_def cmm_bytes_def ep.decode_slice_enc)
next
  fix b m assume m: "cmm_cast b = Some m"
  then have "length b mod endpoint_size = 0"
    using ep.decode_slice_defined [of b] by (auto simp: cmm_cast_def)
  then show "cmm_bytes m = b \<and> list_all wf_endpoint m"
    using ep.decode_slice_total [of b] m by (auto simp: cmm_cast_def cmm_bytes_def)
next
  fix m :: call_me_maybe and b :: bytes
  assume "list_all wf_endpoint m" "length b = length (cmm_bytes m)"
  then have "length b mod endpoint_size = 0"
    by (simp add: cmm_bytes_def ep.length_concat_enc)
  then show "cmm_cast b \<noteq> None"
    using ep.decode_slice_defined [of b] by (simp add: cmm_cast_def)
qed

section \<open>Properties\<close>

text \<open>A box that shows the assumptions on the crypto crate can hold: it flips one bit.\<close>

definition plain_box :: salsa_box where
  "plain_box = \<lparr>box_public = (\<lambda>k. k),
     box_seal = (\<lambda>_ _ _ m. Some (map (\<lambda>x. x XOR 1) m, replicate 16 0)),
     box_open = (\<lambda>_ _ _ c t. if t = replicate 16 0 then Some (map (\<lambda>x. x XOR 1) c) else None)\<rparr>"

lemma plain_box_ok: "salsa_box_ok plain_box"
  by (simp add: salsa_box_ok_def plain_box_def xor.assoc comp_def)

lemma open_packet_ok_iff:
  "open_packet cb secret b = Inr p \<longleftrightarrow>
     (\<exists>e. wf_packet e \<and> b = packet_bytes e \<and> magic (pkt_header e) = disco_magic \<and>
        box_open cb (sender_pub (pkt_header e)) secret (nonce (pkt_header e))
          (pkt_payload e) (pkt_tag e) = Some (pkt_payload p) \<and>
        p = e\<lparr>pkt_payload := pkt_payload p\<rparr> \<and>
        (\<exists>t msg. pkt_payload p = t # plaintext_version # msg))"
    (is "?l \<longleftrightarrow> ?r")
proof
  assume ?l
  then obtain e pt where e: "packet_cast b = Inr e" "header_is_valid (pkt_header e)"
    and o: "box_open cb (sender_pub (pkt_header e)) secret (nonce (pkt_header e))
          (pkt_payload e) (pkt_tag e) = Some pt"
    and p: "packet_cast (packet_bytes (e\<lparr>pkt_payload := pt\<rparr>)) = Inr p"
    and v: "packet_validate p = Inr ()"
    by (auto simp: open_packet_def from_encrypted_bytes_def decrypt_in_place_def Let_def
        header_validate_def and_then_Inr_iff split: option.splits if_splits)
  from e have wf: "wf_packet e" and b: "b = packet_bytes e"
    by (simp_all add: packet_cast_ok_iff)
  then have "wf_packet (e\<lparr>pkt_payload := pt\<rparr>)" by (simp add: wf_packet_def)
  then have "p = e\<lparr>pkt_payload := pt\<rparr>" using p by simp
  then show ?r
    using wf b e o v
    by (auto simp: header_is_valid_def packet_validate_ok_iff plaintext_bytes_def)
next
  assume ?r
  then obtain e where e: "wf_packet e" "b = packet_bytes e" "magic (pkt_header e) = disco_magic"
    and o: "box_open cb (sender_pub (pkt_header e)) secret (nonce (pkt_header e))
          (pkt_payload e) (pkt_tag e) = Some (pkt_payload p)"
    and p: "p = e\<lparr>pkt_payload := pkt_payload p\<rparr>"
    and v: "\<exists>t msg. pkt_payload p = t # plaintext_version # msg"
    by blast
  have "wf_packet (e\<lparr>pkt_payload := pkt_payload p\<rparr>)" using e by (simp add: wf_packet_def)
  then have "wf_packet p" using p by simp
  moreover have "packet_validate p = Inr ()"
    using v by (auto simp: packet_validate_def plaintext_cast_def)
  ultimately show ?l
    using e o p by (simp add: open_packet_def from_encrypted_bytes_def decrypt_in_place_def
        header_validate_def header_is_valid_def Let_def)
qed

text \<open>
  C23: A CallMeMaybe survives the wire. With a NaCl box that opens what it sealed, packing
  any list of socket addresses as endpoints, encrypting the packet and parsing and
  decrypting it at the receiver gives the same addresses in the same order, up to the
  canonical form the encoding fixes; the datagram is recognised as Disco and names the
  sender's key.
\<close>

theorem call_me_maybe_roundtrip:
  assumes "salsa_box_ok cb" and "length a = 32" and "length b = 32" and "length n = nonce_len"
    and "length buf = size_for_message (cmm_size_for_endpoint_count (length sas))"
  shows "\<exists>wire p es.
    seal_message cb MtCallMeMaybe cmm_cast cmm_bytes (\<lambda>_. map from_socket_addr sas) buf
      a (box_public cb b) n = Inr wire \<and>
    is_disco_message wire \<and>
    open_packet cb b wire = Inr p \<and> sender_pub (pkt_header p) = box_public cb a \<and>
    as_msg MtCallMeMaybe cmm_cast p = Some es \<and> map socket_addr es = map canonical sas"
proof -
  have wf: "list_all wf_endpoint (map from_socket_addr sas)"
    by (simp add: list_all_iff from_socket_addr_def Let_def)
  then have "length buf = size_for_message (length (cmm_bytes (map from_socket_addr sas)))"
    using assms(5) ep.length_concat_enc [OF wf]
    by (simp add: cmm_bytes_def cmm_size_for_endpoint_count_def)
  from cmm_msg.seal_open [OF assms(1-4) wf this] show ?thesis
    by (auto simp: socket_addr_from)
qed

theorem call_me_maybe_roundtrip_witness:
  "salsa_box_ok plain_box \<and>
   (\<exists>wire p es.
     seal_message plain_box MtCallMeMaybe cmm_cast cmm_bytes
       (\<lambda>_. map from_socket_addr [SockV4 0xC0000221 53492, SockV6 (to_ipv6_mapped 7) 80 3 4])
       (replicate 116 0) (replicate 32 1) (box_public plain_box (replicate 32 2)) (replicate 24 3)
       = Inr wire \<and> open_packet plain_box (replicate 32 2) wire = Inr p \<and>
     as_msg MtCallMeMaybe cmm_cast p = Some es \<and>
     map socket_addr es = [SockV4 0xC0000221 53492, SockV4 7 80])"
  using call_me_maybe_roundtrip [OF plain_box_ok, of "replicate 32 1" "replicate 32 2"
      "replicate 24 3" "replicate 116 0"
      "[SockV4 0xC0000221 53492, SockV6 (to_ipv6_mapped 7) 80 3 4]"]
  by (auto simp: plain_box_ok nonce_len_def size_for_message_def header_size_def
      cmm_size_for_endpoint_count_def endpoint_size_def)

text \<open>
  C24: A Ping survives the wire: transaction id, node key and padding arrive as sent, and
  the receiver learns the sender's Disco key from the header.
\<close>

theorem ping_roundtrip:
  assumes "salsa_box_ok cb" and "length a = 32" and "length b = 32" and "length n = nonce_len"
    and "wf_ping m"
    and "length buf = size_for_message (ping_size_with_padding (length (ping_padding m)))"
  shows "\<exists>wire p.
    seal_message cb MtPing ping_cast ping_bytes (\<lambda>_. m) buf a (box_public cb b) n = Inr wire \<and>
    is_disco_message wire \<and> length wire = length buf \<and>
    open_packet cb b wire = Inr p \<and> sender_pub (pkt_header p) = box_public cb a \<and>
    as_msg MtPing ping_cast p = Some m \<and> as_msg MtPong pong_cast p = None"
proof -
  have "length buf = size_for_message (length (ping_bytes m))"
    using assms(5,6) by (simp add: ping_bytes_def wf_ping_def ping_size_with_padding_def)
  then obtain wire p where
    w: "seal_message cb MtPing ping_cast ping_bytes (\<lambda>_. m) buf a (box_public cb b) n = Inr wire"
      "is_disco_message wire" "length wire = length buf"
      "open_packet cb b wire = Inr p" "sender_pub (pkt_header p) = box_public cb a"
    and m: "as_msg MtPing ping_cast p = Some m"
    using ping_msg.seal_open [OF assms(1-5)] by blast
  have "as_msg MtPong pong_cast p = None"
  proof (rule ccontr)
    assume "as_msg MtPong pong_cast p \<noteq> None"
    then show False
      using m by (auto simp: ping_msg.as_msg_iff pong_msg.as_msg_iff)
  qed
  with w m show ?thesis by blast
qed

theorem ping_roundtrip_witness:
  "salsa_box_ok plain_box \<and> wf_ping \<lparr>ping_tx_id = replicate 12 9, ping_node_key = replicate 32 8,
       ping_padding = [0, 0]\<rparr> \<and>
   (\<exists>wire p. open_packet plain_box (replicate 32 2) wire = Inr p \<and> is_disco_message wire \<and>
     as_msg MtPing ping_cast p = Some \<lparr>ping_tx_id = replicate 12 9, ping_node_key = replicate 32 8,
       ping_padding = [0, 0]\<rparr>)"
proof -
  have wf: "wf_ping \<lparr>ping_tx_id = replicate 12 9, ping_node_key = replicate 32 8,
       ping_padding = [0, 0]\<rparr>"
    by (simp add: wf_ping_def)
  show ?thesis
    using wf ping_roundtrip [OF plain_box_ok _ _ _ wf, of "replicate 32 1" "replicate 32 2"
        "replicate 24 3" "replicate 126 0"]
    by (auto simp: plain_box_ok nonce_len_def size_for_message_def header_size_def
        ping_size_with_padding_def)
qed


end
