(* ===== verification/Stun.thy ===== *)
theory Stun
  imports Net_Addr
begin

text \<open>
  The STUN binding client of \<open>crates/ts-magicsock/src/stun.rs\<close>: the binding request, the
  demultiplexing test, and the walk over the attributes of a response. The response side
  of RFC 5389, which the servers implement, is the specification the parser is proved
  against.
\<close>

section \<open>The client\<close>

definition MAGIC_COOKIE :: u32 where "MAGIC_COOKIE = 0x2112A442"
definition HEADER_LEN :: nat where "HEADER_LEN = 20"
definition TX_ID_LEN :: nat where "TX_ID_LEN = 12"
definition TYPE_BINDING_REQUEST :: u16 where "TYPE_BINDING_REQUEST = 0x0001"
definition TYPE_BINDING_SUCCESS :: u16 where "TYPE_BINDING_SUCCESS = 0x0101"
definition ATTR_XOR_MAPPED_ADDRESS :: u16 where "ATTR_XOR_MAPPED_ADDRESS = 0x0020"
definition FAMILY_IPV4 :: u8 where "FAMILY_IPV4 = 0x01"
definition FAMILY_IPV6 :: u8 where "FAMILY_IPV6 = 0x02"

definition encode_binding_request :: "bytes \<Rightarrow> bytes" where
  "encode_binding_request tx_id =
     u16_to_be_bytes TYPE_BINDING_REQUEST @ u16_to_be_bytes 0 @ u32_to_be_bytes MAGIC_COOKIE @ tx_id"

definition looks_like_stun :: "bytes \<Rightarrow> bool" where
  "looks_like_stun b =
     (if length b < HEADER_LEN then False
      else u32_from_be_bytes (b ! 4) (b ! 5) (b ! 6) (b ! 7) = MAGIC_COOKIE)"

definition tx_id_from :: "bytes \<Rightarrow> bytes option" where
  "tx_id_from b = (if length b < HEADER_LEN then None else Some (byte_range 8 20 b))"

text \<open>\<open>Ipv6Addr::from([u8; 16])\<close>.\<close>

definition ipv6_from_bytes :: "bytes \<Rightarrow> ipv6" where
  "ipv6_from_bytes b =
     ipv6_new (u16_from_be_bytes (b ! 0) (b ! 1)) (u16_from_be_bytes (b ! 2) (b ! 3))
       (u16_from_be_bytes (b ! 4) (b ! 5)) (u16_from_be_bytes (b ! 6) (b ! 7))
       (u16_from_be_bytes (b ! 8) (b ! 9)) (u16_from_be_bytes (b ! 10) (b ! 11))
       (u16_from_be_bytes (b ! 12) (b ! 13)) (u16_from_be_bytes (b ! 14) (b ! 15))"

definition parse_xor_mapped_address :: "bytes \<Rightarrow> bytes \<Rightarrow> sock_addr option" where
  "parse_xor_mapped_address body tx_id_full =
     (if length body < 4 then None
      else
        let family = body ! 1;
            x_port = u16_from_be_bytes (body ! 2) (body ! 3);
            port = x_port XOR ucast (drop_bit 16 MAGIC_COOKIE) in
        if family = FAMILY_IPV4 then
          if length body < 8 then None
          else
            let a = map (\<lambda>k. body ! (4 + k) XOR tx_id_full ! k) [0..<4] in
            Some (sock_new (IpV4 (ipv4_new (a ! 0) (a ! 1) (a ! 2) (a ! 3))) port)
        else if family = FAMILY_IPV6 then
          if length body < 20 then None
          else
            let a = map (\<lambda>k. body ! (4 + k) XOR tx_id_full ! k) [0..<16] in
            Some (sock_new (IpV6 (ipv6_from_bytes a)) port)
        else None)"

text \<open>
  The attribute walk of \<open>parse_binding_response\<close>. Every attribute moves the index
  forward by at least its four header bytes, so the walk ends. The source rounds the
  length up to a multiple of four with a mask.
\<close>

function find_xor_mapped :: "bytes \<Rightarrow> bytes \<Rightarrow> nat \<Rightarrow> nat \<Rightarrow> sock_addr option" where
  "find_xor_mapped b tx_id_full stop i =
     (if i + 4 \<le> stop then
        let attr_type = u16_from_be_bytes (b ! i) (b ! (i + 1));
            attr_len = unat (u16_from_be_bytes (b ! (i + 2)) (b ! (i + 3)));
            val_start = i + 4;
            val_end = val_start + attr_len in
        if stop < val_end then None
        else if attr_type = ATTR_XOR_MAPPED_ADDRESS then
          parse_xor_mapped_address (byte_range val_start val_end b) tx_id_full
        else
          let padded_len = (attr_len + 3) div 4 * 4 in
          find_xor_mapped b tx_id_full stop (val_start + padded_len)
      else None)"
  by pat_completeness auto
termination
  by (relation "measure (\<lambda>(b, tx_id_full, stop, i). stop - i)") auto

declare find_xor_mapped.simps [simp del]

definition parse_binding_response :: "bytes \<Rightarrow> sock_addr option" where
  "parse_binding_response b =
     (if length b < HEADER_LEN then None
      else if u16_from_be_bytes (b ! 0) (b ! 1) \<noteq> TYPE_BINDING_SUCCESS then None
      else
        let body_len = unat (u16_from_be_bytes (b ! 2) (b ! 3)) in
        if length b < HEADER_LEN + body_len then None
        else if u32_from_be_bytes (b ! 4) (b ! 5) (b ! 6) (b ! 7) \<noteq> MAGIC_COOKIE then None
        else
          let tx_id_full = u32_to_be_bytes MAGIC_COOKIE @ byte_range 8 20 b in
          find_xor_mapped b tx_id_full (HEADER_LEN + body_len) HEADER_LEN)"

section \<open>The server's side of RFC 5389\<close>

type_synonym stun_attr = "u16 \<times> bytes"

text \<open>An attribute: type, length of the value, the value, zeros up to a multiple of four.\<close>

definition padding :: "nat \<Rightarrow> nat" where
  "padding n = (n + 3) div 4 * 4 - n"

definition attr_bytes :: "stun_attr \<Rightarrow> bytes" where
  "attr_bytes a =
     u16_to_be_bytes (fst a) @ u16_to_be_bytes (word_of_nat (length (snd a))) @ snd a
       @ replicate (padding (length (snd a))) 0"

definition binding_success :: "bytes \<Rightarrow> stun_attr list \<Rightarrow> bytes" where
  "binding_success tx_id attrs =
     (let body = concat (map attr_bytes attrs) in
      u16_to_be_bytes TYPE_BINDING_SUCCESS @ u16_to_be_bytes (word_of_nat (length body))
        @ u32_to_be_bytes MAGIC_COOKIE @ tx_id @ body)"

definition ipv6_bytes :: "ipv6 \<Rightarrow> bytes" where
  "ipv6_bytes w = concat (map u16_to_be_bytes (ipv6_segments w))"

text \<open>
  The XOR-MAPPED-ADDRESS value of an address: port and address combined with the magic
  cookie and the transaction id.
\<close>

definition xor_bytes :: "bytes \<Rightarrow> bytes \<Rightarrow> bytes" where
  "xor_bytes xs ys = map2 (XOR) xs ys"

definition xor_mapped :: "bytes \<Rightarrow> ip_addr \<Rightarrow> u16 \<Rightarrow> bytes" where
  "xor_mapped tx_id ip port =
     (let pad = u32_to_be_bytes MAGIC_COOKIE @ tx_id;
          xport = u16_to_be_bytes (port XOR 0x2112) in
      case ip of
        IpV4 a \<Rightarrow> [0, FAMILY_IPV4] @ xport @ xor_bytes (ipv4_octets a) pad
      | IpV6 a \<Rightarrow> [0, FAMILY_IPV6] @ xport @ xor_bytes (ipv6_bytes a) pad)"

definition attr_ok :: "stun_attr \<Rightarrow> bool" where
  "attr_ok a \<longleftrightarrow> length (snd a) < 2 ^ 16"


lemma length_attr_bytes: "length (attr_bytes a) = 4 + (length (snd a) + 3) div 4 * 4"
  by (simp add: attr_bytes_def padding_def)

lemma list_4: "length xs = 4 \<longleftrightarrow> (\<exists>a b c d. xs = [a, b, c, d])"
  by (auto simp: eval_nat_numeral length_Suc_conv)

lemma list_12: "length xs = 12 \<longleftrightarrow>
    (\<exists>a b c d e f g h i j k l. xs = [a, b, c, d, e, f, g, h, i, j, k, l])"
  by (auto simp: eval_nat_numeral length_Suc_conv)

lemma xor_cancel: "(a XOR b) XOR b = (a :: 'a::len word)"
  by (simp add: xor.assoc)

lemma cookie_high: "ucast (drop_bit 16 MAGIC_COOKIE) = (0x2112 :: u16)"
  by (simp add: MAGIC_COOKIE_def)

lemma xor_mapped_parse:
  assumes "length tx_id = 12"
  shows "parse_xor_mapped_address (xor_mapped tx_id ip port) (u32_to_be_bytes MAGIC_COOKIE @ tx_id)
    = Some (sock_new ip port)"
proof -
  obtain a b c d e f g h i j k l where tx: "tx_id = [a, b, c, d, e, f, g, h, i, j, k, l]"
    using assms list_12 [of tx_id] by auto
  obtain m n p q where ck: "u32_to_be_bytes MAGIC_COOKIE = [m, n, p, q]"
    by (simp add: u32_to_be_bytes_def)
  obtain x y where xp: "u16_to_be_bytes (port XOR 0x2112) = [x, y]"
    and port: "u16_from_be_bytes x y = port XOR 0x2112"
    using u16_from_to_be [of "port XOR 0x2112"] by (simp only: u16_to_be_bytes_def)
  show ?thesis
  proof (cases ip)
    case (IpV4 v)
    then show ?thesis
      by (simp add: xor_mapped_def parse_xor_mapped_address_def tx ck xor_bytes_def ipv4_octets_def
          u32_to_be_bytes_def [of v] xp port cookie_high xor_cancel upt_rec
          ipv4_new_def FAMILY_IPV4_def FAMILY_IPV6_def)
  next
    case (IpV6 v)
    then show ?thesis
      by (simp add: xor_mapped_def parse_xor_mapped_address_def tx ck xor_bytes_def ipv6_bytes_def
          ipv6_segments_def u16_to_be_bytes_def [of "ucast _"] xp port cookie_high xor_cancel upt_rec ipv6_from_bytes_def
          ipv6_new_segments FAMILY_IPV4_def FAMILY_IPV6_def)
  qed
qed

text \<open>
  The walk over well-formed attributes finds the first XOR-MAPPED-ADDRESS, wherever the
  attributes sit in the datagram.
\<close>

lemma attr_header:
  assumes "attr_ok a" and "p = length pre"
  shows "u16_from_be_bytes ((pre @ attr_bytes a @ post) ! p) ((pre @ attr_bytes a @ post) ! (p + 1)) = fst a"
    and "unat (u16_from_be_bytes ((pre @ attr_bytes a @ post) ! (p + 2)) ((pre @ attr_bytes a @ post) ! (p + 3)))
      = length (snd a)"
    and "byte_range (p + 4) (p + 4 + length (snd a)) (pre @ attr_bytes a @ post) = snd a"
proof -
  have "\<exists>x y u v. attr_bytes a = [x, y, u, v] @ snd a @ replicate (padding (length (snd a))) 0
      \<and> u16_from_be_bytes x y = fst a
      \<and> u16_from_be_bytes u v = word_of_nat (length (snd a))"
    by (simp add: attr_bytes_def u16_to_be_bytes_def)
  then obtain x y u v where
    a: "attr_bytes a = [x, y, u, v] @ snd a @ replicate (padding (length (snd a))) 0"
    and ty: "u16_from_be_bytes x y = fst a"
    and len: "u16_from_be_bytes u v = word_of_nat (length (snd a))"
    by blast
  have n: "unat (word_of_nat (length (snd a)) :: u16) = length (snd a)"
    using assms(1) by (simp add: attr_ok_def)
  show "u16_from_be_bytes ((pre @ attr_bytes a @ post) ! p) ((pre @ attr_bytes a @ post) ! (p + 1)) = fst a"
    using ty assms(2) by (simp add: a nth_append)
  show "unat (u16_from_be_bytes ((pre @ attr_bytes a @ post) ! (p + 2))
      ((pre @ attr_bytes a @ post) ! (p + 3))) = length (snd a)"
    using len n assms(2) by (simp add: a nth_append)
  show "byte_range (p + 4) (p + 4 + length (snd a)) (pre @ attr_bytes a @ post) = snd a"
    using assms(2) by (simp add: a byte_range_def)
qed

lemma find_xor_mapped_attrs:
  assumes "list_all attr_ok attrs"
  shows "find_xor_mapped (pre @ concat (map attr_bytes attrs) @ post) txf
      (length pre + length (concat (map attr_bytes attrs))) (length pre)
    = (case find (\<lambda>a. fst a = ATTR_XOR_MAPPED_ADDRESS) attrs of
         None \<Rightarrow> None | Some a \<Rightarrow> parse_xor_mapped_address (snd a) txf)"
  using assms
proof (induction attrs arbitrary: pre)
  case Nil
  then show ?case by (simp add: find_xor_mapped.simps)
next
  case (Cons a attrs)
  then have ok: "attr_ok a" by simp
  let ?rest = "concat (map attr_bytes attrs)"
  note h = attr_header [OF ok refl, of pre "?rest @ post"]
  have IH: "find_xor_mapped ((pre @ attr_bytes a) @ ?rest @ post) txf
      (length (pre @ attr_bytes a) + length ?rest) (length (pre @ attr_bytes a))
    = (case find (\<lambda>a. fst a = ATTR_XOR_MAPPED_ADDRESS) attrs of
         None \<Rightarrow> None | Some a \<Rightarrow> parse_xor_mapped_address (snd a) txf)"
    using Cons.IH [of "pre @ attr_bytes a"] Cons.prems by simp
  have stop: "length pre + (4 + length (snd a)) \<le> length pre + length (attr_bytes a)"
    by (simp add: length_attr_bytes)
  show ?case
    using IH h stop
    by (subst find_xor_mapped.simps) (simp add: Let_def length_attr_bytes add.assoc)
qed

lemma parse_binding_success:
  assumes "length tx_id = TX_ID_LEN" and "list_all attr_ok attrs"
    and "length (concat (map attr_bytes attrs)) < 2 ^ 16"
  shows "parse_binding_response (binding_success tx_id attrs @ trail) =
    (case find (\<lambda>a. fst a = ATTR_XOR_MAPPED_ADDRESS) attrs of
       None \<Rightarrow> None
     | Some a \<Rightarrow> parse_xor_mapped_address (snd a) (u32_to_be_bytes MAGIC_COOKIE @ tx_id))"
proof -
  let ?body = "concat (map attr_bytes attrs)"
  let ?pre = "u16_to_be_bytes TYPE_BINDING_SUCCESS @ u16_to_be_bytes (word_of_nat (length ?body))
      @ u32_to_be_bytes MAGIC_COOKIE @ tx_id"
  have len: "length ?pre = HEADER_LEN"
    using assms(1) by (simp add: HEADER_LEN_def TX_ID_LEN_def)
  have n: "unat (word_of_nat (length ?body) :: u16) = length ?body"
    using assms(3) by simp
  have tx: "byte_range 8 20 (?pre @ ?body @ trail) = tx_id"
    using assms(1) by (simp add: byte_range_def TX_ID_LEN_def u16_to_be_bytes_def u32_to_be_bytes_def)
  have walk: "find_xor_mapped (?pre @ ?body @ trail) (u32_to_be_bytes MAGIC_COOKIE @ tx_id)
      (HEADER_LEN + length ?body) HEADER_LEN =
    (case find (\<lambda>a. fst a = ATTR_XOR_MAPPED_ADDRESS) attrs of
       None \<Rightarrow> None
     | Some a \<Rightarrow> parse_xor_mapped_address (snd a) (u32_to_be_bytes MAGIC_COOKIE @ tx_id))"
    using find_xor_mapped_attrs [OF assms(2), of ?pre trail "u32_to_be_bytes MAGIC_COOKIE @ tx_id"]
    by (simp only: len)
  have ty: "u16_from_be_bytes ((?pre @ ?body @ trail) ! 0) ((?pre @ ?body @ trail) ! 1)
      = TYPE_BINDING_SUCCESS"
    by (simp add: u16_to_be_bytes_def)
  have blen: "u16_from_be_bytes ((?pre @ ?body @ trail) ! 2) ((?pre @ ?body @ trail) ! 3)
      = word_of_nat (length ?body)"
    by (simp add: u16_to_be_bytes_def)
  have ck: "u32_from_be_bytes ((?pre @ ?body @ trail) ! 4) ((?pre @ ?body @ trail) ! 5)
      ((?pre @ ?body @ trail) ! 6) ((?pre @ ?body @ trail) ! 7) = MAGIC_COOKIE"
    by (simp add: u16_to_be_bytes_def u32_to_be_bytes_def)
  have eq: "binding_success tx_id attrs @ trail = ?pre @ ?body @ trail"
    by (simp add: binding_success_def Let_def)
  have big: "\<not> length (?pre @ ?body @ trail) < HEADER_LEN"
    and big': "\<not> length (?pre @ ?body @ trail) < HEADER_LEN + length ?body"
    using len by simp_all
  show ?thesis
    unfolding eq parse_binding_response_def
    by (simp only: big ty blen ck n big' tx walk Let_def if_False simp_thms)
qed

section \<open>Properties\<close>

text \<open>
  C21: A binding response a server builds for a transaction is recognised as STUN, carries
  back the transaction id of the request, and parses to the address the server saw,
  whatever attributes and padding stand around it; a response without an
  XOR-MAPPED-ADDRESS parses to nothing.
\<close>

theorem stun_reflects_address:
  assumes "length tx_id = TX_ID_LEN" and "list_all attr_ok attrs"
    and "length (concat (map attr_bytes attrs)) < 2 ^ 16"
    and "\<forall>v. (ATTR_XOR_MAPPED_ADDRESS, v) \<in> set attrs \<longrightarrow> v = xor_mapped tx_id ip port"
  shows "looks_like_stun (binding_success tx_id attrs @ trail) \<and>
    looks_like_stun (encode_binding_request tx_id) \<and>
    tx_id_from (binding_success tx_id attrs @ trail) = tx_id_from (encode_binding_request tx_id) \<and>
    parse_binding_response (binding_success tx_id attrs @ trail) =
      (if ATTR_XOR_MAPPED_ADDRESS \<in> fst ` set attrs then Some (sock_new ip port) else None)"
proof -
  have "looks_like_stun (binding_success tx_id attrs @ trail)"
    "looks_like_stun (encode_binding_request tx_id)"
    "tx_id_from (binding_success tx_id attrs @ trail) = Some tx_id"
    "tx_id_from (encode_binding_request tx_id) = Some tx_id"
    using assms(1)
    by (simp_all add: looks_like_stun_def binding_success_def encode_binding_request_def Let_def
        HEADER_LEN_def TX_ID_LEN_def u16_to_be_bytes_def u32_to_be_bytes_def tx_id_from_def byte_range_def)
  moreover have "parse_binding_response (binding_success tx_id attrs @ trail) =
      (if ATTR_XOR_MAPPED_ADDRESS \<in> fst ` set attrs then Some (sock_new ip port) else None)"
  proof (cases "find (\<lambda>a. fst a = ATTR_XOR_MAPPED_ADDRESS) attrs")
    case None
    then have "ATTR_XOR_MAPPED_ADDRESS \<notin> fst ` set attrs"
      by (auto simp: find_None_iff)
    then show ?thesis
      using parse_binding_success [OF assms(1-3), of trail] None by simp
  next
    case (Some a)
    then have "a \<in> set attrs" "fst a = ATTR_XOR_MAPPED_ADDRESS"
      by (auto simp: find_Some_iff)
    moreover from this have "snd a = xor_mapped tx_id ip port"
      using assms(4) by (metis prod.collapse)
    moreover from calculation have "ATTR_XOR_MAPPED_ADDRESS \<in> fst ` set attrs"
      by (metis imageI)
    ultimately show ?thesis
      using Some parse_binding_success [OF assms(1-3), of trail] assms(1)
      by (simp add: xor_mapped_parse TX_ID_LEN_def)
  qed
  ultimately show ?thesis by simp
qed

theorem stun_reflects_address_witness:
  "parse_binding_response (binding_success (replicate 12 7)
      [(0x8022, [104, 105]), (ATTR_XOR_MAPPED_ADDRESS, xor_mapped (replicate 12 7) (IpV4 0xCB007105) 41641)]
      @ []) = Some (SockV4 0xCB007105 41641)"
  using stun_reflects_address [of "replicate 12 7"
      "[(0x8022, [104, 105]), (ATTR_XOR_MAPPED_ADDRESS, xor_mapped (replicate 12 7) (IpV4 0xCB007105) 41641)]"
      "IpV4 0xCB007105" 41641 "[]"]
  by (simp add: TX_ID_LEN_def attr_ok_def ATTR_XOR_MAPPED_ADDRESS_def length_attr_bytes
      xor_mapped_def Let_def xor_bytes_def ipv4_octets_def sock_new_def)

text \<open>The two bytes of the cookie that overlap the magic of a Disco message.\<close>

lemma stun_cookie_bytes:
  assumes "looks_like_stun b"
  shows "b ! 4 = 0x21 \<and> b ! 5 = 0x12"
proof -
  have "u32_to_be_bytes (u32_from_be_bytes (b ! 4) (b ! 5) (b ! 6) (b ! 7))
      = u32_to_be_bytes MAGIC_COOKIE"
    using assms by (simp only: looks_like_stun_def split: if_splits)
  then have "[b ! 4, b ! 5, b ! 6, b ! 7] = u32_to_be_bytes MAGIC_COOKIE"
    by (simp only: u32_to_from_be)
  then show ?thesis by (simp add: u32_to_be_bytes_def MAGIC_COOKIE_def)
qed

end
