(* ===== verification/Magicsock.thy ===== *)
theory Magicsock
  imports Disco Stun
begin

text \<open>
  The magic socket of \<open>crates/ts-magicsock/src/lib.rs\<close>: the path table of each peer, the
  control calls, the receive worker with its three-way demultiplexing, Ping, Pong and
  CallMeMaybe handling, the ping pump and the CallMeMaybe pump. \<open>HashMap\<close>s are association
  lists, whose order is the iteration order. The two UDP sockets, the operating system's
  random bytes, the outcome of a send and the receiver of forwarded datagrams are
  parameters (\<open>net_env\<close>); every datagram put on a socket is recorded. A call holds the
  state for its whole length; the points in time it reads are its arguments.
\<close>

section \<open>Constants and state\<close>

definition PING_INTERVAL :: duration where "PING_INTERVAL = secs 5"
definition HEARTBEAT_INTERVAL :: duration where "HEARTBEAT_INTERVAL = secs 3"
definition ALIVE_TTL :: duration where "ALIVE_TTL = secs 30"
definition MAX_PEER_PATHS :: nat where "MAX_PEER_PATHS = 24"
definition LEARNED_SRC_TTL :: duration where "LEARNED_SRC_TTL = secs (10 * 60)"
definition SEND_LOG_CAP :: nat where "SEND_LOG_CAP = 256"
definition CMM_TRIGGER_AFTER :: duration where "CMM_TRIGGER_AFTER = secs 10"
definition CMM_RATE_LIMIT :: duration where "CMM_RATE_LIMIT = secs 5"
definition CMM_MAX_ENDPOINTS :: nat where "CMM_MAX_ENDPOINTS = 16"

datatype net_error = AddrNotAvailable | OsError nat

datatype magic_error =
  MagicIo net_error | MagicDisco disco_error | TransportMismatch | UnknownPeer
  | StunParseFailed | NoEndpoints | PingTimeout

text \<open>\<open>PingResult\<close> and \<open>StunResult\<close>.\<close>

type_synonym probe_result = "magic_error + (sock_addr \<times> duration)"

datatype fd = Fd4 | Fd6

record path_state =
  last_ping_at :: "instant option"
  last_pong_at :: "instant option"
  outstanding_tx_id :: "bytes option"
  path_rtt :: "duration option"
  last_src_ping_at :: "instant option"

definition path_new :: path_state where
  "path_new = \<lparr>last_ping_at = None, last_pong_at = None, outstanding_tx_id = None,
     path_rtt = None, last_src_ping_at = None\<rparr>"

definition path_alive :: "instant \<Rightarrow> path_state \<Rightarrow> bool" where
  "path_alive now p =
     (case last_pong_at p of None \<Rightarrow> False | Some t \<Rightarrow> duration_since now t < ALIVE_TTL)"

record peer_state =
  disco_pub :: key32
  endpoints :: "sock_addr list"
  paths :: "(sock_addr \<times> path_state) list"

text \<open>A result channel is a number; \<open>results\<close> below records what is sent on it.\<close>

record stun_inflight =
  si_sent_at :: instant
  si_chan :: nat

record ping_inflight =
  pi_sent_at :: instant
  pi_target :: sock_addr
  pi_chan :: nat

record magic_state =
  ms_peers :: "(key32 \<times> peer_state) list"
  disco_to_node :: "(key32 \<times> key32) list"
  stun_outstanding :: "(bytes \<times> stun_inflight) list"
  ping_outstanding :: "(bytes \<times> ping_inflight) list"
  local_endpoints :: "sock_addr list"
  last_cmm_sent_at :: "(key32 \<times> instant) list"
  cmm_pending :: "(key32 \<times> bytes) list"

definition magic_state_default :: magic_state where
  "magic_state_default = \<lparr>ms_peers = [], disco_to_node = [], stun_outstanding = [],
     ping_outstanding = [], local_endpoints = [], last_cmm_sent_at = [], cmm_pending = []\<rparr>"

record send_record =
  sr_dst :: sock_addr
  sr_byte0 :: u8
  sr_req :: nat
  sr_ret :: "net_error + nat"

text \<open>
  The socket with what it has done: the locked state, the send queue and log, the random
  fills drawn so far, the datagrams put on a socket, the results sent to waiting callers
  and the datagrams forwarded to the WireGuard engine.
\<close>

record magic_sock =
  ms_st :: magic_state
  tx_queue :: "(sock_addr \<times> bytes) list"
  send_log :: "send_record list"
  shutdown_flag :: bool
  rand_ct :: nat
  chan_ct :: nat
  sent :: "(fd \<times> sock_addr \<times> bytes) list"
  results :: "(nat \<times> probe_result) list"
  forwarded :: "(sock_addr \<times> bytes) list"

record net_env =
  has_v6 :: bool
  ne_box :: salsa_box
  our_disco_priv :: key32
  our_node_pub :: key32
  os_fill :: "nat \<Rightarrow> nat \<Rightarrow> bytes"
  os_send :: "nat \<Rightarrow> sock_addr \<Rightarrow> bytes \<Rightarrow> net_error + nat"
  non_disco_accepts :: "(sock_addr \<times> bytes) list \<Rightarrow> bool"

definition magic_bind :: magic_sock where
  "magic_bind = \<lparr>ms_st = magic_state_default, tx_queue = [], send_log = [], shutdown_flag = False,
     rand_ct = 0, chan_ct = 0, sent = [], results = [], forwarded = []\<rparr>"

definition fill_bytes :: "net_env \<Rightarrow> nat \<Rightarrow> magic_sock \<Rightarrow> magic_sock \<times> bytes" where
  "fill_bytes env n m = (m\<lparr>rand_ct := Suc (rand_ct m)\<rparr>, os_fill env (rand_ct m) n)"

definition socket_send :: "net_env \<Rightarrow> fd \<Rightarrow> sock_addr \<Rightarrow> bytes \<Rightarrow> magic_sock
    \<Rightarrow> magic_sock \<times> (net_error + nat)" where
  "socket_send env fd dst b m =
     (m\<lparr>sent := sent m @ [(fd, dst, b)]\<rparr>, os_send env (length (sent m)) dst b)"

definition for_addr :: "net_env \<Rightarrow> sock_addr \<Rightarrow> net_error + fd" where
  "for_addr env dst =
     (if is_ipv4 dst then Inr Fd4 else ok_or (if has_v6 env then Some Fd6 else None) AddrNotAvailable)"

definition push_send_record :: "send_record \<Rightarrow> magic_sock \<Rightarrow> magic_sock" where
  "push_send_record rec m =
     (let g = send_log m; g = (if SEND_LOG_CAP \<le> length g then drop 1 g else g) in
      m\<lparr>send_log := g @ [rec]\<rparr>)"

section \<open>Control calls\<close>

text \<open>\<open>entry(dst).or_insert_with(PathState::new)\<close>.\<close>

definition ensure_path :: "sock_addr \<Rightarrow> (sock_addr \<times> path_state) list \<Rightarrow> (sock_addr \<times> path_state) list" where
  "ensure_path a ps = (case map_of ps a of None \<Rightarrow> ps @ [(a, path_new)] | Some _ \<Rightarrow> ps)"

definition learned_fresh :: "instant \<Rightarrow> path_state \<Rightarrow> bool" where
  "learned_fresh now p =
     (case last_src_ping_at p of None \<Rightarrow> False | Some t \<Rightarrow> duration_since now t < LEARNED_SRC_TTL)"

definition ms_upsert_peer ::
  "instant \<Rightarrow> key32 \<Rightarrow> key32 \<Rightarrow> sock_addr list \<Rightarrow> magic_state \<Rightarrow> magic_state" where
  "ms_upsert_peer now node_pub disco eps s =
     (let d2n = filter (\<lambda>(d, n). n \<noteq> node_pub) (disco_to_node s);
          d2n = AList.update disco node_pub d2n;
          entry = (case map_of (ms_peers s) node_pub of
                     Some p \<Rightarrow> p
                   | None \<Rightarrow> \<lparr>disco_pub = disco, endpoints = [], paths = []\<rparr>);
          entry = entry\<lparr>disco_pub := disco\<rparr>;
          entry = entry\<lparr>paths := filter (\<lambda>(dst, st). dst \<in> set eps \<or> learned_fresh now st) (paths entry)\<rparr>;
          preserved = filter (\<lambda>a. a \<notin> set eps) (map fst (paths entry));
          entry = entry\<lparr>endpoints := eps @ preserved\<rparr>;
          entry = entry\<lparr>paths := fold ensure_path eps (paths entry)\<rparr> in
      s\<lparr>ms_peers := AList.update node_pub entry (ms_peers s), disco_to_node := d2n\<rparr>)"

definition ms_remove_peer :: "key32 \<Rightarrow> magic_state \<Rightarrow> magic_state" where
  "ms_remove_peer node_pub s =
     (case map_of (ms_peers s) node_pub of
        None \<Rightarrow> s
      | Some p \<Rightarrow> s\<lparr>ms_peers := AList.delete node_pub (ms_peers s),
                    disco_to_node := AList.delete (disco_pub p) (disco_to_node s)\<rparr>)"

definition alive_endpoint :: "instant \<Rightarrow> key32 \<Rightarrow> magic_state \<Rightarrow> sock_addr option" where
  "alive_endpoint now node_pub s =
     Option.bind (map_of (ms_peers s) node_pub) (\<lambda>peer.
       map_option fst
         (min_by_key (\<lambda>(_, st). case path_rtt st of Some r \<Rightarrow> r | None \<Rightarrow> secs 60)
            (filter (\<lambda>(_, st). path_alive now st) (paths peer))))"

definition peer_rtt :: "instant \<Rightarrow> key32 \<Rightarrow> magic_state \<Rightarrow> duration option" where
  "peer_rtt now node_pub s =
     Option.bind (map_of (ms_peers s) node_pub) (\<lambda>peer.
       min_by_key (\<lambda>r. r)
         (List.map_filter path_rtt (filter (path_alive now) (map snd (paths peer)))))"

definition ms_send_to :: "net_env \<Rightarrow> sock_addr \<Rightarrow> bytes \<Rightarrow> magic_sock \<Rightarrow> magic_sock \<times> (net_error + nat)" where
  "ms_send_to env dst b m =
     (case for_addr env dst of
        Inl e \<Rightarrow> (m, Inl e)
      | Inr _ \<Rightarrow> (m\<lparr>tx_queue := tx_queue m @ [(dst, b)]\<rparr>, Inr (length b)))"

definition take_send_records :: "magic_sock \<Rightarrow> magic_sock \<times> send_record list" where
  "take_send_records m = (m\<lparr>send_log := []\<rparr>, send_log m)"

definition send_direct :: "net_env \<Rightarrow> sock_addr \<Rightarrow> bytes \<Rightarrow> magic_sock \<Rightarrow> magic_sock \<times> (net_error + nat)" where
  "send_direct env dst b m =
     (case for_addr env dst of Inl e \<Rightarrow> (m, Inl e) | Inr fd \<Rightarrow> socket_send env fd dst b m)"

definition map_st :: "(magic_state \<Rightarrow> magic_state) \<Rightarrow> magic_sock \<Rightarrow> magic_sock" where
  "map_st f m = m\<lparr>ms_st := f (ms_st m)\<rparr>"

definition stun_probe :: "net_env \<Rightarrow> instant \<Rightarrow> sock_addr \<Rightarrow> magic_sock \<Rightarrow> magic_sock \<times> (magic_error + nat)" where
  "stun_probe env now target m =
     (let (m, tx_id) = fill_bytes env 12 m;
          ch = chan_ct m;
          m = m\<lparr>chan_ct := Suc ch\<rparr>;
          req = encode_binding_request tx_id;
          m = map_st (\<lambda>s. s\<lparr>stun_outstanding :=
                AList.update tx_id \<lparr>si_sent_at = now, si_chan = ch\<rparr> (stun_outstanding s)\<rparr>) m;
          rollback = map_st (\<lambda>s. s\<lparr>stun_outstanding := AList.delete tx_id (stun_outstanding s)\<rparr>) in
      case for_addr env target of
        Inl e \<Rightarrow> (rollback m, Inl (MagicIo e))
      | Inr fd \<Rightarrow>
          (case socket_send env fd target req m of
             (m, Inl e) \<Rightarrow> (rollback m, Inl (MagicIo e))
           | (m, Inr _) \<Rightarrow> (m, Inr ch)))"

definition ms_shutdown :: "magic_sock \<Rightarrow> magic_sock" where
  "ms_shutdown m = m\<lparr>shutdown_flag := True\<rparr>"

definition set_local_endpoints :: "sock_addr list \<Rightarrow> magic_state \<Rightarrow> magic_state" where
  "set_local_endpoints eps s = s\<lparr>local_endpoints := eps\<rparr>"

definition take_pending_cmm :: "magic_sock \<Rightarrow> magic_sock \<times> (key32 \<times> bytes) list" where
  "take_pending_cmm m = (map_st (\<lambda>s. s\<lparr>cmm_pending := []\<rparr>) m, cmm_pending (ms_st m))"

section \<open>Sealing and sending\<close>

definition encode_and_send_ping ::
  "net_env \<Rightarrow> fd \<Rightarrow> key32 \<Rightarrow> sock_addr \<Rightarrow> bytes \<Rightarrow> magic_sock \<Rightarrow> magic_sock \<times> (magic_error + bytes)" where
  "encode_and_send_ping env fd peer_disco dst tx_id m =
     (let (m, n) = fill_bytes env nonce_len m;
          body_size = ping_size_with_padding 0;
          buf = replicate (size_for_message body_size) 0 in
      case seal_message (ne_box env) MtPing ping_cast ping_bytes
             (\<lambda>p. p\<lparr>ping_tx_id := tx_id, ping_node_key := our_node_pub env\<rparr>) buf
             (our_disco_priv env) peer_disco n of
        Inl e \<Rightarrow> (m, Inl (MagicDisco e))
      | Inr buf \<Rightarrow>
          (case socket_send env fd dst buf m of
             (m, Inl e) \<Rightarrow> (m, Inl (MagicIo e))
           | (m, Inr _) \<Rightarrow> (m, Inr tx_id)))"

definition send_ping ::
  "net_env \<Rightarrow> fd \<Rightarrow> key32 \<Rightarrow> sock_addr \<Rightarrow> magic_sock \<Rightarrow> magic_sock \<times> (magic_error + bytes)" where
  "send_ping env fd peer_disco dst m =
     (let (m, tx_id) = fill_bytes env 12 m in encode_and_send_ping env fd peer_disco dst tx_id m)"

definition send_pong :: "net_env \<Rightarrow> fd \<Rightarrow> key32 \<Rightarrow> sock_addr \<Rightarrow> bytes \<Rightarrow> magic_sock \<Rightarrow> magic_sock" where
  "send_pong env fd peer_disco src tx_id m =
     (let (m, n) = fill_bytes env nonce_len m;
          buf = replicate (size_for_message pong_size) 0 in
      case seal_message (ne_box env) MtPong pong_cast pong_bytes
             (\<lambda>p. p\<lparr>pong_tx_id := tx_id, pong_src := from_socket_addr src\<rparr>) buf
             (our_disco_priv env) peer_disco n of
        Inl _ \<Rightarrow> m
      | Inr buf \<Rightarrow> fst (socket_send env fd src buf m))"

definition fill_endpoints :: "sock_addr list \<Rightarrow> call_me_maybe \<Rightarrow> call_me_maybe" where
  "fill_endpoints eps es =
     map (\<lambda>i. if i < length eps then from_socket_addr (eps ! i) else es ! i) [0..<length es]"

definition build_call_me_maybe ::
  "net_env \<Rightarrow> key32 \<Rightarrow> sock_addr list \<Rightarrow> magic_sock \<Rightarrow> magic_sock \<times> (magic_error + bytes)" where
  "build_call_me_maybe env peer_disco eps m =
     (let (m, n) = fill_bytes env nonce_len m;
          body_size = cmm_size_for_endpoint_count (length eps);
          buf = replicate (size_for_message body_size) 0 in
      case seal_message (ne_box env) MtCallMeMaybe cmm_cast cmm_bytes (fill_endpoints eps) buf
             (our_disco_priv env) peer_disco n of
        Inl e \<Rightarrow> (m, Inl (MagicDisco e))
      | Inr buf \<Rightarrow> (m, Inr buf))"

text \<open>
  \<open>ping_now\<close> up to the wait, and what it does with what the wait returned: \<open>None\<close> is a
  timeout.
\<close>

definition ping_now_start ::
  "net_env \<Rightarrow> instant \<Rightarrow> instant \<Rightarrow> key32 \<Rightarrow> magic_sock \<Rightarrow> magic_sock \<times> (magic_error + (nat \<times> bytes))" where
  "ping_now_start env t0 t1 node_pub m =
     (case map_of (ms_peers (ms_st m)) node_pub of
        None \<Rightarrow> (m, Inl UnknownPeer)
      | Some peer \<Rightarrow>
          (let alive = map_option fst (find (\<lambda>(_, st). path_alive t0 st) (paths peer));
               first = (case endpoints peer of [] \<Rightarrow> None | a # _ \<Rightarrow> Some a) in
           case (case alive of Some a \<Rightarrow> Some a | None \<Rightarrow> first) of
             None \<Rightarrow> (m, Inl NoEndpoints)
           | Some target \<Rightarrow>
               (let (m, tx_id) = fill_bytes env 12 m;
                    ch = chan_ct m;
                    m = m\<lparr>chan_ct := Suc ch\<rparr>;
                    m = map_st (\<lambda>s. s\<lparr>ping_outstanding :=
                          AList.update tx_id \<lparr>pi_sent_at = t1, pi_target = target, pi_chan = ch\<rparr>
                            (ping_outstanding s)\<rparr>) m;
                    rollback = map_st (\<lambda>s. s\<lparr>ping_outstanding := AList.delete tx_id (ping_outstanding s)\<rparr>) in
                case for_addr env target of
                  Inl e \<Rightarrow> (rollback m, Inl (MagicIo e))
                | Inr fd \<Rightarrow>
                    (case encode_and_send_ping env fd (disco_pub peer) target tx_id m of
                       (m, Inl e) \<Rightarrow> (rollback m, Inl e)
                     | (m, Inr _) \<Rightarrow> (m, Inr (ch, tx_id))))))"

definition ping_now_finish :: "bytes \<Rightarrow> probe_result option \<Rightarrow> magic_sock \<Rightarrow> magic_sock \<times> probe_result" where
  "ping_now_finish tx_id received m =
     (case received of
        Some res \<Rightarrow> (m, res)
      | None \<Rightarrow> (map_st (\<lambda>s. s\<lparr>ping_outstanding := AList.delete tx_id (ping_outstanding s)\<rparr>) m,
                 Inl PingTimeout))"

section \<open>Receiving\<close>

definition modify_ms_peer :: "key32 \<Rightarrow> (peer_state \<Rightarrow> peer_state) \<Rightarrow> magic_state \<Rightarrow> magic_state" where
  "modify_ms_peer node f s =
     (case map_of (ms_peers s) node of
        None \<Rightarrow> s
      | Some p \<Rightarrow> s\<lparr>ms_peers := AList.update node (f p) (ms_peers s)\<rparr>)"

text \<open>What \<open>ping_pump\<close> and \<open>handle_call_me_maybe\<close> record of a ping they sent.\<close>

definition record_ping :: "instant \<Rightarrow> key32 \<Rightarrow> sock_addr \<Rightarrow> bytes \<Rightarrow> magic_state \<Rightarrow> magic_state" where
  "record_ping now node a tx_id =
     modify_ms_peer node (\<lambda>p. p\<lparr>paths :=
       AList.map_entry a (\<lambda>st. st\<lparr>last_ping_at := Some now, outstanding_tx_id := Some tx_id\<rparr>)
         (ensure_path a (paths p))\<rparr>)"

text \<open>The Ping arm: the source of a ping from a known sender becomes a candidate.\<close>

definition learn_source :: "instant \<Rightarrow> key32 \<Rightarrow> sock_addr \<Rightarrow> magic_state \<Rightarrow> magic_state" where
  "learn_source now node src =
     modify_ms_peer node (\<lambda>p.
       case map_of (paths p) src of
         Some _ \<Rightarrow> p\<lparr>paths := AList.map_entry src (\<lambda>st. st\<lparr>last_src_ping_at := Some now\<rparr>) (paths p)\<rparr>
       | None \<Rightarrow>
           if length (paths p) < MAX_PEER_PATHS then
             p\<lparr>endpoints := (if src \<in> set (endpoints p) then endpoints p else endpoints p @ [src]),
               paths := paths p @ [(src, path_new\<lparr>last_src_ping_at := Some now\<rparr>)]\<rparr>
           else p)"

definition ping_source :: "instant \<Rightarrow> key32 \<Rightarrow> sock_addr \<Rightarrow> magic_sock \<Rightarrow> magic_sock" where
  "ping_source now sender src m =
     (case map_of (disco_to_node (ms_st m)) sender of
        Some node \<Rightarrow> map_st (learn_source now node src) m
      | None \<Rightarrow> m)"

text \<open>The Pong arm: a waiting \<open>ping_now\<close> first, then the path the pong answers.\<close>

definition fulfil_ping :: "instant \<Rightarrow> bytes \<Rightarrow> magic_sock \<Rightarrow> magic_sock" where
  "fulfil_ping now tx_id m =
     (case map_of (ping_outstanding (ms_st m)) tx_id of
        None \<Rightarrow> m
      | Some i \<Rightarrow>
          (map_st (\<lambda>s. s\<lparr>ping_outstanding := AList.delete tx_id (ping_outstanding s)\<rparr>) m)
            \<lparr>results := results m @ [(pi_chan i, Inr (pi_target i, duration_since now (pi_sent_at i)))]\<rparr>)"

definition pong_path :: "instant \<Rightarrow> bytes \<Rightarrow> path_state \<Rightarrow> path_state" where
  "pong_path now tx_id st =
     (if outstanding_tx_id st = Some tx_id then
        st\<lparr>last_pong_at := Some now,
           outstanding_tx_id := None,
           path_rtt := Some (case last_ping_at st of Some t \<Rightarrow> duration_since now t | None \<Rightarrow> 0)\<rparr>
      else st)"

definition accept_pong :: "instant \<Rightarrow> key32 \<Rightarrow> sock_addr \<Rightarrow> bytes \<Rightarrow> magic_state \<Rightarrow> magic_state" where
  "accept_pong now sender src tx_id s =
     (case map_of (disco_to_node s) sender of
        None \<Rightarrow> s
      | Some node \<Rightarrow>
          modify_ms_peer node (\<lambda>p. p\<lparr>paths := AList.map_entry src (pong_path now tx_id) (paths p)\<rparr>) s)"

definition merge_endpoint :: "sock_addr \<Rightarrow> peer_state \<Rightarrow> peer_state" where
  "merge_endpoint a p =
     p\<lparr>endpoints := (if a \<in> set (endpoints p) then endpoints p else endpoints p @ [a]),
       paths := ensure_path a (paths p)\<rparr>"

text \<open>The pings a CallMeMaybe triggers, one for each advertised endpoint with a socket.\<close>

fun immediate_pings :: "net_env \<Rightarrow> instant \<Rightarrow> key32 \<Rightarrow> key32 \<Rightarrow> sock_addr list \<Rightarrow> magic_sock \<Rightarrow> magic_sock" where
  "immediate_pings env now node peer_disco [] m = m"
| "immediate_pings env now node peer_disco (a # eps) m =
     (case for_addr env a of
        Inl _ \<Rightarrow> immediate_pings env now node peer_disco eps m
      | Inr fd \<Rightarrow>
          (case send_ping env fd peer_disco a m of
             (m, Inr tx_id) \<Rightarrow>
               immediate_pings env now node peer_disco eps (map_st (record_ping now node a tx_id) m)
           | (m, Inl _) \<Rightarrow> immediate_pings env now node peer_disco eps m))"

definition handle_call_me_maybe ::
  "net_env \<Rightarrow> instant \<Rightarrow> key32 \<Rightarrow> call_me_maybe \<Rightarrow> magic_sock \<Rightarrow> magic_sock" where
  "handle_call_me_maybe env now sender cmm m =
     (let advertised = map socket_addr cmm in
      case map_of (disco_to_node (ms_st m)) sender of
        None \<Rightarrow> m
      | Some node \<Rightarrow>
          (case map_of (ms_peers (ms_st m)) node of
             None \<Rightarrow> m
           | Some peer \<Rightarrow>
               immediate_pings env now node (disco_pub peer) advertised
                 (map_st (modify_ms_peer node (fold merge_endpoint advertised)) m)))"

definition handle_disco :: "net_env \<Rightarrow> instant \<Rightarrow> fd \<Rightarrow> bytes \<Rightarrow> sock_addr \<Rightarrow> magic_sock \<Rightarrow> magic_sock" where
  "handle_disco env now fd b src m =
     (case from_encrypted_bytes b of
        Inl _ \<Rightarrow> m
      | Inr encrypted \<Rightarrow>
          (let sender = sender_pub (pkt_header encrypted) in
           case decrypt_in_place (ne_box env) encrypted (our_disco_priv env) of
             Inl _ \<Rightarrow> m
           | Inr plaintext \<Rightarrow>
               (case packet_ty plaintext of
                  Some MtPing \<Rightarrow>
                    (case as_msg MtPing ping_cast plaintext of
                       None \<Rightarrow> m
                     | Some ping \<Rightarrow>
                         send_pong env fd sender src (ping_tx_id ping) (ping_source now sender src m))
                | Some MtPong \<Rightarrow>
                    (case as_msg MtPong pong_cast plaintext of
                       None \<Rightarrow> m
                     | Some pong \<Rightarrow>
                         map_st (accept_pong now sender src (pong_tx_id pong))
                           (fulfil_ping now (pong_tx_id pong) m))
                | Some MtCallMeMaybe \<Rightarrow>
                    (case as_msg MtCallMeMaybe cmm_cast plaintext of
                       None \<Rightarrow> m
                     | Some cmm \<Rightarrow> handle_call_me_maybe env now sender cmm m)
                | Some _ \<Rightarrow> m
                | None \<Rightarrow> m)))"

definition handle_disco_from_derp :: "net_env \<Rightarrow> instant \<Rightarrow> bytes \<Rightarrow> magic_sock \<Rightarrow> magic_sock" where
  "handle_disco_from_derp env now b m =
     (case from_encrypted_bytes b of
        Inl _ \<Rightarrow> m
      | Inr encrypted \<Rightarrow>
          (let sender = sender_pub (pkt_header encrypted) in
           case decrypt_in_place (ne_box env) encrypted (our_disco_priv env) of
             Inl _ \<Rightarrow> m
           | Inr plaintext \<Rightarrow>
               (case packet_ty plaintext of
                  Some MtCallMeMaybe \<Rightarrow>
                    (case as_msg MtCallMeMaybe cmm_cast plaintext of
                       None \<Rightarrow> m
                     | Some cmm \<Rightarrow> handle_call_me_maybe env now sender cmm m)
                | Some _ \<Rightarrow> m
                | None \<Rightarrow> m)))"

definition handle_stun_response :: "instant \<Rightarrow> bytes \<Rightarrow> magic_sock \<Rightarrow> magic_sock" where
  "handle_stun_response now b m =
     (case tx_id_from b of
        None \<Rightarrow> m
      | Some tx_id \<Rightarrow>
          (case map_of (stun_outstanding (ms_st m)) tx_id of
             None \<Rightarrow> m
           | Some i \<Rightarrow>
               (let m = map_st (\<lambda>s. s\<lparr>stun_outstanding := AList.delete tx_id (stun_outstanding s)\<rparr>) m;
                    rtt = duration_since now (si_sent_at i);
                    res = (case parse_binding_response b of
                             Some reflected \<Rightarrow> Inr (reflected, rtt)
                           | None \<Rightarrow> Inl StunParseFailed) in
                m\<lparr>results := results m @ [(si_chan i, res)]\<rparr>)))"

definition handle_recv :: "net_env \<Rightarrow> instant \<Rightarrow> fd \<Rightarrow> bytes \<Rightarrow> sock_addr \<Rightarrow> magic_sock \<Rightarrow> magic_sock" where
  "handle_recv env now fd b src m =
     (if looks_like_stun b then handle_stun_response now b m
      else if \<not> is_disco_message b then
        (if non_disco_accepts env (forwarded m) then m\<lparr>forwarded := forwarded m @ [(src, b)]\<rparr> else m)
      else handle_disco env now fd b src m)"

section \<open>The ping pump\<close>

definition path_needs_ping :: "path_state option \<Rightarrow> instant \<Rightarrow> bool" where
  "path_needs_ping path now =
     (case path of
        None \<Rightarrow> True
      | Some p \<Rightarrow>
          (let interval = (if path_alive now p then HEARTBEAT_INTERVAL else PING_INTERVAL) in
           case last_ping_at p of None \<Rightarrow> True | Some t \<Rightarrow> interval \<le> duration_since now t))"

definition ping_targets :: "instant \<Rightarrow> magic_state \<Rightarrow> (key32 \<times> key32 \<times> sock_addr) list" where
  "ping_targets now s =
     concat (map (\<lambda>(node, p). map (\<lambda>a. (node, disco_pub p, a))
               (filter (\<lambda>a. path_needs_ping (map_of (paths p) a) now) (endpoints p)))
             (ms_peers s))"

fun ping_all :: "net_env \<Rightarrow> instant \<Rightarrow> (key32 \<times> key32 \<times> sock_addr) list \<Rightarrow> magic_sock \<Rightarrow> magic_sock" where
  "ping_all env now [] m = m"
| "ping_all env now ((node, peer_disco, a) # ts) m =
     (case for_addr env a of
        Inl _ \<Rightarrow> ping_all env now ts m
      | Inr fd \<Rightarrow>
          (case send_ping env fd peer_disco a m of
             (m, Inl _) \<Rightarrow> ping_all env now ts m
           | (m, Inr tx_id) \<Rightarrow> ping_all env now ts (map_st (record_ping now node a tx_id) m)))"

text \<open>When a peer is due a CallMeMaybe.\<close>

definition cmm_due :: "instant \<Rightarrow> magic_state \<Rightarrow> key32 \<times> peer_state \<Rightarrow> bool" where
  "cmm_due now s np =
     (let (node, peer) = np in
      if endpoints peer = [] then False
      else if list_ex (path_alive now) (map snd (paths peer)) then False
      else
        let earliest = min_by_key (\<lambda>t. t) (List.map_filter last_ping_at (map snd (paths peer)));
            stale_long_enough = (case earliest of
                None \<Rightarrow> False | Some t \<Rightarrow> CMM_TRIGGER_AFTER \<le> duration_since now t);
            too_soon = (case map_of (last_cmm_sent_at s) node of
                None \<Rightarrow> False | Some t \<Rightarrow> duration_since now t < CMM_RATE_LIMIT) in
        stale_long_enough \<and> \<not> too_soon)"

fun queue_cmms :: "net_env \<Rightarrow> instant \<Rightarrow> sock_addr list \<Rightarrow> (key32 \<times> key32) list \<Rightarrow> magic_sock \<Rightarrow> magic_sock" where
  "queue_cmms env now eps [] m = m"
| "queue_cmms env now eps ((node, peer_disco) # ts) m =
     (case build_call_me_maybe env peer_disco eps m of
        (m, Inl _) \<Rightarrow> queue_cmms env now eps ts m
      | (m, Inr b) \<Rightarrow>
          queue_cmms env now eps ts
            (map_st (\<lambda>s. s\<lparr>last_cmm_sent_at := AList.update node now (last_cmm_sent_at s),
                            cmm_pending := cmm_pending s @ [(node, b)]\<rparr>) m))"

definition cmm_pump :: "net_env \<Rightarrow> instant \<Rightarrow> magic_sock \<Rightarrow> magic_sock" where
  "cmm_pump env now m =
     (let s = ms_st m in
      if local_endpoints s = [] then m
      else
        let to_cmm = map (\<lambda>(node, peer). (node, disco_pub peer)) (filter (cmm_due now s) (ms_peers s)) in
        if to_cmm = [] then m
        else queue_cmms env now (take CMM_MAX_ENDPOINTS (local_endpoints s)) to_cmm m)"

definition ping_pump :: "net_env \<Rightarrow> instant \<Rightarrow> magic_sock \<Rightarrow> magic_sock" where
  "ping_pump env now m = cmm_pump env now (ping_all env now (ping_targets now (ms_st m)) m)"

section \<open>The worker\<close>

text \<open>
  \<open>drain_tx\<close>: the datagrams queued by \<open>send_to\<close> leave in order, each with a record of what
  the operating system reported; without an IPv6 socket the IPv4 socket is tried.
\<close>

definition drain_one :: "net_env \<Rightarrow> sock_addr \<times> bytes \<Rightarrow> magic_sock \<Rightarrow> magic_sock" where
  "drain_one env item m =
     (let (dst, b) = item;
          fd = (if is_ipv4 dst then Fd4 else if has_v6 env then Fd6 else Fd4);
          (m, res) = socket_send env fd dst b m in
      push_send_record \<lparr>sr_dst = dst, sr_byte0 = (case b of [] \<Rightarrow> 0 | x # _ \<Rightarrow> x),
        sr_req = length b, sr_ret = res\<rparr> m)"

definition drain_tx :: "net_env \<Rightarrow> magic_sock \<Rightarrow> magic_sock" where
  "drain_tx env m = fold (drain_one env) (tx_queue m) (m\<lparr>tx_queue := []\<rparr>)"

datatype recv_outcome = RecvFrom bytes sock_addr | RecvTimeout | RecvError

text \<open>
  One pass of \<open>worker_loop\<close>; \<open>None\<close> is the end of the loop. The IPv4 worker runs the pump
  and drains the queue, the IPv6 worker does neither.
\<close>

record worker_pass =
  wp_now :: instant
  wp_recv_now :: instant
  wp_recv :: recv_outcome

definition worker_iter :: "net_env \<Rightarrow> fd \<Rightarrow> bool \<Rightarrow> worker_pass \<Rightarrow> instant \<times> magic_sock
    \<Rightarrow> magic_sock \<times> instant option" where
  "worker_iter env fd v4_worker w s =
     (let (last_pump, m) = s in
      if shutdown_flag m then (m, None)
      else
        let due = v4_worker \<and> HEARTBEAT_INTERVAL \<le> duration_since (wp_now w) last_pump;
            m = (if due then ping_pump env (wp_now w) m else m);
            last_pump = (if due then wp_now w else last_pump) in
        case wp_recv w of
          RecvError \<Rightarrow> (m, None)
        | RecvTimeout \<Rightarrow> ((if v4_worker then drain_tx env m else m), Some last_pump)
        | RecvFrom b src \<Rightarrow>
            (let m = handle_recv env (wp_recv_now w) fd b src m in
             ((if v4_worker then drain_tx env m else m), Some last_pump)))"

fun worker_loop :: "net_env \<Rightarrow> fd \<Rightarrow> bool \<Rightarrow> worker_pass list \<Rightarrow> instant \<times> magic_sock \<Rightarrow> magic_sock" where
  "worker_loop env fd v4_worker [] s = snd s"
| "worker_loop env fd v4_worker (w # ws) s =
     (case worker_iter env fd v4_worker w s of
        (m, None) \<Rightarrow> m
      | (m, Some t) \<Rightarrow> worker_loop env fd v4_worker ws (t, m))"

section \<open>Runs\<close>

text \<open>
  What can happen to a socket: the control calls, a relayed Disco frame, and the three
  things a worker pass is made of.
\<close>

datatype magic_event =
    EvUpsert instant key32 key32 "sock_addr list"
  | EvRemove key32
  | EvSendTo sock_addr bytes
  | EvSendDirect sock_addr bytes
  | EvTakeRecords
  | EvStunProbe instant sock_addr
  | EvPingNow instant instant key32
  | EvPingDone bytes "probe_result option"
  | EvLocalEndpoints "sock_addr list"
  | EvTakeCmm
  | EvFromDerp instant bytes
  | EvShutdown
  | EvPump instant
  | EvRecv instant fd bytes sock_addr
  | EvDrain

fun magic_do :: "net_env \<Rightarrow> magic_event \<Rightarrow> magic_sock \<Rightarrow> magic_sock" where
  "magic_do env (EvUpsert now node disco eps) m = map_st (ms_upsert_peer now node disco eps) m"
| "magic_do env (EvRemove node) m = map_st (ms_remove_peer node) m"
| "magic_do env (EvSendTo a b) m = fst (ms_send_to env a b m)"
| "magic_do env (EvSendDirect a b) m = fst (send_direct env a b m)"
| "magic_do env EvTakeRecords m = fst (take_send_records m)"
| "magic_do env (EvStunProbe now a) m = fst (stun_probe env now a m)"
| "magic_do env (EvPingNow t0 t1 node) m = fst (ping_now_start env t0 t1 node m)"
| "magic_do env (EvPingDone tx r) m = fst (ping_now_finish tx r m)"
| "magic_do env (EvLocalEndpoints eps) m = map_st (set_local_endpoints eps) m"
| "magic_do env EvTakeCmm m = fst (take_pending_cmm m)"
| "magic_do env (EvFromDerp now b) m = handle_disco_from_derp env now b m"
| "magic_do env EvShutdown m = ms_shutdown m"
| "magic_do env (EvPump now) m = ping_pump env now m"
| "magic_do env (EvRecv now fd b src) m = handle_recv env now fd b src m"
| "magic_do env EvDrain m = drain_tx env m"

definition magic_run :: "net_env \<Rightarrow> magic_event list \<Rightarrow> magic_sock" where
  "magic_run env evs = fold (magic_do env) evs magic_bind"

definition path_at :: "magic_state \<Rightarrow> key32 \<Rightarrow> sock_addr \<Rightarrow> path_state option" where
  "path_at s n a = Option.bind (map_of (ms_peers s) n) (\<lambda>p. map_of (paths p) a)"

text \<open>A worker is a source of such events: each of its passes is a pump, a datagram and a drain.\<close>

lemma worker_loop_is_run:
  "\<exists>evs. worker_loop env fd v4 ws (t, m) = fold (magic_do env) evs m"
proof (induction ws arbitrary: t m)
  case Nil
  then show ?case by (intro exI [of _ "[]"]) simp
next
  case (Cons w ws)
  obtain m' r where it: "worker_iter env fd v4 w (t, m) = (m', r)" by fastforce
  let ?pump = "if v4 \<and> HEARTBEAT_INTERVAL \<le> duration_since (wp_now w) t then [EvPump (wp_now w)] else []"
  let ?recv = "case wp_recv w of RecvFrom b src \<Rightarrow> [EvRecv (wp_recv_now w) fd b src] | _ \<Rightarrow> []"
  let ?drain = "if v4 \<and> wp_recv w \<noteq> RecvError then [EvDrain] else []"
  have "m' = fold (magic_do env) (if shutdown_flag m then [] else ?pump @ ?recv @ ?drain) m"
    using it by (auto simp: worker_iter_def Let_def split: if_splits recv_outcome.splits)
  then obtain evs0 where evs0: "m' = fold (magic_do env) evs0 m" by blast
  have "\<exists>evs. (case r of None \<Rightarrow> m' | Some u \<Rightarrow> worker_loop env fd v4 ws (u, m'))
      = fold (magic_do env) evs m'"
  proof (cases r)
    case None
    then show ?thesis by (intro exI [of _ "[]"]) simp
  qed (simp add: Cons)
  then obtain evs where "(case r of None \<Rightarrow> m' | Some u \<Rightarrow> worker_loop env fd v4 ws (u, m'))
      = fold (magic_do env) evs m'" by blast
  then have "worker_loop env fd v4 (w # ws) (t, m) = fold (magic_do env) (evs0 @ evs) m"
    using it evs0 by (cases r) simp_all
  then show ?case by blast
qed

text \<open>The invariant of the peer tables.\<close>

definition peer_ok :: "peer_state \<Rightarrow> bool" where
  "peer_ok p \<longleftrightarrow> distinct (map fst (paths p)) \<and> set (endpoints p) = fst ` set (paths p)"

definition magic_ok :: "magic_state \<Rightarrow> bool" where
  "magic_ok s \<longleftrightarrow>
     distinct (map fst (ms_peers s)) \<and> distinct (map fst (disco_to_node s)) \<and>
     (\<forall>n p. map_of (ms_peers s) n = Some p \<longrightarrow> peer_ok p) \<and>
     (\<forall>d n. map_of (disco_to_node s) d = Some n \<longrightarrow>
        (\<exists>p. map_of (ms_peers s) n = Some p \<and> disco_pub p = d))"

section \<open>The invariant\<close>

lemma map_st_simps [simp]:
  "ms_st (map_st f m) = f (ms_st m)"
  "sent (map_st f m) = sent m"
  "rand_ct (map_st f m) = rand_ct m"
  "results (map_st f m) = results m"
  "send_log (map_st f m) = send_log m"
  "tx_queue (map_st f m) = tx_queue m"
  by (simp_all add: map_st_def)

lemma fill_bytes_simps [simp]:
  "ms_st (fst (fill_bytes env n m)) = ms_st m"
  "sent (fst (fill_bytes env n m)) = sent m"
  "send_log (fst (fill_bytes env n m)) = send_log m"
  by (simp_all add: fill_bytes_def)

lemma map_of_ensure_path:
  "map_of (ensure_path a ps) =
    (case map_of ps a of None \<Rightarrow> (map_of ps)(a \<mapsto> path_new) | Some _ \<Rightarrow> map_of ps)"
proof (cases "map_of ps a")
  case None
  then show ?thesis
    by (auto simp: ensure_path_def map_add_def fun_eq_iff split: option.split)
qed (simp add: ensure_path_def)

lemma keys_ensure_path: "fst ` set (ensure_path a ps) = insert a (fst ` set ps)"
proof (cases "map_of ps a")
  case (Some st)
  then have "a \<in> fst ` set ps" by (metis domI dom_map_of_conv_image_fst)
  then show ?thesis using Some by (auto simp: ensure_path_def)
qed (simp add: ensure_path_def)

lemma distinct_ensure_path: "distinct (map fst ps) \<Longrightarrow> distinct (map fst (ensure_path a ps))"
  by (auto simp: ensure_path_def map_of_eq_None_iff split: option.split)

lemma fold_ensure_path:
  "fst ` set (fold ensure_path eps ps) = set eps \<union> fst ` set ps"
  "distinct (map fst ps) \<Longrightarrow> distinct (map fst (fold ensure_path eps ps))"
  by (induction eps arbitrary: ps) (auto simp: keys_ensure_path distinct_ensure_path)

lemma map_fst_map_entry: "map fst (AList.map_entry k f al) = map fst al"
  by (induction al) auto

lemma keys_map_entry: "fst ` set (AList.map_entry k f al) = fst ` set al"
  by (metis list.set_map map_fst_map_entry)

lemmas path_table_simps = keys_ensure_path distinct_ensure_path fold_ensure_path keys_map_entry
  map_fst_map_entry

lemma magic_ok_link:
  "magic_ok s \<Longrightarrow> map_of (disco_to_node s) d = Some n
    \<Longrightarrow> \<exists>p. map_of (ms_peers s) n = Some p \<and> disco_pub p = d"
  unfolding magic_ok_def by blast

lemma magic_ok_distinct: "magic_ok s \<Longrightarrow> distinct (map fst (ms_peers s))"
  unfolding magic_ok_def by blast

lemma magic_ok_peer: "magic_ok s \<Longrightarrow> map_of (ms_peers s) n = Some p \<Longrightarrow> peer_ok p"
  unfolding magic_ok_def by blast

lemma ms_peers_modify:
  "map_of (ms_peers (modify_ms_peer node f s)) n =
    (if n = node then map_option f (map_of (ms_peers s) n) else map_of (ms_peers s) n)"
  by (auto simp: modify_ms_peer_def update_conv' split: option.split)

lemma modify_ms_peer_frame [simp]:
  "disco_to_node (modify_ms_peer node f s) = disco_to_node s"
  "cmm_pending (modify_ms_peer node f s) = cmm_pending s"
  "last_cmm_sent_at (modify_ms_peer node f s) = last_cmm_sent_at s"
  "local_endpoints (modify_ms_peer node f s) = local_endpoints s"
  "ping_outstanding (modify_ms_peer node f s) = ping_outstanding s"
  by (auto simp: modify_ms_peer_def split: option.split)

lemma path_at_modify:
  "path_at (modify_ms_peer node f s) n a =
    (if n = node then Option.bind (map_of (ms_peers s) n) (\<lambda>p. map_of (paths (f p)) a)
     else path_at s n a)"
  by (cases "map_of (ms_peers s) node") (auto simp: path_at_def ms_peers_modify)

lemma modify_ms_peer_ok:
  assumes "magic_ok s" and "\<And>p. peer_ok p \<Longrightarrow> peer_ok (f p)" and "\<And>p. disco_pub (f p) = disco_pub p"
  shows "magic_ok (modify_ms_peer node f s)"
proof -
  have "distinct (map fst (ms_peers (modify_ms_peer node f s)))"
    using assms(1) by (auto simp: modify_ms_peer_def magic_ok_def distinct_update split: option.split)
  moreover have "peer_ok p" if "map_of (ms_peers (modify_ms_peer node f s)) n = Some p" for n p
    using that assms(1,2) by (auto simp: ms_peers_modify magic_ok_def split: if_splits)
  moreover have "\<exists>p. map_of (ms_peers (modify_ms_peer node f s)) n = Some p \<and> disco_pub p = d"
    if l: "map_of (disco_to_node s) d = Some n" for d n
  proof -
    obtain p where "map_of (ms_peers s) n = Some p" "disco_pub p = d"
      using magic_ok_link [OF assms(1) l] by blast
    then show ?thesis
      by (intro exI [of _ "if n = node then f p else p"]) (auto simp: ms_peers_modify assms(3))
  qed
  ultimately show ?thesis
    using assms(1) unfolding magic_ok_def modify_ms_peer_frame by blast
qed

lemma peer_ok_simps:
  "peer_ok (p\<lparr>paths := AList.map_entry a f (paths p)\<rparr>) = peer_ok p"
  "peer_ok p \<Longrightarrow> a \<in> set (endpoints p) \<Longrightarrow> peer_ok (p\<lparr>paths := ensure_path a (paths p)\<rparr>)"
  "peer_ok p \<Longrightarrow> peer_ok (merge_endpoint a p)"
  by (auto simp: peer_ok_def path_table_simps merge_endpoint_def)

lemma magic_ok_cong:
  assumes "ms_peers s' = ms_peers s" and "disco_to_node s' = disco_to_node s"
  shows "magic_ok s' = magic_ok s"
  using assms by (simp add: magic_ok_def)

lemma map_of_filter_value:
  "map_of (filter (\<lambda>(k, v). v \<noteq> x) al) k = Some y \<Longrightarrow> distinct (map fst al)
    \<Longrightarrow> map_of al k = Some y \<and> y \<noteq> x"
  by (auto simp: distinct_map_filter dest!: map_of_SomeD)

lemma ms_upsert_peer_ok:
  assumes "magic_ok s"
  shows "magic_ok (ms_upsert_peer now node disco eps s)"
proof -
  let ?s = "ms_upsert_peer now node disco eps s"
  let ?d2n = "filter (\<lambda>(d, n). n \<noteq> node) (disco_to_node s)"
  define e0 where "e0 = (case map_of (ms_peers s) node of
       Some p \<Rightarrow> p | None \<Rightarrow> \<lparr>disco_pub = disco, endpoints = [], paths = []\<rparr>)"
  define ps where "ps = filter (\<lambda>(dst, st). dst \<in> set eps \<or> learned_fresh now st) (paths e0)"
  define e where "e = \<lparr>disco_pub = disco, endpoints = eps @ filter (\<lambda>a. a \<notin> set eps) (map fst ps),
       paths = fold ensure_path eps ps\<rparr>"
  have s: "?s = s\<lparr>ms_peers := AList.update node e (ms_peers s), disco_to_node := AList.update disco node ?d2n\<rparr>"
    by (cases e0) (simp add: ms_upsert_peer_def Let_def e0_def [symmetric] e_def ps_def)
  have "distinct (map fst (paths e0))"
    using assms by (auto simp: e0_def magic_ok_def peer_ok_def split: option.split)
  then have "distinct (map fst ps)" by (simp add: ps_def distinct_map_filter)
  then have e: "peer_ok e" by (auto simp: peer_ok_def e_def path_table_simps)
  have d: "distinct (map fst ?d2n)" using assms by (simp add: magic_ok_def distinct_map_filter)
  have link: "\<exists>p. map_of (ms_peers ?s) n = Some p \<and> disco_pub p = d"
    if "map_of (disco_to_node ?s) d = Some n" for d n
  proof (cases "d = disco")
    case True
    then show ?thesis using that unfolding s by (simp add: update_conv' e_def)
  next
    case False
    then have "map_of ?d2n d = Some n" using that unfolding s by (simp add: update_conv')
    moreover have "distinct (map fst (disco_to_node s))" using assms by (simp add: magic_ok_def)
    ultimately have "map_of (disco_to_node s) d = Some n" "n \<noteq> node"
      using map_of_filter_value [of node "disco_to_node s" d n] by simp_all
    then show ?thesis using magic_ok_link [OF assms] unfolding s by (simp add: update_conv')
  qed
  moreover have "peer_ok p" if "map_of (ms_peers ?s) n = Some p" for n p
    using that e magic_ok_peer [OF assms] unfolding s by (simp add: update_conv' split: if_splits)
  moreover have "distinct (map fst (ms_peers ?s))" "distinct (map fst (disco_to_node ?s))"
    using assms d unfolding s by (simp_all add: distinct_update magic_ok_def)
  ultimately show ?thesis unfolding magic_ok_def by blast
qed

lemma ms_remove_peer_ok:
  assumes "magic_ok s"
  shows "magic_ok (ms_remove_peer node s)"
proof (cases "map_of (ms_peers s) node")
  case (Some p)
  have "\<exists>q. map_of (AList.delete node (ms_peers s)) n = Some q \<and> disco_pub q = d"
    if "map_of (AList.delete (disco_pub p) (disco_to_node s)) d = Some n" for d n
  proof -
    have "d \<noteq> disco_pub p" "map_of (disco_to_node s) d = Some n"
      using that by (auto simp: delete_conv' split: if_splits)
    moreover from this obtain q where "map_of (ms_peers s) n = Some q" "disco_pub q = d"
      using magic_ok_link [OF assms] by blast
    ultimately show ?thesis using Some by (auto simp: delete_conv')
  qed
  moreover have "peer_ok q" if "map_of (AList.delete node (ms_peers s)) n = Some q" for n q
    using that magic_ok_peer [OF assms] by (simp add: delete_conv' split: if_splits)
  ultimately show ?thesis
    using Some assms by (auto simp: ms_remove_peer_def magic_ok_def distinct_delete)
qed (simp add: ms_remove_peer_def assms)

lemma record_ping_ok:
  assumes "magic_ok s" and "\<And>p. map_of (ms_peers s) node = Some p \<Longrightarrow> a \<in> set (endpoints p)"
  shows "magic_ok (record_ping now node a tx s)"
proof (cases "map_of (ms_peers s) node")
  case None
  then show ?thesis using assms(1) by (simp add: record_ping_def modify_ms_peer_def)
next
  case (Some p)
  let ?upd = "\<lambda>st. st\<lparr>last_ping_at := Some now, outstanding_tx_id := Some tx\<rparr>"
  let ?f = "\<lambda>q. if a \<in> set (endpoints q)
      then q\<lparr>paths := AList.map_entry a ?upd (ensure_path a (paths q))\<rparr> else q"
  have "peer_ok (?f q)" if "peer_ok q" for q
    using that peer_ok_simps(2) [OF that, of a] by (auto simp: peer_ok_def path_table_simps)
  then have "magic_ok (modify_ms_peer node ?f s)"
    by (rule modify_ms_peer_ok [OF assms(1)]) auto
  moreover have "modify_ms_peer node ?f s = record_ping now node a tx s"
    using Some assms(2) by (simp add: record_ping_def modify_ms_peer_def)
  ultimately show ?thesis by simp
qed

lemma ms_peers_record_ping:
  "map_of (ms_peers (record_ping now node a tx s)) n = Some q \<Longrightarrow>
    \<exists>p. map_of (ms_peers s) n = Some p \<and> endpoints q = endpoints p \<and> disco_pub q = disco_pub p"
  by (auto simp: record_ping_def ms_peers_modify split: if_splits)

lemma learn_source_ok: "magic_ok s \<Longrightarrow> magic_ok (learn_source now node src s)"
  unfolding learn_source_def
proof (rule modify_ms_peer_ok)
  fix p :: peer_state assume p: "peer_ok p"
  show "peer_ok (case map_of (paths p) src of
      None \<Rightarrow> if length (paths p) < MAX_PEER_PATHS
        then p\<lparr>endpoints := (if src \<in> set (endpoints p) then endpoints p else endpoints p @ [src]),
             paths := paths p @ [(src, path_new\<lparr>last_src_ping_at := Some now\<rparr>)]\<rparr> else p
    | Some _ \<Rightarrow> p\<lparr>paths := AList.map_entry src (\<lambda>st. st\<lparr>last_src_ping_at := Some now\<rparr>) (paths p)\<rparr>)"
  proof (cases "map_of (paths p) src")
    case None
    then have "src \<notin> fst ` set (paths p)" by (simp add: map_of_eq_None_iff)
    then show ?thesis using p None by (auto simp: peer_ok_def)
  qed (use p in \<open>simp add: peer_ok_simps\<close>)
qed (auto split: option.split)

lemma accept_pong_ok: "magic_ok s \<Longrightarrow> magic_ok (accept_pong now sender src tx s)"
  by (auto simp: accept_pong_def peer_ok_simps intro!: modify_ms_peer_ok split: option.split)

lemma fold_merge_endpoint:
  "disco_pub (fold merge_endpoint eps p) = disco_pub p"
  "set (endpoints (fold merge_endpoint eps p)) = set eps \<union> set (endpoints p)"
  "peer_ok p \<Longrightarrow> peer_ok (fold merge_endpoint eps p)"
  by (induction eps arbitrary: p) (auto simp: merge_endpoint_def peer_ok_simps [unfolded merge_endpoint_def])

definition ping_wire :: "net_env \<Rightarrow> key32 \<Rightarrow> bytes \<Rightarrow> bytes \<Rightarrow> disco_error + bytes" where
  "ping_wire env peer_disco tx_id n =
     seal_message (ne_box env) MtPing ping_cast ping_bytes
       (\<lambda>p. p\<lparr>ping_tx_id := tx_id, ping_node_key := our_node_pub env\<rparr>)
       (replicate (size_for_message (ping_size_with_padding 0)) 0) (our_disco_priv env) peer_disco n"

definition ping_sent :: "net_env \<Rightarrow> magic_sock \<Rightarrow> sock_addr \<Rightarrow> bytes \<Rightarrow> bool" where
  "ping_sent env m a tx \<longleftrightarrow>
     (\<exists>fd d n w. (fd, a, w) \<in> set (sent m) \<and> ping_wire env d tx n = Inr w)"

lemma ping_sentI:
  "(fd, a, w) \<in> set (sent m) \<Longrightarrow> ping_wire env d tx n = Inr w \<Longrightarrow> ping_sent env m a tx"
  unfolding ping_sent_def by blast

lemma encode_and_send_ping_cases:
  assumes "encode_and_send_ping env fd d a tx m = (m', r)"
  shows "ms_st m' = ms_st m \<and> send_log m' = send_log m \<and> (\<exists>ys. sent m' = sent m @ ys) \<and>
    (\<forall>tx'. r = Inr tx' \<longrightarrow> tx' = tx \<and> ping_sent env m' a tx)"
  using assms
  by (auto simp: encode_and_send_ping_def Let_def fill_bytes_def socket_send_def
      ping_wire_def [symmetric] intro!: ping_sentI split: sum.splits prod.splits)

lemma send_ping_cases:
  assumes "send_ping env fd d a m = (m', r)"
  shows "ms_st m' = ms_st m \<and> send_log m' = send_log m \<and> (\<exists>ys. sent m' = sent m @ ys) \<and>
    (\<forall>tx. r = Inr tx \<longrightarrow> ping_sent env m' a tx)"
proof -
  obtain tx where "encode_and_send_ping env fd d a tx (m\<lparr>rand_ct := Suc (rand_ct m)\<rparr>) = (m', r)"
    using assms by (simp add: send_ping_def fill_bytes_def Let_def)
  from encode_and_send_ping_cases [OF this] show ?thesis by auto
qed

lemma ping_sent_mono: "ping_sent env m a tx \<Longrightarrow> set (sent m) \<subseteq> set (sent m') \<Longrightarrow> ping_sent env m' a tx"
  unfolding ping_sent_def by blast

definition targets_known :: "(key32 \<times> key32 \<times> sock_addr) list \<Rightarrow> magic_state \<Rightarrow> bool" where
  "targets_known ts s \<longleftrightarrow> (\<forall>node d a p. (node, d, a) \<in> set ts \<longrightarrow>
     map_of (ms_peers s) node = Some p \<longrightarrow> a \<in> set (endpoints p))"

lemma targets_known_record_ping:
  "targets_known ts s \<Longrightarrow> targets_known ts (record_ping now node a tx s)"
  unfolding targets_known_def using ms_peers_record_ping by metis

lemma ping_all_ok:
  assumes "magic_ok (ms_st m)" and "targets_known ts (ms_st m)"
  shows "magic_ok (ms_st (ping_all env now ts m))"
  using assms
proof (induction env now ts m rule: ping_all.induct)
  case (1 env now m)
  then show ?case by simp
next
  case (2 env now node d a ts m)
  have ts: "targets_known ts (ms_st m)"
    and a: "\<And>p. map_of (ms_peers (ms_st m)) node = Some p \<Longrightarrow> a \<in> set (endpoints p)"
    using "2.prems"(2) unfolding targets_known_def by auto
  show ?case
  proof (cases "for_addr env a")
    case (Inl e)
    then show ?thesis using 2 ts by simp
  next
    case (Inr fd)
    obtain m1 r where send: "send_ping env fd d a m = (m1, r)" by fastforce
    then have st: "ms_st m1 = ms_st m" using send_ping_cases by blast
    show ?thesis
    proof (cases r)
      case (Inl e)
      then show ?thesis using 2 \<open>for_addr env a = Inr fd\<close> send st ts by simp
    next
      case (Inr tx)
      have "magic_ok (record_ping now node a tx (ms_st m))"
        using "2.prems"(1) a by (rule record_ping_ok)
      then show ?thesis
        using 2 \<open>for_addr env a = Inr fd\<close> send st Inr targets_known_record_ping [OF ts] by simp
    qed
  qed
qed

lemma immediate_pings_eq:
  "immediate_pings env now node d eps m = ping_all env now (map (\<lambda>a. (node, d, a)) eps) m"
  by (induction env now node d eps m rule: immediate_pings.induct)
    (simp_all split: sum.split prod.split)

lemma ping_targets_known:
  assumes "distinct (map fst (ms_peers s))"
  shows "targets_known (ping_targets now s) s"
  using assms by (auto simp: targets_known_def ping_targets_def dest: eq_key_imp_eq_value)

lemma handle_call_me_maybe_ok:
  assumes "magic_ok (ms_st m)"
  shows "magic_ok (ms_st (handle_call_me_maybe env now sender cmm m))"
proof (cases "map_of (disco_to_node (ms_st m)) sender")
  case (Some node)
  show ?thesis
  proof (cases "map_of (ms_peers (ms_st m)) node")
    case (Some peer)
    let ?m = "map_st (modify_ms_peer node (fold merge_endpoint (map socket_addr cmm))) m"
    have "magic_ok (ms_st ?m)"
      using assms by (auto intro!: modify_ms_peer_ok simp: fold_merge_endpoint)
    moreover have "targets_known (map (\<lambda>a. (node, disco_pub peer, a)) (map socket_addr cmm)) (ms_st ?m)"
      by (auto simp: targets_known_def ms_peers_modify fold_merge_endpoint)
    ultimately have "magic_ok (ms_st (ping_all env now
        (map (\<lambda>a. (node, disco_pub peer, a)) (map socket_addr cmm)) ?m))"
      by (rule ping_all_ok)
    then show ?thesis
      using Some \<open>map_of (disco_to_node (ms_st m)) sender = Some node\<close>
      by (simp add: handle_call_me_maybe_def Let_def immediate_pings_eq)
  qed (use Some assms in \<open>simp add: handle_call_me_maybe_def Let_def\<close>)
qed (use assms in \<open>simp add: handle_call_me_maybe_def Let_def\<close>)

lemma queue_cmms_frame [frame_simps]:
  "ms_peers (ms_st (queue_cmms env now eps ts m)) = ms_peers (ms_st m)"
  "disco_to_node (ms_st (queue_cmms env now eps ts m)) = disco_to_node (ms_st m)"
  "sent (queue_cmms env now eps ts m) = sent m"
  "send_log (queue_cmms env now eps ts m) = send_log m"
  by (induction env now eps ts m rule: queue_cmms.induct)
    (auto simp: build_call_me_maybe_def Let_def fill_bytes_def split: prod.split sum.split)

lemma cmm_pump_frame [frame_simps]:
  "ms_peers (ms_st (cmm_pump env now m)) = ms_peers (ms_st m)"
  "disco_to_node (ms_st (cmm_pump env now m)) = disco_to_node (ms_st m)"
  "sent (cmm_pump env now m) = sent m"
  "send_log (cmm_pump env now m) = send_log m"
  by (simp_all add: cmm_pump_def Let_def frame_simps)

lemma ping_pump_ok:
  assumes "magic_ok (ms_st m)"
  shows "magic_ok (ms_st (ping_pump env now m))"
proof -
  have "magic_ok (ms_st (ping_all env now (ping_targets now (ms_st m)) m))"
    using assms ping_targets_known [OF magic_ok_distinct [OF assms]] by (rule ping_all_ok)
  then show ?thesis
    unfolding ping_pump_def by (subst magic_ok_cong) (simp_all add: frame_simps)
qed

lemma stun_probe_frame [frame_simps]:
  "ms_peers (ms_st (fst (stun_probe env now a m))) = ms_peers (ms_st m)"
  "disco_to_node (ms_st (fst (stun_probe env now a m))) = disco_to_node (ms_st m)"
  "cmm_pending (ms_st (fst (stun_probe env now a m))) = cmm_pending (ms_st m)"
  "send_log (fst (stun_probe env now a m)) = send_log m"
  "set (sent m) \<subseteq> set (sent (fst (stun_probe env now a m)))"
  by (auto simp: stun_probe_def Let_def fill_bytes_def socket_send_def split: sum.split)

lemma encode_and_send_ping_frame:
  "ms_st (fst (encode_and_send_ping env fd d a tx m)) = ms_st m"
  "send_log (fst (encode_and_send_ping env fd d a tx m)) = send_log m"
  "sent m = xs \<Longrightarrow> set xs \<subseteq> set (sent (fst (encode_and_send_ping env fd d a tx m)))"
  using encode_and_send_ping_cases [OF surjective_pairing, of env fd d a tx m] by auto

lemma ping_now_start_frame [frame_simps]:
  "ms_peers (ms_st (fst (ping_now_start env t0 t1 n m))) = ms_peers (ms_st m)"
  "disco_to_node (ms_st (fst (ping_now_start env t0 t1 n m))) = disco_to_node (ms_st m)"
  "cmm_pending (ms_st (fst (ping_now_start env t0 t1 n m))) = cmm_pending (ms_st m)"
  "send_log (fst (ping_now_start env t0 t1 n m)) = send_log m"
  "set (sent m) \<subseteq> set (sent (fst (ping_now_start env t0 t1 n m)))"
  by (simp_all add: ping_now_start_def Let_def fill_bytes_def case_prod_beta encode_and_send_ping_frame
      split: option.split sum.split)

lemma ping_now_finish_frame [frame_simps]:
  "ms_peers (ms_st (fst (ping_now_finish tx r m))) = ms_peers (ms_st m)"
  "disco_to_node (ms_st (fst (ping_now_finish tx r m))) = disco_to_node (ms_st m)"
  "cmm_pending (ms_st (fst (ping_now_finish tx r m))) = cmm_pending (ms_st m)"
  "send_log (fst (ping_now_finish tx r m)) = send_log m"
  "sent (fst (ping_now_finish tx r m)) = sent m"
  by (auto simp: ping_now_finish_def split: option.split)

lemma send_pong_frame [frame_simps]:
  "ms_st (send_pong env fd d src tx m) = ms_st m"
  "send_log (send_pong env fd d src tx m) = send_log m"
  "set (sent m) \<subseteq> set (sent (send_pong env fd d src tx m))"
  by (auto simp: send_pong_def Let_def fill_bytes_def socket_send_def split: sum.split)

lemma fulfil_ping_frame [frame_simps]:
  "ms_peers (ms_st (fulfil_ping now tx m)) = ms_peers (ms_st m)"
  "disco_to_node (ms_st (fulfil_ping now tx m)) = disco_to_node (ms_st m)"
  "cmm_pending (ms_st (fulfil_ping now tx m)) = cmm_pending (ms_st m)"
  "send_log (fulfil_ping now tx m) = send_log m"
  "sent (fulfil_ping now tx m) = sent m"
  by (auto simp: fulfil_ping_def split: option.split)

lemma handle_stun_response_frame [frame_simps]:
  "ms_peers (ms_st (handle_stun_response now b m)) = ms_peers (ms_st m)"
  "disco_to_node (ms_st (handle_stun_response now b m)) = disco_to_node (ms_st m)"
  "cmm_pending (ms_st (handle_stun_response now b m)) = cmm_pending (ms_st m)"
  "send_log (handle_stun_response now b m) = send_log m"
  "sent (handle_stun_response now b m) = sent m"
  by (auto simp: handle_stun_response_def Let_def split: option.split)

lemma drain_one_frame [frame_simps]:
  "ms_st (drain_one env x m) = ms_st m"
  "sent (drain_one env x m) = sent m @
     [(if is_ipv4 (fst x) then Fd4 else if has_v6 env then Fd6 else Fd4, x)]"
  by (simp_all add: drain_one_def Let_def socket_send_def push_send_record_def split: prod.split)

lemma fold_drain_frame: "ms_st (fold (drain_one env) q m) = ms_st m"
  by (induction q arbitrary: m) (simp_all add: frame_simps)

lemma fold_drain_sent: "set (sent m) \<subseteq> set (sent (fold (drain_one env) q m))"
proof (induction q arbitrary: m)
  case (Cons x q)
  have "set (sent m) \<subseteq> set (sent (drain_one env x m))"
    by (simp only: drain_one_frame set_append Un_upper1)
  also have "\<dots> \<subseteq> set (sent (fold (drain_one env) q (drain_one env x m)))" by (rule Cons.IH)
  finally show ?case by (simp only: fold_Cons comp_apply)
qed simp

lemma drain_tx_frame [frame_simps]:
  "ms_st (drain_tx env m) = ms_st m"
  "set (sent m) \<subseteq> set (sent (drain_tx env m))"
  using fold_drain_sent [of "m\<lparr>tx_queue := []\<rparr>"]
  by (simp_all add: drain_tx_def fold_drain_frame)

text \<open>
  \<open>handle_recv\<close> by what it received: the Disco handler acts on a datagram that opens, and
  then by its type.
\<close>

lemma decrypt_header:
  assumes "wf_packet c" and "decrypt_in_place cb c k = Inr p"
  shows "pkt_header p = pkt_header c"
proof -
  obtain pt where "packet_cast (packet_bytes (c\<lparr>pkt_payload := pt\<rparr>)) = Inr p"
    using assms(2) by (auto simp: decrypt_in_place_def Let_def and_then_Inr_iff split: option.splits)
  moreover have "wf_packet (c\<lparr>pkt_payload := pt\<rparr>)" using assms(1) by (simp add: wf_packet_def)
  ultimately show ?thesis by auto
qed

lemma handle_disco_eq:
  "handle_disco env now fd b src m =
    (case open_packet (ne_box env) (our_disco_priv env) b of
       Inl _ \<Rightarrow> m
     | Inr p \<Rightarrow>
         (let sender = sender_pub (pkt_header p) in
          case packet_ty p of
            Some MtPing \<Rightarrow>
              (case as_msg MtPing ping_cast p of
                 None \<Rightarrow> m
               | Some ping \<Rightarrow>
                   send_pong env fd sender src (ping_tx_id ping)
                     (ping_source now sender src m))
          | Some MtPong \<Rightarrow>
              (case as_msg MtPong pong_cast p of
                 None \<Rightarrow> m
               | Some pong \<Rightarrow>
                   map_st (accept_pong now sender src (pong_tx_id pong))
                     (fulfil_ping now (pong_tx_id pong) m))
          | Some MtCallMeMaybe \<Rightarrow>
              (case as_msg MtCallMeMaybe cmm_cast p of
                 None \<Rightarrow> m
               | Some cmm \<Rightarrow> handle_call_me_maybe env now sender cmm m)
          | _ \<Rightarrow> m))"
proof (cases "from_encrypted_bytes b")
  case (Inl e)
  then show ?thesis by (simp add: handle_disco_def open_packet_def)
next
  case (Inr c)
  then have wf: "wf_packet c" by (auto simp: from_encrypted_bytes_def result_iff)
  show ?thesis
  proof (cases "decrypt_in_place (ne_box env) c (our_disco_priv env)")
    case (Inl e)
    then show ?thesis using Inr by (simp add: handle_disco_def open_packet_def)
  next
    case dec: (Inr p)
    show ?thesis
      using decrypt_header [OF wf dec] Inr dec
      by (simp add: handle_disco_def open_packet_def Let_def split: option.split message_type.split)
  qed
qed

lemma handle_disco_from_derp_eq:
  "handle_disco_from_derp env now b m =
    (case open_packet (ne_box env) (our_disco_priv env) b of
       Inl _ \<Rightarrow> m
     | Inr p \<Rightarrow>
         (case packet_ty p of
            Some MtCallMeMaybe \<Rightarrow>
              (case as_msg MtCallMeMaybe cmm_cast p of
                 None \<Rightarrow> m
               | Some cmm \<Rightarrow> handle_call_me_maybe env now (sender_pub (pkt_header p)) cmm m)
          | _ \<Rightarrow> m))"
proof (cases "from_encrypted_bytes b")
  case (Inl e)
  then show ?thesis by (simp add: handle_disco_from_derp_def open_packet_def)
next
  case (Inr c)
  then have wf: "wf_packet c" by (auto simp: from_encrypted_bytes_def result_iff)
  show ?thesis
  proof (cases "decrypt_in_place (ne_box env) c (our_disco_priv env)")
    case (Inl e)
    then show ?thesis using Inr by (simp add: handle_disco_from_derp_def open_packet_def)
  next
    case dec: (Inr p)
    show ?thesis
      using decrypt_header [OF wf dec] Inr dec
      by (simp add: handle_disco_from_derp_def open_packet_def Let_def
          split: option.split message_type.split)
  qed
qed

text \<open>A property of states that every arm keeps is kept by the handler.\<close>

lemma handle_disco_keeps:
  assumes "P m"
    and "\<And>p ping. open_packet (ne_box env) (our_disco_priv env) b = Inr p \<Longrightarrow>
      as_msg MtPing ping_cast p = Some ping \<Longrightarrow>
      P (send_pong env fd (sender_pub (pkt_header p)) src (ping_tx_id ping)
         (ping_source now (sender_pub (pkt_header p)) src m))"
    and "\<And>p pong. open_packet (ne_box env) (our_disco_priv env) b = Inr p \<Longrightarrow>
      as_msg MtPong pong_cast p = Some pong \<Longrightarrow>
      P (map_st (accept_pong now (sender_pub (pkt_header p)) src (pong_tx_id pong))
          (fulfil_ping now (pong_tx_id pong) m))"
    and "\<And>p cmm. open_packet (ne_box env) (our_disco_priv env) b = Inr p \<Longrightarrow>
      as_msg MtCallMeMaybe cmm_cast p = Some cmm \<Longrightarrow>
      P (handle_call_me_maybe env now (sender_pub (pkt_header p)) cmm m)"
  shows "P (handle_disco env now fd b src m)"
  unfolding handle_disco_eq Let_def
  by (auto split: sum.split option.split message_type.split intro: assms)

lemma handle_disco_from_derp_keeps:
  assumes "P m"
    and "\<And>p cmm. open_packet (ne_box env) (our_disco_priv env) b = Inr p \<Longrightarrow>
      as_msg MtCallMeMaybe cmm_cast p = Some cmm \<Longrightarrow>
      P (handle_call_me_maybe env now (sender_pub (pkt_header p)) cmm m)"
  shows "P (handle_disco_from_derp env now b m)"
  unfolding handle_disco_from_derp_eq
  by (auto split: sum.split option.split message_type.split intro: assms)

lemma ping_source_ok: "magic_ok (ms_st m) \<Longrightarrow> magic_ok (ms_st (ping_source now d src m))"
  by (simp add: ping_source_def learn_source_ok split: option.split)

lemma handle_recv_ok:
  assumes "magic_ok (ms_st m)"
  shows "magic_ok (ms_st (handle_recv env now fd b src m))"
proof -
  have "magic_ok (ms_st (handle_disco env now fd b src m))"
  proof (rule handle_disco_keeps [where P = "\<lambda>m. magic_ok (ms_st m)"])
    show "magic_ok (ms_st m)" by (rule assms)
  next
    fix p ping
    show "magic_ok (ms_st (send_pong env fd (sender_pub (pkt_header p)) src (ping_tx_id ping)
        (ping_source now (sender_pub (pkt_header p)) src m)))"
      by (simp add: frame_simps ping_source_ok assms)
  next
    fix p pong
    have "magic_ok (ms_st (fulfil_ping now (pong_tx_id pong) m))"
      using assms by (subst magic_ok_cong) (simp_all add: frame_simps)
    then show "magic_ok (ms_st (map_st (accept_pong now (sender_pub (pkt_header p)) src (pong_tx_id pong))
        (fulfil_ping now (pong_tx_id pong) m)))"
      by (simp add: accept_pong_ok)
  qed (rule handle_call_me_maybe_ok [OF assms])
  moreover have "magic_ok (ms_st (handle_stun_response now b m))"
    using assms by (subst magic_ok_cong) (simp_all add: frame_simps)
  ultimately show ?thesis using assms by (simp add: handle_recv_def)
qed

lemma magic_do_ok: "magic_ok (ms_st m) \<Longrightarrow> magic_ok (ms_st (magic_do env ev m))"
proof (induction ev)
  case (EvFromDerp now b)
  then show ?case
    by (simp, intro handle_disco_from_derp_keeps [where P = "\<lambda>m. magic_ok (ms_st m)"]
        handle_call_me_maybe_ok)
next
  case (EvStunProbe now a)
  then show ?case
    using magic_ok_cong [of "ms_st (fst (stun_probe env now a m))" "ms_st m"] by (simp add: frame_simps)
next
  case (EvPingNow t0 t1 n)
  then show ?case
    using magic_ok_cong [of "ms_st (fst (ping_now_start env t0 t1 n m))" "ms_st m"]
    by (simp add: frame_simps)
next
  case (EvPingDone tx r)
  then show ?case
    using magic_ok_cong [of "ms_st (fst (ping_now_finish tx r m))" "ms_st m"] by (simp add: frame_simps)
next
  case (EvLocalEndpoints eps)
  then show ?case
    using magic_ok_cong [of "set_local_endpoints eps (ms_st m)" "ms_st m"]
    by (simp add: set_local_endpoints_def)
next
  case EvTakeCmm
  then show ?case
    using magic_ok_cong [of "ms_st m\<lparr>cmm_pending := []\<rparr>" "ms_st m"] by (simp add: take_pending_cmm_def)
next
  case (EvSendTo a b)
  then show ?case by (simp add: ms_send_to_def split: sum.split)
next
  case (EvSendDirect a b)
  then show ?case by (simp add: send_direct_def socket_send_def split: sum.split)
next
  case EvTakeRecords
  then show ?case by (simp add: take_send_records_def)
next
  case EvShutdown
  then show ?case by (simp add: ms_shutdown_def)
qed (simp_all add: ms_upsert_peer_ok ms_remove_peer_ok ping_pump_ok handle_recv_ok frame_simps)

lemma magic_bind_ok: "magic_ok (ms_st magic_bind)"
  by (simp add: magic_bind_def magic_state_default_def magic_ok_def)

lemma magic_run_snoc: "magic_run env (evs @ [ev]) = magic_do env ev (magic_run env evs)"
  by (simp add: magic_run_def)

lemma magic_run_ok: "magic_ok (ms_st (magic_run env evs))"
  by (induction evs rule: rev_induct)
    (simp_all add: magic_run_snoc magic_do_ok, simp add: magic_run_def magic_bind_ok)

section \<open>What a path's record means\<close>

text \<open>
  How the record of a path may change in a step that accepts no Pong: the last Pong stays
  or is forgotten, and an outstanding ping or the time of a ping appears only with a ping.
\<close>

definition path_evolves :: "net_env \<Rightarrow> magic_sock \<Rightarrow> sock_addr \<Rightarrow> path_state option \<Rightarrow> path_state \<Rightarrow> bool" where
  "path_evolves env m a old st \<longleftrightarrow>
     (last_pong_at st = None \<or> last_pong_at st = Option.bind old last_pong_at) \<and>
     (outstanding_tx_id st = None \<or> outstanding_tx_id st = Option.bind old outstanding_tx_id \<or>
       (\<exists>tx. outstanding_tx_id st = Some tx \<and> ping_sent env m a tx)) \<and>
     (last_ping_at st = None \<or> last_ping_at st = Option.bind old last_ping_at \<or>
       (\<exists>fd. for_addr env a = Inr fd))"

definition quiet :: "net_env \<Rightarrow> magic_sock \<Rightarrow> magic_sock \<Rightarrow> bool" where
  "quiet env m m' \<longleftrightarrow>
     set (sent m) \<subseteq> set (sent m') \<and>
     disco_to_node (ms_st m') = disco_to_node (ms_st m) \<and>
     (\<forall>n p. map_of (ms_peers (ms_st m')) n = Some p \<longrightarrow>
        map_option disco_pub (map_of (ms_peers (ms_st m)) n) = Some (disco_pub p)) \<and>
     (\<forall>n a st. path_at (ms_st m') n a = Some st \<longrightarrow>
        path_evolves env m' a (path_at (ms_st m) n a) st)"

lemma path_evolves_same [simp]: "path_evolves env m a (Some st) st"
  by (simp add: path_evolves_def)

lemma path_evolves_new [simp]: "path_evolves env m a old path_new"
  by (simp add: path_evolves_def path_new_def)

lemma quiet_refl [simp]: "quiet env m m"
  by (simp add: quiet_def)

lemma quiet_same:
  assumes "ms_peers (ms_st m') = ms_peers (ms_st m)" and "disco_to_node (ms_st m') = disco_to_node (ms_st m)"
    and "set (sent m) \<subseteq> set (sent m')"
  shows "quiet env m m'"
  using assms by (simp add: quiet_def path_at_def)

lemma path_evolves_trans:
  assumes sub: "set (sent m1) \<subseteq> set (sent m2)"
    and e1: "\<And>st1. old1 = Some st1 \<Longrightarrow> path_evolves env m1 a old st1"
    and e2: "path_evolves env m2 a old1 st2"
  shows "path_evolves env m2 a old st2"
proof (cases old1)
  case None
  then show ?thesis using e2 by (auto simp: path_evolves_def)
next
  case (Some st)
  note e1 = e1 [OF Some, unfolded path_evolves_def]
  note e2 = e2 [unfolded Some path_evolves_def Option.bind.bind_lunit]
  have "last_pong_at st2 = None \<or> last_pong_at st2 = Option.bind old last_pong_at"
    using e1 e2 by metis
  moreover have "outstanding_tx_id st2 = None \<or> outstanding_tx_id st2 = Option.bind old outstanding_tx_id \<or>
      (\<exists>tx. outstanding_tx_id st2 = Some tx \<and> ping_sent env m2 a tx)"
    using e1 e2 ping_sent_mono [OF _ sub] by metis
  moreover have "last_ping_at st2 = None \<or> last_ping_at st2 = Option.bind old last_ping_at \<or>
      (\<exists>fd. for_addr env a = Inr fd)"
    using e1 e2 by metis
  ultimately show ?thesis unfolding path_evolves_def by blast
qed

lemma quiet_sent: "quiet env m m' \<Longrightarrow> set (sent m) \<subseteq> set (sent m')"
  and quiet_d2n: "quiet env m m' \<Longrightarrow> disco_to_node (ms_st m') = disco_to_node (ms_st m)"
  and quiet_path: "quiet env m m' \<Longrightarrow> path_at (ms_st m') n a = Some st
    \<Longrightarrow> path_evolves env m' a (path_at (ms_st m) n a) st"
  and quiet_disco: "quiet env m m' \<Longrightarrow> map_of (ms_peers (ms_st m')) n = Some p
    \<Longrightarrow> map_option disco_pub (map_of (ms_peers (ms_st m)) n) = Some (disco_pub p)"
  unfolding quiet_def by blast+

lemma quiet_trans:
  assumes "quiet env m1 m2" and "quiet env m2 m3"
  shows "quiet env m1 m3"
  unfolding quiet_def
proof (intro conjI allI impI)
  fix n a st
  assume *: "path_at (ms_st m3) n a = Some st"
  show "path_evolves env m3 a (path_at (ms_st m1) n a) st"
    by (rule path_evolves_trans [OF quiet_sent [OF assms(2)] quiet_path [OF assms(1)]
          quiet_path [OF assms(2) *]])
next
  show "set (sent m1) \<subseteq> set (sent m3)"
    by (rule subset_trans [OF quiet_sent [OF assms(1)] quiet_sent [OF assms(2)]])
  show "disco_to_node (ms_st m3) = disco_to_node (ms_st m1)"
    by (simp only: quiet_d2n [OF assms(1)] quiet_d2n [OF assms(2)])
next
  fix n p assume "map_of (ms_peers (ms_st m3)) n = Some p"
  from quiet_disco [OF assms(2) this] quiet_disco [OF assms(1), of n]
  show "map_option disco_pub (map_of (ms_peers (ms_st m1)) n) = Some (disco_pub p)" by auto
qed

lemma quiet_modify:
  assumes "\<And>p a st. map_of (paths (f p)) a = Some st \<Longrightarrow> path_evolves env m a (map_of (paths p) a) st"
    and "\<And>p. disco_pub (f p) = disco_pub p"
  shows "quiet env m (map_st (modify_ms_peer node f) m)"
  unfolding quiet_def map_st_simps modify_ms_peer_frame
proof (intro conjI allI impI)
  fix n a st
  assume *: "path_at (modify_ms_peer node f (ms_st m)) n a = Some st"
  have "path_evolves env (map_st (modify_ms_peer node f) m) a old st \<longleftrightarrow> path_evolves env m a old st" for old
    by (simp add: path_evolves_def ping_sent_def)
  moreover have "path_evolves env m a (path_at (ms_st m) n a) st"
  proof (cases "n = node")
    case True
    then obtain p where "map_of (ms_peers (ms_st m)) n = Some p" "map_of (paths (f p)) a = Some st"
      using * by (auto simp: path_at_modify dest!: Option.bind_eq_Some_conv [THEN iffD1])
    then show ?thesis using assms(1) [of p a st] by (simp add: path_at_def)
  qed (use * in \<open>simp add: path_at_modify\<close>)
  ultimately show "path_evolves env (map_st (modify_ms_peer node f) m) a (path_at (ms_st m) n a) st"
    by simp
next
  fix n p
  assume "map_of (ms_peers (modify_ms_peer node f (ms_st m))) n = Some p"
  then show "map_option disco_pub (map_of (ms_peers (ms_st m)) n) = Some (disco_pub p)"
    using assms(2) by (auto simp: ms_peers_modify split: if_splits)
qed simp_all

lemma quiet_record_ping:
  assumes "ping_sent env m a tx" and "for_addr env a = Inr fd"
  shows "quiet env m (map_st (record_ping now node a tx) m)"
  unfolding record_ping_def
proof (rule quiet_modify)
  fix p a' st
  assume "map_of (paths (p\<lparr>paths := AList.map_entry a
    (\<lambda>st. st\<lparr>last_ping_at := Some now, outstanding_tx_id := Some tx\<rparr>) (ensure_path a (paths p))\<rparr>)) a'
      = Some st"
  then show "path_evolves env m a' (map_of (paths p) a') st"
    using assms
    by (auto simp: map_of_map_entry map_of_ensure_path path_evolves_def path_new_def
        split: if_splits option.splits)
qed simp

lemma quiet_ping_all: "quiet env m (ping_all env now ts m)"
proof (induction env now ts m rule: ping_all.induct)
  case (1 env now m)
  then show ?case by simp
next
  case (2 env now node d a ts m)
  show ?case
  proof (cases "for_addr env a")
    case (Inl e)
    then show ?thesis using 2 by simp
  next
    case (Inr fd)
    obtain m1 r where send: "send_ping env fd d a m = (m1, r)" by fastforce
    then have q: "quiet env m m1"
      using send_ping_cases [OF send] by (auto intro!: quiet_same)
    show ?thesis
    proof (cases r)
      case (Inl e)
      then have "quiet env m1 (ping_all env now ts m1)"
        using 2 \<open>for_addr env a = Inr fd\<close> send by simp
      from quiet_trans [OF q this] show ?thesis
        using Inl \<open>for_addr env a = Inr fd\<close> send by simp
    next
      case r: (Inr tx)
      let ?m2 = "map_st (record_ping now node a tx) m1"
      have "quiet env m1 ?m2"
        using send_ping_cases [OF send] Inr r by (intro quiet_record_ping) auto
      moreover have "quiet env ?m2 (ping_all env now ts ?m2)"
        using 2 Inr send r by simp
      ultimately have "quiet env m (ping_all env now ts ?m2)"
        by (rule quiet_trans [OF quiet_trans [OF q]])
      then show ?thesis using Inr send r by simp
    qed
  qed
qed

lemma map_of_paths_merge:
  "map_of (paths (fold merge_endpoint eps p)) a = Some st \<Longrightarrow>
    map_of (paths p) a = Some st \<or> st = path_new"
proof (induction eps arbitrary: p)
  case (Cons e eps)
  have "map_of (paths (merge_endpoint e p)) a = Some st \<or> st = path_new"
    using Cons.IH [of "merge_endpoint e p"] Cons.prems by simp
  then show ?case
    by (auto simp: merge_endpoint_def map_of_ensure_path split: option.splits if_splits)
qed simp

lemma quiet_handle_call_me_maybe: "quiet env m (handle_call_me_maybe env now sender cmm m)"
proof -
  have "quiet env m (map_st (modify_ms_peer node (fold merge_endpoint eps)) m)" for node eps
    by (rule quiet_modify) (auto simp: fold_merge_endpoint dest!: map_of_paths_merge)
  then show ?thesis
    using quiet_trans [OF _ quiet_ping_all]
    by (simp add: handle_call_me_maybe_def Let_def immediate_pings_eq split: option.split)
qed

lemma quiet_learn_source: "quiet env m (map_st (learn_source now node src) m)"
  unfolding learn_source_def
  by (rule quiet_modify)
    (auto simp: path_evolves_def path_new_def map_of_map_entry split: option.splits if_splits)

lemma quiet_ping_source: "quiet env m (ping_source now sender src m)"
  by (simp add: ping_source_def quiet_learn_source split: option.split)

lemma quiet_ping_pump: "quiet env m (ping_pump env now m)"
proof -
  have "quiet env m1 (cmm_pump env now m1)" for m1
    by (rule quiet_same) (simp_all add: frame_simps)
  from quiet_trans [OF quiet_ping_all this] show ?thesis unfolding ping_pump_def .
qed

text \<open>
  What a run tells about the tables it leaves: where a Disco key came from, that an
  outstanding transaction id was sent to the path's address, and that a recorded Pong was
  received from it.
\<close>

definition validated :: "net_env \<Rightarrow> magic_event list \<Rightarrow> magic_sock \<Rightarrow> key32 \<Rightarrow> sock_addr \<Rightarrow> instant \<Rightarrow> bool" where
  "validated env evs m n a t \<longleftrightarrow>
     (\<exists>fd b p pong t' eps.
        EvRecv t fd b a \<in> set evs \<and>
        open_packet (ne_box env) (our_disco_priv env) b = Inr p \<and>
        as_msg MtPong pong_cast p = Some pong \<and>
        EvUpsert t' n (sender_pub (pkt_header p)) eps \<in> set evs \<and>
        ping_sent env m a (pong_tx_id pong))"

definition hist :: "net_env \<Rightarrow> magic_event list \<Rightarrow> magic_sock \<Rightarrow> bool" where
  "hist env evs m \<longleftrightarrow>
     (\<forall>d n. map_of (disco_to_node (ms_st m)) d = Some n \<longrightarrow> (\<exists>t eps. EvUpsert t n d eps \<in> set evs)) \<and>
     (\<forall>n p. map_of (ms_peers (ms_st m)) n = Some p \<longrightarrow>
        (\<exists>t eps. EvUpsert t n (disco_pub p) eps \<in> set evs)) \<and>
     (\<forall>n a st. path_at (ms_st m) n a = Some st \<longrightarrow>
        (\<forall>tx. outstanding_tx_id st = Some tx \<longrightarrow> ping_sent env m a tx) \<and>
        (\<forall>t. last_pong_at st = Some t \<longrightarrow> validated env evs m n a t) \<and>
        (last_ping_at st \<noteq> None \<longrightarrow> (\<exists>fd. for_addr env a = Inr fd)))"

lemma validated_mono:
  "validated env evs m n a t \<Longrightarrow> set evs \<subseteq> set evs' \<Longrightarrow> set (sent m) \<subseteq> set (sent m')
    \<Longrightarrow> validated env evs' m' n a t"
  unfolding validated_def using ping_sent_mono by (metis subsetD)

lemma histD:
  assumes "hist env evs m" and "path_at (ms_st m) n a = Some st"
  shows "outstanding_tx_id st = Some tx \<Longrightarrow> ping_sent env m a tx"
    and "last_pong_at st = Some t \<Longrightarrow> validated env evs m n a t"
    and "last_ping_at st = Some t \<Longrightarrow> \<exists>fd. for_addr env a = Inr fd"
  using assms unfolding hist_def by blast+

lemma hist_key:
  "hist env evs m \<Longrightarrow> map_of (disco_to_node (ms_st m)) d = Some n
    \<Longrightarrow> \<exists>t eps. EvUpsert t n d eps \<in> set evs"
  unfolding hist_def by blast

lemma hist_disco:
  "hist env evs m \<Longrightarrow> map_of (ms_peers (ms_st m)) n = Some p
    \<Longrightarrow> \<exists>t eps. EvUpsert t n (disco_pub p) eps \<in> set evs"
  unfolding hist_def by blast

lemma hist_evolves:
  assumes h: "hist env evs m" and sub: "set (sent m) \<subseteq> set (sent m')"
    and d2n: "\<And>d n. map_of (disco_to_node (ms_st m')) d = Some n \<Longrightarrow>
      map_of (disco_to_node (ms_st m)) d = Some n \<or> (\<exists>t eps. ev = EvUpsert t n d eps)"
    and disco: "\<And>n p. map_of (ms_peers (ms_st m')) n = Some p \<Longrightarrow>
      map_option disco_pub (map_of (ms_peers (ms_st m)) n) = Some (disco_pub p) \<or>
      (\<exists>t eps. ev = EvUpsert t n (disco_pub p) eps)"
    and ev: "\<And>n a st. path_at (ms_st m') n a = Some st \<Longrightarrow>
      path_evolves env m' a (path_at (ms_st m) n a) st"
  shows "hist env (evs @ [ev]) m'"
  unfolding hist_def
proof (intro conjI allI impI)
  fix d n assume "map_of (disco_to_node (ms_st m')) d = Some n"
  from d2n [OF this] hist_key [OF h, of d n] show "\<exists>t eps. EvUpsert t n d eps \<in> set (evs @ [ev])"
    by (metis in_set_conv_decomp UnI1 set_append)
next
  fix n p assume "map_of (ms_peers (ms_st m')) n = Some p"
  then consider q where "map_of (ms_peers (ms_st m)) n = Some q" "disco_pub q = disco_pub p"
    | t eps where "ev = EvUpsert t n (disco_pub p) eps"
    using disco [of n p] by auto
  then show "\<exists>t eps. EvUpsert t n (disco_pub p) eps \<in> set (evs @ [ev])"
    by cases (use hist_disco [OF h, of n] in fastforce)+
next
  fix n a st tx
  assume p: "path_at (ms_st m') n a = Some st" and tx: "outstanding_tx_id st = Some tx"
  show "ping_sent env m' a tx"
    using ev [OF p] tx histD(1) [OF h, of n a _ tx] ping_sent_mono [OF _ sub, of env a tx]
    unfolding path_evolves_def by (cases "path_at (ms_st m) n a") auto
next
  fix n a st t
  assume p: "path_at (ms_st m') n a = Some st" and t: "last_pong_at st = Some t"
  then have "last_pong_at st = Option.bind (path_at (ms_st m) n a) last_pong_at"
    using ev [OF p] unfolding path_evolves_def by auto
  then have "validated env evs m n a t"
    using t histD(2) [OF h] by (cases "path_at (ms_st m) n a") auto
  then show "validated env (evs @ [ev]) m' n a t"
    by (rule validated_mono) (use sub in auto)
next
  fix n a st
  assume p: "path_at (ms_st m') n a = Some st" and t: "last_ping_at st \<noteq> None"
  then obtain u where u: "last_ping_at st = Some u" by blast
  show "\<exists>fd. for_addr env a = Inr fd"
    using ev [OF p] u histD(3) [OF h, of n a _ u]
    unfolding path_evolves_def by (cases "path_at (ms_st m) n a") auto
qed

lemma hist_quiet:
  assumes h: "hist env evs m" and q: "quiet env m m'"
  shows "hist env (evs @ [ev]) m'"
  by (rule hist_evolves [OF h quiet_sent [OF q] _ _ quiet_path [OF q]])
    (simp_all add: quiet_d2n [OF q] quiet_disco [OF q])

lemma map_of_fold_ensure_path:
  "map_of (fold ensure_path eps ps) a = Some st \<Longrightarrow> map_of ps a = Some st \<or> st = path_new"
proof (induction eps arbitrary: ps)
  case (Cons e eps)
  have "map_of (ensure_path e ps) a = Some st \<or> st = path_new"
    using Cons.IH [of "ensure_path e ps"] Cons.prems by simp
  then show ?case by (auto simp: map_of_ensure_path split: option.splits if_splits)
qed simp

lemma map_of_filter_distinct:
  "map_of (filter P al) k = Some v \<Longrightarrow> distinct (map fst al) \<Longrightarrow> map_of al k = Some v"
  by (auto simp: distinct_map_filter dest!: map_of_SomeD)

lemma path_at_upsert:
  assumes "magic_ok s" and "path_at (ms_upsert_peer now node disco eps s) n a = Some st"
  shows "path_at s n a = Some st \<or> st = path_new"
proof (cases "n = node")
  case False
  then show ?thesis
    using assms(2) by (simp add: path_at_def ms_upsert_peer_def Let_def update_conv')
next
  case True
  show ?thesis
  proof (cases "map_of (ms_peers s) node")
    case None
    then have "map_of (fold ensure_path eps []) a = Some st"
      using assms(2) True by (simp add: path_at_def ms_upsert_peer_def Let_def update_conv')
    then show ?thesis using map_of_fold_ensure_path by fastforce
  next
    case (Some p)
    let ?ps = "filter (\<lambda>(dst, st). dst \<in> set eps \<or> learned_fresh now st) (paths p)"
    have "map_of (fold ensure_path eps ?ps) a = Some st"
      using assms(2) True Some by (simp add: path_at_def ms_upsert_peer_def Let_def update_conv')
    then have "map_of ?ps a = Some st \<or> st = path_new" by (rule map_of_fold_ensure_path)
    moreover have "distinct (map fst (paths p))"
      using magic_ok_peer [OF assms(1) Some] by (simp add: peer_ok_def)
    ultimately show ?thesis
      using map_of_filter_distinct Some True unfolding path_at_def
      by (metis (no_types, lifting) Option.bind.bind_lunit)
  qed
qed

lemma hist_upsert:
  assumes "hist env evs m" and ok: "magic_ok (ms_st m)"
  shows "hist env (evs @ [EvUpsert now node disco eps]) (map_st (ms_upsert_peer now node disco eps) m)"
proof (rule hist_evolves [OF assms(1)])
  fix d n
  assume "map_of (disco_to_node (ms_st (map_st (ms_upsert_peer now node disco eps) m))) d = Some n"
  then have "d = disco \<and> n = node \<or>
      map_of (filter (\<lambda>(d, n). n \<noteq> node) (disco_to_node (ms_st m))) d = Some n"
    by (simp add: ms_upsert_peer_def Let_def update_conv' split: if_splits)
  moreover have "distinct (map fst (disco_to_node (ms_st m)))"
    using ok by (simp add: magic_ok_def)
  ultimately show "map_of (disco_to_node (ms_st m)) d = Some n \<or>
      (\<exists>t eps'. EvUpsert now node disco eps = EvUpsert t n d eps')"
    using map_of_filter_distinct by fastforce
next
  fix n p
  assume "map_of (ms_peers (ms_st (map_st (ms_upsert_peer now node disco eps) m))) n = Some p"
  then show "map_option disco_pub (map_of (ms_peers (ms_st m)) n) = Some (disco_pub p) \<or>
      (\<exists>t eps'. EvUpsert now node disco eps = EvUpsert t n (disco_pub p) eps')"
    by (auto simp: ms_upsert_peer_def Let_def update_conv' split: if_splits)
next
  fix n a st
  assume "path_at (ms_st (map_st (ms_upsert_peer now node disco eps) m)) n a = Some st"
  then have "path_at (ms_st m) n a = Some st \<or> st = path_new"
    using path_at_upsert [OF ok] by simp
  then show "path_evolves env (map_st (ms_upsert_peer now node disco eps) m) a (path_at (ms_st m) n a) st"
    by auto
qed simp

lemma hist_remove:
  assumes "hist env evs m"
  shows "hist env (evs @ [EvRemove node]) (map_st (ms_remove_peer node) m)"
  by (rule hist_evolves [OF assms])
    (auto simp: ms_remove_peer_def path_at_def delete_conv' split: option.splits if_splits)

lemma path_at_accept_pong:
  assumes "path_at (accept_pong now sender src tx s) n a = Some st"
  shows "path_at s n a = Some st \<or>
    a = src \<and> map_of (disco_to_node s) sender = Some n \<and>
      (\<exists>old. path_at s n a = Some old \<and> st = pong_path now tx old)"
proof (cases "map_of (disco_to_node s) sender")
  case None
  then show ?thesis using assms by (simp add: accept_pong_def)
next
  case (Some node)
  then have *: "path_at (modify_ms_peer node (\<lambda>p. p\<lparr>paths := AList.map_entry src (pong_path now tx) (paths p)\<rparr>) s) n a
      = Some st"
    using assms by (simp add: accept_pong_def)
  show ?thesis
  proof (cases "n = node")
    case False
    then show ?thesis using * by (simp add: path_at_modify)
  next
    case True
    then obtain p where "map_of (ms_peers s) n = Some p"
      and "map_of (AList.map_entry src (pong_path now tx) (paths p)) a = Some st"
      using * by (auto simp: path_at_modify dest!: Option.bind_eq_Some_conv [THEN iffD1])
    then show ?thesis
      using True Some by (auto simp: path_at_def map_of_map_entry split: if_splits option.splits)
  qed
qed

lemma hist_pong:
  assumes h: "hist env evs m"
    and op: "open_packet (ne_box env) (our_disco_priv env) b = Inr p"
    and pong: "as_msg MtPong pong_cast p = Some pong"
  shows "hist env (evs @ [EvRecv now fd b src])
    (map_st (accept_pong now (sender_pub (pkt_header p)) src (pong_tx_id pong))
       (fulfil_ping now (pong_tx_id pong) m))"
    (is "hist env ?evs ?m")
proof -
  have path: "path_at (ms_st (fulfil_ping now (pong_tx_id pong) m)) n a = path_at (ms_st m) n a" for n a
    by (simp add: path_at_def frame_simps)
  have d2n: "disco_to_node (ms_st ?m) = disco_to_node (ms_st m)"
    by (simp add: accept_pong_def frame_simps split: option.split)
  have snt: "sent ?m = sent m" by (simp add: frame_simps)
  have sent_eq: "ping_sent env ?m a tx = ping_sent env m a tx" for a tx
    by (simp only: ping_sent_def snt)
  have old: "validated env evs m n a t \<Longrightarrow> validated env ?evs ?m n a t" for n a t
    by (rule validated_mono) (simp_all only: snt, auto)
  show ?thesis
    unfolding hist_def
  proof (intro conjI allI impI, unfold d2n sent_eq)
    fix n q assume "map_of (ms_peers (ms_st ?m)) n = Some q"
    then obtain q0 where "map_of (ms_peers (ms_st m)) n = Some q0" "disco_pub q0 = disco_pub q"
      by (auto simp: accept_pong_def ms_peers_modify frame_simps split: option.splits if_splits)
    then show "\<exists>t eps. EvUpsert t n (disco_pub q) eps \<in> set ?evs" using hist_disco [OF h] by fastforce
  next
    fix d n assume "map_of (disco_to_node (ms_st m)) d = Some n"
    then show "\<exists>t eps. EvUpsert t n d eps \<in> set ?evs" using hist_key [OF h] by fastforce
  next
    fix n a st tx
    assume "path_at (ms_st ?m) n a = Some st" and tx: "outstanding_tx_id st = Some tx"
    then obtain st0 where "path_at (ms_st m) n a = Some st0" "outstanding_tx_id st0 = Some tx"
      using path_at_accept_pong by (fastforce simp: path pong_path_def split: if_splits)
    then show "ping_sent env m a tx" by (rule histD(1) [OF h])
  next
    fix n a st t
    assume "path_at (ms_st ?m) n a = Some st" and t: "last_pong_at st = Some t"
    then consider "path_at (ms_st m) n a = Some st"
      | st0 where "a = src" "map_of (disco_to_node (ms_st m)) (sender_pub (pkt_header p)) = Some n"
          "path_at (ms_st m) n a = Some st0" "st = pong_path now (pong_tx_id pong) st0"
      using path_at_accept_pong by (fastforce simp: path frame_simps)
    then show "validated env ?evs ?m n a t"
    proof cases
      case 1
      then show ?thesis using histD(2) [OF h _ t] old by blast
    next
      case 2
      show ?thesis
      proof (cases "outstanding_tx_id st0 = Some (pong_tx_id pong)")
        case True
        then have "t = now" using 2 t by (simp add: pong_path_def)
        moreover have "ping_sent env ?m a (pong_tx_id pong)"
          unfolding sent_eq using histD(1) [OF h 2(3) True] .
        moreover obtain t' eps where "EvUpsert t' n (sender_pub (pkt_header p)) eps \<in> set evs"
          using hist_key [OF h 2(2)] by blast
        ultimately show ?thesis
          using op pong 2(1) unfolding validated_def
          by (intro exI [of _ fd] exI [of _ b] exI [of _ p] exI [of _ pong]) auto
      next
        case False
        then have "st = st0" using 2 by (simp add: pong_path_def)
        then show ?thesis using histD(2) [OF h 2(3)] t old by blast
      qed
    qed
  next
    fix n a st
    assume "path_at (ms_st ?m) n a = Some st" and "last_ping_at st \<noteq> None"
    then obtain st0 u where "path_at (ms_st m) n a = Some st0" "last_ping_at st0 = Some u"
      using path_at_accept_pong by (fastforce simp: path pong_path_def split: if_splits)
    then show "\<exists>fd. for_addr env a = Inr fd" by (rule histD(3) [OF h])
  qed
qed

lemma hist_handle_recv:
  assumes h: "hist env evs m"
  shows "hist env (evs @ [EvRecv now fd b src]) (handle_recv env now fd b src m)"
proof -
  let ?h = "hist env (evs @ [EvRecv now fd b src])"
  have q: "quiet env m m' \<Longrightarrow> ?h m'" for m' using h by (rule hist_quiet)
  have "?h (handle_disco env now fd b src m)"
  proof (rule handle_disco_keeps [where P = ?h])
    show "?h m" by (rule q [OF quiet_refl])
  next
    fix p ping
    show "?h (send_pong env fd (sender_pub (pkt_header p)) src (ping_tx_id ping)
        (ping_source now (sender_pub (pkt_header p)) src m))"
      by (rule q [OF quiet_trans
            [OF quiet_ping_source [of env m now "sender_pub (pkt_header p)" src] quiet_same]])
        (simp_all add: frame_simps)
  next
    fix p pong
    assume "open_packet (ne_box env) (our_disco_priv env) b = Inr p"
      "as_msg MtPong pong_cast p = Some pong"
    then show "?h (map_st (accept_pong now (sender_pub (pkt_header p)) src (pong_tx_id pong))
        (fulfil_ping now (pong_tx_id pong) m))"
      by (rule hist_pong [OF h])
  qed (rule q [OF quiet_handle_call_me_maybe])
  moreover have "?h (handle_stun_response now b m)"
    by (rule q [OF quiet_same]) (simp_all add: frame_simps)
  moreover have "?h (m\<lparr>forwarded := xs\<rparr>)" for xs
    by (rule q [OF quiet_same]) simp_all
  ultimately show ?thesis using q [OF quiet_refl] by (simp add: handle_recv_def)
qed

lemma hist_do:
  assumes h: "hist env evs m" and ok: "magic_ok (ms_st m)"
  shows "hist env (evs @ [ev]) (magic_do env ev m)"
proof -
  have same: "hist env (evs @ [ev]) m'"
    if "ms_peers (ms_st m') = ms_peers (ms_st m)" "disco_to_node (ms_st m') = disco_to_node (ms_st m)"
      "set (sent m) \<subseteq> set (sent m')" for m' ev
    using h quiet_same [OF that] by (rule hist_quiet)
  show ?thesis
  proof (cases ev)
    case (EvUpsert now node disco eps)
    then show ?thesis using hist_upsert [OF h ok] by simp
  next
    case (EvRemove node)
    then show ?thesis using hist_remove [OF h] by simp
  next
    case (EvRecv now fd b src)
    then show ?thesis using hist_handle_recv [OF h] by simp
  next
    case (EvPump now)
    then show ?thesis using hist_quiet [OF h quiet_ping_pump] by simp
  next
    case (EvFromDerp now b)
    have "quiet env m (handle_disco_from_derp env now b m)"
      by (rule handle_disco_from_derp_keeps [where P = "quiet env m"]) (simp_all add: quiet_handle_call_me_maybe)
    then show ?thesis using hist_quiet [OF h] EvFromDerp by simp
  next
    case (EvSendTo a b)
    then show ?thesis by (intro same) (auto simp: ms_send_to_def split: sum.split)
  next
    case (EvSendDirect a b)
    then show ?thesis by (intro same) (auto simp: send_direct_def socket_send_def split: sum.split)
  qed (intro same; simp add: frame_simps take_send_records_def set_local_endpoints_def
      take_pending_cmm_def ms_shutdown_def)+
qed

lemma magic_run_hist: "hist env evs (magic_run env evs)"
proof (induction evs rule: rev_induct)
  case Nil
  then show ?case
    by (simp add: hist_def magic_run_def magic_bind_def magic_state_default_def path_at_def)
next
  case (snoc ev evs)
  then show ?case using hist_do [OF _ magic_run_ok] by (simp add: magic_run_snoc)
qed

definition rtt_or_minute :: "path_state \<Rightarrow> duration" where
  "rtt_or_minute st = (case path_rtt st of Some r \<Rightarrow> r | None \<Rightarrow> secs 60)"

lemma alive_endpoint_Some:
  assumes ok: "magic_ok s" and a: "alive_endpoint now n s = Some a"
  shows "\<exists>st. path_at s n a = Some st \<and> path_alive now st \<and>
    (\<forall>a' st'. path_at s n a' = Some st' \<and> path_alive now st' \<longrightarrow> rtt_or_minute st \<le> rtt_or_minute st')"
proof -
  let ?alive = "\<lambda>ps. filter (\<lambda>(_, st). path_alive now st) ps"
  obtain p st where p: "map_of (ms_peers s) n = Some p"
    and m: "min_by_key (\<lambda>(_, st). rtt_or_minute st) (?alive (paths p)) = Some (a, st)"
    using a by (auto simp: alive_endpoint_def rtt_or_minute_def dest!: Option.bind_eq_Some_conv [THEN iffD1])
  have d: "distinct (map fst (paths p))" using magic_ok_peer [OF ok p] by (simp add: peer_ok_def)
  have "(a, st) \<in> set (paths p)" "path_alive now st" using min_by_key_mem [OF m] by auto
  moreover from this have "map_of (paths p) a = Some st" using d by simp
  moreover have "rtt_or_minute st \<le> rtt_or_minute st'"
    if "path_at s n a' = Some st'" "path_alive now st'" for a' st'
  proof -
    have "(a', st') \<in> set (?alive (paths p))"
      using that p by (auto simp: path_at_def dest!: map_of_SomeD)
    from min_by_key_le [OF m this] show ?thesis by simp
  qed
  ultimately show ?thesis using p by (auto simp: path_at_def)
qed

lemma alive_endpoint_None:
  "alive_endpoint now n s = None \<longleftrightarrow> (\<forall>p. map_of (ms_peers s) n = Some p \<longrightarrow>
     (\<forall>(a, st) \<in> set (paths p). \<not> path_alive now st))"
  by (cases "map_of (ms_peers s) n")
    (auto simp: alive_endpoint_def filter_empty_conv)

lemma alive_endpoint_exists:
  assumes "path_at s n a = Some st" and "path_alive now st"
  shows "alive_endpoint now n s \<noteq> None"
proof -
  obtain p where p: "map_of (ms_peers s) n = Some p" "map_of (paths p) a = Some st"
    using assms(1) by (auto simp: path_at_def dest!: Option.bind_eq_Some_conv [THEN iffD1])
  then have "(a, st) \<in> set (paths p)" by (auto dest: map_of_SomeD)
  then show ?thesis using p(1) assms(2) by (auto simp: alive_endpoint_None)
qed

section \<open>Pings and pongs on the wire\<close>

definition net_ok :: "net_env \<Rightarrow> bool" where
  "net_ok env \<longleftrightarrow> salsa_box_ok (ne_box env) \<and> length (our_disco_priv env) = 32 \<and>
     length (our_node_pub env) = 32 \<and> (\<forall>i n. length (os_fill env i n) = n)"

lemma as_msg_ty: "as_msg ty cast p = Some x \<Longrightarrow> packet_ty p = Some ty"
  by (auto simp: as_msg_def packet_ty_def split: if_splits dest!: Option.bind_eq_Some_conv [THEN iffD1])

lemma disco_not_stun: "is_disco_message b \<Longrightarrow> \<not> looks_like_stun b"
proof
  assume d: "is_disco_message b" and "looks_like_stun b"
  then have "b ! 4 = 0x21" using stun_cookie_bytes by blast
  moreover have "take 6 b = disco_magic" using d by (simp add: is_disco_message_iff)
  then have "take 6 b ! 4 = disco_magic ! 4" by (simp only:)
  then have "b ! 4 = disco_magic ! 4" by simp
  ultimately show False by (simp add: disco_magic_def)
qed

text \<open>A closure that fixes every field is the constant one.\<close>

lemma seal_message_init:
  assumes "\<And>r m0. cast r = Some m0 \<Longrightarrow> header_size + 18 + length r = length buf \<Longrightarrow> f m0 = msg"
  shows "seal_message cb ty cast layout f buf = seal_message cb ty cast layout (\<lambda>_. msg) buf"
proof -
  have "init_from_bytes ty cast layout f buf = init_from_bytes ty cast layout (\<lambda>_. msg) buf"
  proof (cases "packet_cast buf")
    case (Inl e)
    then show ?thesis by (simp add: init_from_bytes_def)
  next
    case (Inr s)
    then have buf: "buf = packet_bytes s" and wf: "wf_packet s" by (simp_all add: packet_cast_ok_iff)
    show ?thesis
    proof (cases "plaintext_cast (pkt_payload s)")
      case (Inl e)
      then show ?thesis using Inr by (simp add: init_from_bytes_def)
    next
      case pt: (Inr pt)
      then have "header_size + 18 + length (pt_message pt) = length buf"
        using wf by (auto simp: buf packet_bytes_def plaintext_cast_ok_iff plaintext_bytes_def wf_packet_def)
      then show ?thesis
        using Inr pt assms [of "pt_message pt"]
        by (cases "cast (pt_message pt)") (simp_all add: init_from_bytes_def Let_def)
    qed
  qed
  then show ?thesis by (simp add: seal_message_def fun_eq_iff)
qed

lemma ping_wire_opens:
  assumes "net_ok env" and "length k = 32" and "length tx = 12" and "length n = nonce_len"
  shows "\<exists>w p. ping_wire env (box_public (ne_box env) k) tx n = Inr w \<and> is_disco_message w \<and>
    open_packet (ne_box env) k w = Inr p \<and>
    sender_pub (pkt_header p) = box_public (ne_box env) (our_disco_priv env) \<and>
    as_msg MtPing ping_cast p =
      Some \<lparr>ping_tx_id = tx, ping_node_key = our_node_pub env, ping_padding = []\<rparr>"
proof -
  let ?m = "\<lparr>ping_tx_id = tx, ping_node_key = our_node_pub env, ping_padding = []\<rparr>"
  let ?buf = "replicate (size_for_message (ping_size_with_padding 0)) 0 :: bytes"
  have m: "wf_ping ?m" and len: "length ?buf = size_for_message (length (ping_bytes ?m))"
    using assms by (simp_all add: wf_ping_def net_ok_def ping_bytes_def ping_size_with_padding_def)
  have "m0\<lparr>ping_tx_id := tx, ping_node_key := our_node_pub env\<rparr> = ?m"
    if "ping_cast r = Some m0" "header_size + 18 + length r = length ?buf" for r m0
    using that by (auto simp: ping_cast_def size_for_message_def ping_size_with_padding_def split: if_splits)
  then have "ping_wire env d tx n = seal_message (ne_box env) MtPing ping_cast ping_bytes (\<lambda>_. ?m) ?buf
      (our_disco_priv env) d n" for d
    unfolding ping_wire_def by (subst seal_message_init) auto
  moreover have "salsa_box_ok (ne_box env)" "length (our_disco_priv env) = 32"
    using assms(1) by (simp_all add: net_ok_def)
  ultimately show ?thesis
    using ping_msg.seal_open [OF _ _ assms(2,4) m len] by fastforce
qed

definition pong_wire :: "net_env \<Rightarrow> key32 \<Rightarrow> sock_addr \<Rightarrow> bytes \<Rightarrow> bytes \<Rightarrow> disco_error + bytes" where
  "pong_wire env peer_disco src tx_id n =
     seal_message (ne_box env) MtPong pong_cast pong_bytes
       (\<lambda>p. p\<lparr>pong_tx_id := tx_id, pong_src := from_socket_addr src\<rparr>)
       (replicate (size_for_message pong_size) 0) (our_disco_priv env) peer_disco n"

lemma pong_wire_opens:
  assumes "net_ok env" and "length k = 32" and "length tx = 12" and "length n = nonce_len"
  shows "\<exists>w p. pong_wire env (box_public (ne_box env) k) src tx n = Inr w \<and> is_disco_message w \<and>
    open_packet (ne_box env) k w = Inr p \<and>
    sender_pub (pkt_header p) = box_public (ne_box env) (our_disco_priv env) \<and>
    as_msg MtPong pong_cast p = Some \<lparr>pong_tx_id = tx, pong_src = from_socket_addr src\<rparr>"
proof -
  let ?m = "\<lparr>pong_tx_id = tx, pong_src = from_socket_addr src\<rparr>"
  let ?buf = "replicate (size_for_message pong_size) 0 :: bytes"
  have wf: "wf_endpoint (from_socket_addr src)" by (simp add: from_socket_addr_def Let_def)
  then have m: "wf_pong ?m" and len: "length ?buf = size_for_message (length (pong_bytes ?m))"
    using assms by (simp_all add: wf_pong_def pong_bytes_def endpoint_bytes_length pong_size_def
        endpoint_size_def)
  have "pong_wire env d src tx n = seal_message (ne_box env) MtPong pong_cast pong_bytes (\<lambda>_. ?m) ?buf
      (our_disco_priv env) d n" for d
    unfolding pong_wire_def by (subst seal_message_init [where msg = ?m]) auto
  moreover have "salsa_box_ok (ne_box env)" "length (our_disco_priv env) = 32"
    using assms(1) by (simp_all add: net_ok_def)
  ultimately show ?thesis
    using pong_msg.seal_open [OF _ _ assms(2,4) m len] by fastforce
qed

lemma handle_recv_ping:
  assumes "is_disco_message b" and "open_packet (ne_box env) (our_disco_priv env) b = Inr p"
    and "as_msg MtPing ping_cast p = Some ping"
  shows "handle_recv env now fd b src m =
    send_pong env fd (sender_pub (pkt_header p)) src (ping_tx_id ping)
      (ping_source now (sender_pub (pkt_header p)) src m)"
  using assms disco_not_stun [OF assms(1)] as_msg_ty [OF assms(3)]
  by (simp add: handle_recv_def handle_disco_eq Let_def)

lemma handle_recv_pong:
  assumes "is_disco_message b" and "open_packet (ne_box env) (our_disco_priv env) b = Inr p"
    and "as_msg MtPong pong_cast p = Some pong"
  shows "handle_recv env now fd b src m =
    map_st (accept_pong now (sender_pub (pkt_header p)) src (pong_tx_id pong))
      (fulfil_ping now (pong_tx_id pong) m)"
  using assms disco_not_stun [OF assms(1)] as_msg_ty [OF assms(3)]
  by (simp add: handle_recv_def handle_disco_eq Let_def)

definition net_accepts :: "net_env \<Rightarrow> bool" where
  "net_accepts env \<longleftrightarrow> (\<forall>i a b. \<exists>l. os_send env i a b = Inr l)"

lemma send_ping_ok:
  assumes env: "net_ok env" "net_accepts env" and k: "length k = 32" and d: "d = box_public (ne_box env) k"
  shows "\<exists>w m' n. send_ping env fd d a m = (m', Inr (os_fill env (rand_ct m) 12)) \<and>
    ping_wire env d (os_fill env (rand_ct m) 12) n = Inr w \<and> length n = nonce_len \<and>
    sent m' = sent m @ [(fd, a, w)] \<and> ms_st m' = ms_st m"
proof -
  let ?tx = "os_fill env (rand_ct m) 12" and ?n = "os_fill env (Suc (rand_ct m)) nonce_len"
  have "length ?tx = 12" and n: "length ?n = nonce_len" using env by (simp_all add: net_ok_def)
  then obtain w where w: "ping_wire env d ?tx ?n = Inr w"
    using ping_wire_opens [OF env(1) k] d by blast
  moreover obtain l where "os_send env (length (sent m)) a w = Inr l"
    using env(2) unfolding net_accepts_def by blast
  ultimately show ?thesis
    using n
    by (simp add: send_ping_def encode_and_send_ping_def Let_def fill_bytes_def socket_send_def
        ping_wire_def [symmetric]) blast
qed

section \<open>The pump never asks for help\<close>

lemma path_at_record_ping:
  assumes "path_at (record_ping now node a tx s) n a' = Some st"
  shows "if n = node \<and> a' = a then last_ping_at st = Some now else path_at s n a' = Some st"
proof (cases "n = node")
  case False
  then show ?thesis using assms by (simp add: record_ping_def path_at_modify)
next
  case True
  let ?upd = "\<lambda>st. st\<lparr>last_ping_at := Some now, outstanding_tx_id := Some tx\<rparr>"
  obtain p where p: "map_of (ms_peers s) n = Some p"
    and "map_of (AList.map_entry a ?upd (ensure_path a (paths p))) a' = Some st"
    using assms True
    by (auto simp: record_ping_def path_at_modify dest!: Option.bind_eq_Some_conv [THEN iffD1])
  then show ?thesis
    using True p by (cases "a' = a")
      (auto simp: map_of_map_entry map_of_ensure_path path_at_def split: option.splits)
qed

lemma ping_targets_mem:
  "(n, d, a) \<in> set (ping_targets now s) \<longleftrightarrow>
    (\<exists>p. (n, p) \<in> set (ms_peers s) \<and> d = disco_pub p \<and> a \<in> set (endpoints p) \<and>
      path_needs_ping (map_of (paths p) a) now)"
  by (auto simp: ping_targets_def)

lemma ping_all_pending: "cmm_pending (ms_st (ping_all env now ts m)) = cmm_pending (ms_st m)"
proof (induction env now ts m rule: ping_all.induct)
  case (2 env now node d a ts m)
  show ?case
    using 2 send_ping_cases [of env _ d a m]
    by (auto simp: record_ping_def split: sum.split prod.split)
qed simp

lemma ping_all_pings:
  assumes env: "net_ok env" "net_accepts env"
    and keys: "\<forall>t \<in> set ts. \<exists>k. length k = 32 \<and> fst (snd t) = box_public (ne_box env) k"
    and st: "path_at (ms_st (ping_all env now ts m)) n a = Some st"
  shows "last_ping_at st = Some now \<or>
    path_at (ms_st m) n a = Some st \<and> \<not> ((\<exists>d. (n, d, a) \<in> set ts) \<and> (\<exists>fd. for_addr env a = Inr fd))"
  using keys st
proof (induction ts arbitrary: m)
  case Nil
  then show ?case by simp
next
  case (Cons t ts)
  obtain node d e where t: "t = (node, d, e)" by (cases t) auto
  have keys: "\<forall>t \<in> set ts. \<exists>k. length k = 32 \<and> fst (snd t) = box_public (ne_box env) k"
    using Cons.prems(1) by simp
  show ?case
  proof (cases "for_addr env e")
    case (Inl err)
    then have "path_at (ms_st (ping_all env now ts m)) n a = Some st"
      using Cons.prems(2) t by simp
    from Cons.IH [OF keys this] show ?thesis using Inl t by auto
  next
    case (Inr fd)
    obtain k where "length k = 32" "d = box_public (ne_box env) k"
      using Cons.prems(1) t by auto
    then obtain m1 tx where send: "send_ping env fd d e m = (m1, Inr tx)" and st1: "ms_st m1 = ms_st m"
      using send_ping_ok [OF env] by blast
    let ?m2 = "map_st (record_ping now node e tx) m1"
    have "path_at (ms_st (ping_all env now ts ?m2)) n a = Some st"
      using Cons.prems(2) t Inr send by simp
    from Cons.IH [OF keys this] consider "last_ping_at st = Some now"
      | "path_at (record_ping now node e tx (ms_st m)) n a = Some st"
        "\<not> ((\<exists>d. (n, d, a) \<in> set ts) \<and> (\<exists>fd. for_addr env a = Inr fd))"
      using st1 by auto
    then show ?thesis
    proof cases
      case 2
      then show ?thesis
        using path_at_record_ping [OF 2(1)] t by (auto split: if_splits)
    qed simp
  qed
qed

lemma ping_pump_no_cmm:
  assumes env: "net_ok env" "net_accepts env" and ok: "magic_ok (ms_st m)" and h: "hist env evs m"
    and keys: "\<And>n p. map_of (ms_peers (ms_st m)) n = Some p \<Longrightarrow>
      \<exists>k. length k = 32 \<and> disco_pub p = box_public (ne_box env) k"
  shows "cmm_pending (ms_st (ping_pump env now m)) = cmm_pending (ms_st m)"
proof -
  let ?ts = "ping_targets now (ms_st m)"
  let ?m = "ping_all env now ?ts m"
  have ts: "\<forall>t \<in> set ?ts. \<exists>k. length k = 32 \<and> fst (snd t) = box_public (ne_box env) k"
  proof
    fix t assume "t \<in> set ?ts"
    then have "(fst t, fst (snd t), snd (snd t)) \<in> set ?ts" by simp
    then obtain n p where "(n, p) \<in> set (ms_peers (ms_st m))" and t: "fst (snd t) = disco_pub p"
      unfolding ping_targets_mem by blast
    then have "map_of (ms_peers (ms_st m)) n = Some p" using magic_ok_distinct [OF ok] by simp
    from keys [OF this] show "\<exists>k. length k = 32 \<and> fst (snd t) = box_public (ne_box env) k"
      by (simp only: t)
  qed
  have ok': "magic_ok (ms_st ?m)"
    by (rule ping_all_ok [OF ok ping_targets_known [OF magic_ok_distinct [OF ok]]])
  have recent: "duration_since now t < CMM_TRIGGER_AFTER"
    if st: "path_at (ms_st ?m) n a = Some st" and t: "last_ping_at st = Some t" for n a st t
  proof -
    from ping_all_pings [OF env ts st] show ?thesis
    proof (elim disjE conjE)
      assume "last_ping_at st = Some now"
      then show ?thesis using t by (simp add: duration_since_def CMM_TRIGGER_AFTER_def)
    next
      assume st0: "path_at (ms_st m) n a = Some st"
        and no: "\<not> ((\<exists>d. (n, d, a) \<in> set ?ts) \<and> (\<exists>fd. for_addr env a = Inr fd))"
      have 2: "\<nexists>d. (n, d, a) \<in> set ?ts" using no histD(3) [OF h st0 t] by blast
      obtain p where p: "map_of (ms_peers (ms_st m)) n = Some p" "map_of (paths p) a = Some st"
        using st0 by (auto simp: path_at_def dest!: Option.bind_eq_Some_conv [THEN iffD1])
      then have "a \<in> fst ` set (paths p)" by (metis domI dom_map_of_conv_image_fst)
      then have "a \<in> set (endpoints p)"
        using magic_ok_peer [OF ok p(1)] by (simp add: peer_ok_def)
      then have "\<not> path_needs_ping (Some st) now"
        using 2 p(2) map_of_SomeD [OF p(1)] unfolding ping_targets_mem by metis
      then show ?thesis
        using t by (auto simp: path_needs_ping_def Let_def HEARTBEAT_INTERVAL_def PING_INTERVAL_def
            CMM_TRIGGER_AFTER_def split: if_splits)
    qed
  qed
  have "\<not> cmm_due now (ms_st ?m) (n, p)" if np: "(n, p) \<in> set (ms_peers (ms_st ?m))" for n p
  proof
    assume due: "cmm_due now (ms_st ?m) (n, p)"
    then obtain t where min: "min_by_key (\<lambda>t. t) (List.map_filter last_ping_at (map snd (paths p))) = Some t"
      and late: "CMM_TRIGGER_AFTER \<le> duration_since now t"
      by (auto simp: cmm_due_def Let_def split: option.splits if_splits)
    then obtain a st where "(a, st) \<in> set (paths p)" "last_ping_at st = Some t"
      using min_by_key_mem [OF min] by (auto simp: List.map_filter_def)
    moreover have "map_of (ms_peers (ms_st ?m)) n = Some p"
      using np magic_ok_distinct [OF ok'] by simp
    moreover from this have "distinct (map fst (paths p))"
      using magic_ok_peer [OF ok'] by (auto simp: peer_ok_def)
    ultimately have "path_at (ms_st ?m) n a = Some st" by (simp add: path_at_def)
    from recent [OF this \<open>last_ping_at st = Some t\<close>] late show False by simp
  qed
  then have "filter (cmm_due now (ms_st ?m)) (ms_peers (ms_st ?m)) = []"
    by (auto simp: filter_empty_conv)
  then have "cmm_pump env now ?m = ?m" by (simp add: cmm_pump_def Let_def)
  moreover have "cmm_pending (ms_st ?m) = cmm_pending (ms_st m)" by (rule ping_all_pending)
  ultimately show ?thesis by (simp add: ping_pump_def)
qed

lemma immediate_pending: "cmm_pending (ms_st (handle_call_me_maybe env now d cmm m)) = cmm_pending (ms_st m)"
  by (simp add: handle_call_me_maybe_def Let_def immediate_pings_eq ping_all_pending split: option.split)

lemma handle_recv_pending: "cmm_pending (ms_st (handle_recv env now fd b src m)) = cmm_pending (ms_st m)"
proof -
  have "cmm_pending (ms_st (handle_disco env now fd b src m)) = cmm_pending (ms_st m)"
  proof (rule handle_disco_keeps [where P = "\<lambda>m'. cmm_pending (ms_st m') = cmm_pending (ms_st m)"])
    fix p ping
    show "cmm_pending (ms_st (send_pong env fd (sender_pub (pkt_header p)) src (ping_tx_id ping)
        (ping_source now (sender_pub (pkt_header p)) src m))) = cmm_pending (ms_st m)"
      by (simp add: frame_simps ping_source_def learn_source_def split: option.split)
  next
    fix p pong
    show "cmm_pending (ms_st (map_st (accept_pong now (sender_pub (pkt_header p)) src (pong_tx_id pong))
        (fulfil_ping now (pong_tx_id pong) m))) = cmm_pending (ms_st m)"
      by (simp add: frame_simps accept_pong_def split: option.split)
  qed (simp_all add: immediate_pending)
  then show ?thesis by (simp add: handle_recv_def frame_simps)
qed

lemma magic_do_pending:
  "ev \<noteq> EvTakeCmm \<Longrightarrow> \<forall>t. ev \<noteq> EvPump t \<Longrightarrow>
    cmm_pending (ms_st (magic_do env ev m)) = cmm_pending (ms_st m)"
proof (induction ev)
  case (EvFromDerp now b)
  show ?case
    unfolding magic_do.simps
    by (rule handle_disco_from_derp_keeps
        [where P = "\<lambda>m'. cmm_pending (ms_st m') = cmm_pending (ms_st m)"]) (simp_all add: immediate_pending)
next
  case (EvUpsert now node disco eps)
  then show ?case by (simp add: ms_upsert_peer_def Let_def)
next
  case (EvRemove node)
  then show ?case by (simp add: ms_remove_peer_def split: option.split)
next
  case (EvSendTo a b)
  then show ?case by (simp add: ms_send_to_def split: sum.split)
next
  case (EvSendDirect a b)
  then show ?case by (simp add: send_direct_def socket_send_def split: sum.split)
qed (simp_all add: frame_simps handle_recv_pending take_send_records_def set_local_endpoints_def
    ms_shutdown_def)

lemma ping_all_single:
  assumes env: "net_ok env" "net_accepts env" and k: "length k = 32"
    and d: "d = box_public (ne_box env) k" and fd: "for_addr env a = Inr fd"
  shows "\<exists>w p tx. length tx = 12 \<and>
    ms_st (ping_all env t0 [(n, d, a)] m) = record_ping t0 n a tx (ms_st m) \<and>
    sent (ping_all env t0 [(n, d, a)] m) = sent m @ [(fd, a, w)] \<and>
    is_disco_message w \<and> open_packet (ne_box env) k w = Inr p \<and>
    sender_pub (pkt_header p) = box_public (ne_box env) (our_disco_priv env) \<and>
    as_msg MtPing ping_cast p =
      Some \<lparr>ping_tx_id = tx, ping_node_key = our_node_pub env, ping_padding = []\<rparr>"
proof -
  let ?tx = "os_fill env (rand_ct m) 12"
  have tx: "length ?tx = 12" using env by (simp add: net_ok_def)
  obtain w m1 nn where s: "send_ping env fd d a m = (m1, Inr ?tx)" "ping_wire env d ?tx nn = Inr w"
    "length nn = nonce_len" "sent m1 = sent m @ [(fd, a, w)]" "ms_st m1 = ms_st m"
    using send_ping_ok [OF env k d] by blast
  obtain p where p: "is_disco_message w" "open_packet (ne_box env) k w = Inr p"
    "sender_pub (pkt_header p) = box_public (ne_box env) (our_disco_priv env)"
    "as_msg MtPing ping_cast p =
      Some \<lparr>ping_tx_id = ?tx, ping_node_key = our_node_pub env, ping_padding = []\<rparr>"
    using ping_wire_opens [OF env(1) k tx s(3)] s(2) d by auto
  show ?thesis
    using s p tx fd by (intro exI [of _ w] exI [of _ p] exI [of _ ?tx]) simp
qed

lemma path_at_record_ping_same:
  "map_of (ms_peers s) n = Some p \<Longrightarrow> \<exists>st. path_at (record_ping t0 n a tx s) n a = Some st \<and>
    last_ping_at st = Some t0 \<and> outstanding_tx_id st = Some tx"
  by (cases "map_of (paths p) a")
    (simp_all add: record_ping_def path_at_modify map_of_map_entry map_of_ensure_path)

lemma pong_accepted:
  assumes "is_disco_message b" and "open_packet (ne_box env) (our_disco_priv env) b = Inr p"
    and "as_msg MtPong pong_cast p = Some pong"
    and "map_of (disco_to_node (ms_st m)) (sender_pub (pkt_header p)) = Some n"
    and "path_at (ms_st m) n a = Some st"
  shows "path_at (ms_st (handle_recv env t1 fd b a m)) n a = Some (pong_path t1 (pong_tx_id pong) st)"
proof -
  obtain q where "map_of (ms_peers (ms_st m)) n = Some q" "map_of (paths q) a = Some st"
    using assms(5) by (auto simp: path_at_def dest!: Option.bind_eq_Some_conv [THEN iffD1])
  then show ?thesis
    using assms(4)
    by (simp add: handle_recv_pong [OF assms(1-3)] accept_pong_def path_at_modify frame_simps
        map_of_map_entry)
qed

section \<open>Properties\<close>

text \<open>
  C3: A direct path is reported alive only when it is validated. Whatever control calls,
  datagrams and pump passes happened, an address returned for a peer has answered: in the
  last thirty seconds a datagram came from that very address that opens, under a Disco key
  the control plane gave for that peer, to a Pong whose transaction id is one of a Ping
  that was sent to the address. Among the alive paths it has the lowest round-trip time.
\<close>

theorem alive_endpoint_validated:
  assumes "alive_endpoint now n (ms_st (magic_run env evs)) = Some a"
  shows "\<exists>t st. duration_since now t < ALIVE_TTL \<and>
    (\<exists>fd b p pong t' eps. EvRecv t fd b a \<in> set evs \<and>
        open_packet (ne_box env) (our_disco_priv env) b = Inr p \<and>
        as_msg MtPong pong_cast p = Some pong \<and>
        EvUpsert t' n (sender_pub (pkt_header p)) eps \<in> set evs \<and>
        (\<exists>fd' d nonce w. (fd', a, w) \<in> set (sent (magic_run env evs)) \<and>
           ping_wire env d (pong_tx_id pong) nonce = Inr w)) \<and>
    path_at (ms_st (magic_run env evs)) n a = Some st \<and>
    (\<forall>a' st'. path_at (ms_st (magic_run env evs)) n a' = Some st' \<and> path_alive now st' \<longrightarrow>
       rtt_or_minute st \<le> rtt_or_minute st')"
proof -
  obtain st where st: "path_at (ms_st (magic_run env evs)) n a = Some st" "path_alive now st"
    and best: "\<forall>a' st'. path_at (ms_st (magic_run env evs)) n a' = Some st' \<and> path_alive now st' \<longrightarrow>
      rtt_or_minute st \<le> rtt_or_minute st'"
    using alive_endpoint_Some [OF magic_run_ok assms] by blast
  then obtain t where t: "last_pong_at st = Some t" "duration_since now t < ALIVE_TTL"
    by (auto simp: path_alive_def split: option.splits)
  have "validated env evs (magic_run env evs) n a t"
    by (rule histD(2) [OF magic_run_hist st(1) t(1)])
  then show ?thesis
    unfolding validated_def ping_sent_def using t(2) st(1) best by blast
qed

text \<open>A concrete environment: the box that flips a bit, and a network that accepts everything.\<close>

definition sample_net :: "u8 \<Rightarrow> net_env" where
  "sample_net i = \<lparr>has_v6 = False, ne_box = plain_box, our_disco_priv = replicate 32 i,
     our_node_pub = replicate 32 (i + 100), os_fill = (\<lambda>k n. replicate n (word_of_nat k)),
     os_send = (\<lambda>_ _ b. Inr (length b)), non_disco_accepts = (\<lambda>_. True)\<rparr>"

lemma sample_net_ok: "net_ok (sample_net i)" "net_accepts (sample_net i)"
  by (simp_all add: net_ok_def net_accepts_def sample_net_def plain_box_ok)

lemma sample_net_simps:
  "ne_box (sample_net i) = plain_box" "our_disco_priv (sample_net i) = replicate 32 i"
  "box_public plain_box k = k" "for_addr (sample_net i) (SockV4 x y) = Inr Fd4"
  by (simp_all add: sample_net_def plain_box_def for_addr_def)

definition sample_start :: magic_sock where
  "sample_start = map_st (ms_upsert_peer 0 (replicate 32 102) (replicate 32 2) [SockV4 5 6]) magic_bind"

lemma sample_start_st:
  "ms_st sample_start = magic_state_default
    \<lparr>ms_peers := [(replicate 32 102, \<lparr>disco_pub = replicate 32 2, endpoints = [SockV4 5 6],
        paths = [(SockV4 5 6, path_new)]\<rparr>)],
     disco_to_node := [(replicate 32 2, replicate 32 102)]\<rparr>"
  by (simp add: sample_start_def magic_bind_def magic_state_default_def ms_upsert_peer_def Let_def
      ensure_path_def)

lemma sample_pump:
  "ping_pump (sample_net 1) 1 sample_start =
    ping_all (sample_net 1) 1 [(replicate 32 102, replicate 32 2, SockV4 5 6)] sample_start"
proof -
  have ts: "ping_targets 1 (ms_st sample_start) = [(replicate 32 102, replicate 32 2, SockV4 5 6)]"
    by (simp add: sample_start_st magic_state_default_def ping_targets_def path_needs_ping_def
        path_new_def path_alive_def)
  have "local_endpoints (ms_st (ping_all (sample_net 1) 1
      [(replicate 32 102, replicate 32 2, SockV4 5 6)] sample_start)) = []"
    using ping_all_single [where env = "sample_net 1" and k = "replicate 32 2" and d = "replicate 32 2"
        and a = "SockV4 5 6" and fd = Fd4 and ?t0.0 = 1 and n = "replicate 32 102" and m = sample_start]
      sample_net_ok
    by (auto simp: sample_net_simps record_ping_def sample_start_st magic_state_default_def
        simp del: ping_all.simps)
  then show ?thesis
    unfolding ping_pump_def ts by (simp only: cmm_pump_def Let_def if_True simp_thms)
qed

lemma sample_alive:
  "\<exists>w. alive_endpoint 3 (replicate 32 102) (ms_st (magic_run (sample_net 1)
     [EvUpsert 0 (replicate 32 102) (replicate 32 2) [SockV4 5 6], EvPump 1,
      EvRecv 2 Fd4 w (SockV4 5 6)])) \<noteq> None"
proof -
  let ?n = "replicate 32 102 :: bytes" and ?d = "replicate 32 2 :: bytes" and ?a = "SockV4 5 6"
  let ?m = "ping_pump (sample_net 1) 1 sample_start"
  obtain tx where tx: "length tx = 12" and st: "ms_st ?m = record_ping 1 ?n ?a tx (ms_st sample_start)"
    using ping_all_single [where env = "sample_net 1" and k = ?d and d = ?d
        and a = ?a and fd = Fd4 and ?t0.0 = 1 and n = ?n and m = sample_start] sample_net_ok
    unfolding sample_pump by (auto simp: sample_net_simps simp del: ping_all.simps)
  obtain w p where w: "pong_wire (sample_net 2) (box_public plain_box (replicate 32 1)) ?a tx (replicate 24 0) = Inr w"
    "is_disco_message w" "open_packet plain_box (replicate 32 1) w = Inr p"
    "sender_pub (pkt_header p) = ?d"
    "as_msg MtPong pong_cast p = Some \<lparr>pong_tx_id = tx, pong_src = from_socket_addr ?a\<rparr>"
    using pong_wire_opens [where env = "sample_net 2" and k = "replicate 32 1" and tx = tx
        and n = "replicate 24 0" and src = ?a] sample_net_ok tx
    by (auto simp: sample_net_simps nonce_len_def)
  let ?r = "magic_run (sample_net 1) [EvUpsert 0 ?n ?d [?a], EvPump 1, EvRecv 2 Fd4 w ?a]"
  have run: "?r = handle_recv (sample_net 1) 2 Fd4 w ?a ?m"
    by (simp add: magic_run_def sample_start_def)
  obtain st1 where st1: "path_at (ms_st ?m) ?n ?a = Some st1" "outstanding_tx_id st1 = Some tx"
    using path_at_record_ping_same [of "ms_st sample_start" ?n _ 1 ?a tx]
    unfolding st by (auto simp: sample_start_st magic_state_default_def)
  have d2n: "map_of (disco_to_node (ms_st ?m)) (sender_pub (pkt_header p)) = Some ?n"
    unfolding st w(4) by (simp add: record_ping_def sample_start_st)
  have "path_at (ms_st ?r) ?n ?a = Some (pong_path 2 tx st1)"
    unfolding run using pong_accepted [OF w(2) _ w(5) d2n st1(1), of "sample_net 1" 2 Fd4] w(3)
    by (simp add: sample_net_simps)
  moreover have "path_alive 3 (pong_path 2 tx st1)"
    using st1(2) by (simp add: pong_path_def path_alive_def duration_since_def ALIVE_TTL_def)
  ultimately have "alive_endpoint 3 ?n (ms_st ?r) \<noteq> None"
    by (rule alive_endpoint_exists)
  then show ?thesis by blast
qed

theorem alive_endpoint_validated_witness:
  "\<exists>w a t p pong.
     alive_endpoint 3 (replicate 32 102) (ms_st (magic_run (sample_net 1)
       [EvUpsert 0 (replicate 32 102) (replicate 32 2) [SockV4 5 6], EvPump 1,
        EvRecv 2 Fd4 w (SockV4 5 6)])) = Some a \<and>
     a = SockV4 5 6 \<and> t = 2 \<and>
     open_packet plain_box (replicate 32 1) w = Inr p \<and> as_msg MtPong pong_cast p = Some pong"
proof -
  obtain w a where "alive_endpoint 3 (replicate 32 102) (ms_st (magic_run (sample_net 1)
      [EvUpsert 0 (replicate 32 102) (replicate 32 2) [SockV4 5 6], EvPump 1,
       EvRecv 2 Fd4 w (SockV4 5 6)])) = Some a"
    using sample_alive by blast
  from alive_endpoint_validated [OF this] this show ?thesis
    by (fastforce simp: sample_net_simps)
qed

text \<open>
  C18: A ping and its pong validate a direct path end to end. When both sides hold keys of
  the same box, the datagram the pinging side puts on its socket makes the other side put
  one datagram on its own, addressed to where the ping came from; delivered back from the
  pinged address, it makes the path alive for thirty seconds from its arrival, with the
  time since the ping as its round-trip time.
\<close>

theorem ping_pong_validates_path:
  assumes "net_ok A" and "net_accepts A" and "net_ok B" and "ne_box B = ne_box A"
    and "map_of (ms_peers (ms_st m)) n = Some q"
    and "disco_pub q = box_public (ne_box A) (our_disco_priv B)"
    and "map_of (disco_to_node (ms_st m)) (disco_pub q) = Some n"
    and "for_addr A a = Inr fd"
  shows "\<exists>w. sent (ping_all A t0 [(n, disco_pub q, a)] m) = sent m @ [(fd, a, w)] \<and>
    (\<exists>w'. sent (handle_recv B tb fdb w src mb) = sent mb @ [(fdb, src, w')] \<and>
      (\<exists>st. path_at (ms_st (handle_recv A t1 fda w' a (ping_all A t0 [(n, disco_pub q, a)] m))) n a = Some st \<and>
         path_rtt st = Some (duration_since t1 t0) \<and>
         (\<forall>now. path_alive now st \<longleftrightarrow> duration_since now t1 < ALIVE_TTL)))"
proof -
  let ?m1 = "ping_all A t0 [(n, disco_pub q, a)] m"
  have kb: "length (our_disco_priv B) = 32" using assms(3) by (simp add: net_ok_def)
  have ka: "length (our_disco_priv A) = 32" using assms(1) by (simp add: net_ok_def)
  obtain w p tx where tx: "length tx = 12" and st1: "ms_st ?m1 = record_ping t0 n a tx (ms_st m)"
    and snt: "sent ?m1 = sent m @ [(fd, a, w)]" and w: "is_disco_message w"
      "open_packet (ne_box A) (our_disco_priv B) w = Inr p"
      "sender_pub (pkt_header p) = box_public (ne_box A) (our_disco_priv A)"
      "as_msg MtPing ping_cast p = Some \<lparr>ping_tx_id = tx, ping_node_key = our_node_pub A, ping_padding = []\<rparr>"
    using ping_all_single [OF assms(1,2) kb assms(6,8)] by blast
  let ?mb = "ping_source tb (sender_pub (pkt_header p)) src mb"
  have recv: "handle_recv B tb fdb w src mb = send_pong B fdb (sender_pub (pkt_header p)) src tx ?mb"
    using handle_recv_ping [of w B p _ tb fdb src mb] w assms(4) by simp
  obtain w' p' where w': "pong_wire B (box_public (ne_box A) (our_disco_priv A)) src tx
        (os_fill B (rand_ct ?mb) nonce_len) = Inr w'"
      "is_disco_message w'" "open_packet (ne_box A) (our_disco_priv A) w' = Inr p'"
      "sender_pub (pkt_header p') = disco_pub q"
      "as_msg MtPong pong_cast p' = Some \<lparr>pong_tx_id = tx, pong_src = from_socket_addr src\<rparr>"
    using pong_wire_opens [OF assms(3) ka tx, of "os_fill B (rand_ct ?mb) nonce_len" src]
      assms(3,4,6) by (auto simp: net_ok_def)
  have "sent ?mb = sent mb" by (simp add: ping_source_def split: option.split)
  then have snt': "sent (handle_recv B tb fdb w src mb) = sent mb @ [(fdb, src, w')]"
    using w'(1) unfolding recv w(3)
    by (simp add: send_pong_def Let_def fill_bytes_def pong_wire_def [symmetric] socket_send_def w(3))
  obtain st where st: "path_at (ms_st ?m1) n a = Some st" "last_ping_at st = Some t0"
    "outstanding_tx_id st = Some tx"
    unfolding st1 using path_at_record_ping_same [OF assms(5)] by blast
  have d2n: "map_of (disco_to_node (ms_st ?m1)) (sender_pub (pkt_header p')) = Some n"
    unfolding st1 w'(4) using assms(7) by (simp add: record_ping_def)
  have "path_at (ms_st (handle_recv A t1 fda w' a ?m1)) n a = Some (pong_path t1 tx st)"
    using pong_accepted [OF w'(2,3,5) d2n st(1), of t1 fda] by simp
  moreover have "path_rtt (pong_path t1 tx st) = Some (duration_since t1 t0)"
    "\<And>now. path_alive now (pong_path t1 tx st) \<longleftrightarrow> duration_since now t1 < ALIVE_TTL"
    using st by (simp_all add: pong_path_def path_alive_def)
  ultimately show ?thesis using snt snt' by blast
qed

theorem ping_pong_validates_path_witness:
  "\<exists>w w' st. sent (ping_all (sample_net 1) 1 [(replicate 32 102, replicate 32 2, SockV4 5 6)] sample_start)
       = [(Fd4, SockV4 5 6, w)] \<and>
     sent (handle_recv (sample_net 2) 2 Fd4 w (SockV4 7 8) magic_bind) = [(Fd4, SockV4 7 8, w')] \<and>
     path_at (ms_st (handle_recv (sample_net 1) 4 Fd4 w' (SockV4 5 6)
       (ping_all (sample_net 1) 1 [(replicate 32 102, replicate 32 2, SockV4 5 6)] sample_start)))
       (replicate 32 102) (SockV4 5 6) = Some st \<and>
     path_rtt st = Some 3 \<and> path_alive 100 st"
proof -
  let ?q = "\<lparr>disco_pub = replicate 32 2, endpoints = [SockV4 5 6], paths = [(SockV4 5 6, path_new)]\<rparr>"
  have q: "map_of (ms_peers (ms_st sample_start)) (replicate 32 102) = Some ?q"
    "map_of (disco_to_node (ms_st sample_start)) (disco_pub ?q) = Some (replicate 32 102)"
    by (simp_all add: sample_start_st)
  have d: "disco_pub ?q = box_public (ne_box (sample_net 1)) (our_disco_priv (sample_net 2))"
    by (simp add: sample_net_simps)
  have e: "sent sample_start = []" "sent magic_bind = []"
    by (simp_all add: sample_start_def magic_bind_def)
  show ?thesis
    using ping_pong_validates_path [OF sample_net_ok sample_net_ok(1) _ q(1) d q(2),
        of "SockV4 5 6" Fd4 1 2 Fd4 "SockV4 7 8" magic_bind 4 Fd4]
    by (simp add: sample_net_simps e duration_since_def ALIVE_TTL_def del: ping_all.simps) fastforce
qed





end
