(* ===== verification/Netcheck.thy ===== *)
theory Netcheck
  imports Magicsock
begin

text \<open>
  The network check of \<open>crates/ts-magicsock/src/netcheck.rs\<close>: STUN probes to the relay
  regions through the magic socket, the report built from the answers, and the fallback
  to public STUN servers. What a wait on a probe's channel returned, and what a host name
  resolves to, are parameters. Latencies are kept as durations; the source converts them
  to seconds as floating-point numbers for the control plane.
\<close>

definition DEFAULT_PROBE_TIMEOUT :: duration where "DEFAULT_PROBE_TIMEOUT = millis 1500"
definition STUN_PORT :: u16 where "STUN_PORT = 3478"

definition PUBLIC_STUN_FALLBACKS :: "string list" where
  "PUBLIC_STUN_FALLBACKS =
     [''stun.l.google.com:19302'', ''stun.cloudflare.com:3478'', ''global.stun.twilio.com:3478'']"

record region_probe =
  rp_region_id :: u16
  rp_target :: sock_addr
  rp_rtt :: duration
  rp_reflected :: sock_addr

record netcheck_report =
  derp_latency :: "(u16 \<times> duration) list"
  preferred_derp :: u16
  public_endpoint :: "sock_addr option"
  public_endpoint_v6 :: "sock_addr option"
  probes :: "region_probe list"

record stun_target =
  st_region_id :: u16
  ipv4_addr :: "sock_addr option"
  ipv6_addr :: "sock_addr option"

type_synonym inflight = "(u16 \<times> sock_addr \<times> nat) list"

text \<open>A probe that could not be sent is left out.\<close>

definition launch_one :: "net_env \<Rightarrow> instant \<Rightarrow> u16 \<Rightarrow> sock_addr option \<Rightarrow> magic_sock \<times> inflight
    \<Rightarrow> magic_sock \<times> inflight" where
  "launch_one env now region dst s =
     (case dst of
        None \<Rightarrow> s
      | Some a \<Rightarrow>
          (case stun_probe env now a (fst s) of
             (m, Inr rx) \<Rightarrow> (m, snd s @ [(region, a, rx)])
           | (m, Inl _) \<Rightarrow> (m, snd s)))"

definition launch :: "net_env \<Rightarrow> instant \<Rightarrow> stun_target \<Rightarrow> magic_sock \<times> inflight \<Rightarrow> magic_sock \<times> inflight" where
  "launch env now t s =
     launch_one env now (st_region_id t) (ipv6_addr t) (launch_one env now (st_region_id t) (ipv4_addr t) s)"

text \<open>\<open>None\<close> is a timeout or a parse failure, which the report drops.\<close>

fun collect :: "(nat \<Rightarrow> probe_result option) \<Rightarrow> inflight \<Rightarrow> region_probe list" where
  "collect recv [] = []"
| "collect recv ((region, a, rx) # xs) =
     (case recv rx of
        Some (Inr (reflected, rtt)) \<Rightarrow>
          \<lparr>rp_region_id = region, rp_target = a, rp_rtt = rtt, rp_reflected = reflected\<rparr> # collect recv xs
      | Some (Inl _) \<Rightarrow> collect recv xs
      | None \<Rightarrow> collect recv xs)"

definition aggregate :: "region_probe list \<Rightarrow> netcheck_report" where
  "aggregate ps =
     \<lparr>derp_latency = fold (\<lambda>p. AList.update (rp_region_id p) (rp_rtt p)) ps [],
      preferred_derp = (case min_by_key rp_rtt ps of Some p \<Rightarrow> rp_region_id p | None \<Rightarrow> 0),
      public_endpoint = map_option rp_reflected
        (min_by_key rp_rtt (filter (\<lambda>p. is_ipv4 (rp_reflected p)) ps)),
      public_endpoint_v6 = map_option rp_reflected
        (min_by_key rp_rtt (filter (\<lambda>p. \<not> is_ipv4 (rp_reflected p)) ps)),
      probes = ps\<rparr>"

definition probe_targets :: "net_env \<Rightarrow> instant \<Rightarrow> stun_target list \<Rightarrow> (nat \<Rightarrow> probe_result option)
    \<Rightarrow> magic_sock \<Rightarrow> magic_sock \<times> netcheck_report" where
  "probe_targets env now targets recv m =
     (let (m, inflight) = fold (launch env now) targets (m, []) in
      (m, aggregate (collect recv inflight)))"

text \<open>
  \<open>discover_one_family\<close>: the public servers one after the other until one answers.
\<close>

fun discover_servers :: "net_env \<Rightarrow> instant \<Rightarrow> (string \<Rightarrow> sock_addr list option) \<Rightarrow> bool
    \<Rightarrow> (nat \<Rightarrow> probe_result option) \<Rightarrow> string list \<Rightarrow> magic_sock \<Rightarrow> magic_sock \<times> sock_addr option" where
  "discover_servers env now resolve want_v6 recv [] m = (m, None)"
| "discover_servers env now resolve want_v6 recv (h # hs) m =
     (let resolved = (case resolve h of
            Some as \<Rightarrow> find (\<lambda>a. if want_v6 then \<not> is_ipv4 a else is_ipv4 a) as
          | None \<Rightarrow> None) in
      case resolved of
        None \<Rightarrow> discover_servers env now resolve want_v6 recv hs m
      | Some target \<Rightarrow>
          (case stun_probe env now target m of
             (m, Inl _) \<Rightarrow> discover_servers env now resolve want_v6 recv hs m
           | (m, Inr rx) \<Rightarrow>
               (case recv rx of
                  Some (Inr (reflected, rtt)) \<Rightarrow> (m, Some reflected)
                | Some (Inl _) \<Rightarrow> discover_servers env now resolve want_v6 recv hs m
                | None \<Rightarrow> discover_servers env now resolve want_v6 recv hs m)))"

definition discover_one_family where
  "discover_one_family env now resolve recv want_v6 m =
     discover_servers env now resolve want_v6 recv PUBLIC_STUN_FALLBACKS m"

definition discover_public_endpoint where
  "discover_public_endpoint env now resolve recv m = discover_one_family env now resolve recv False m"

definition discover_public_endpoints_dual where
  "discover_public_endpoints_dual env now resolve recv m =
     (let (m, v4) = discover_one_family env now resolve recv False m;
          (m, v6) = discover_one_family env now resolve recv True m in
      (m, (v4, v6)))"

section \<open>A probe and its answer\<close>

lemma stun_probe_Inr:
  assumes "stun_probe env t0 a m = (m1, Inr ch)"
  shows "ch = chan_ct m \<and> results m1 = results m \<and> chan_ct m1 = Suc (chan_ct m) \<and>
    map_of (stun_outstanding (ms_st m1)) (os_fill env (rand_ct m) 12)
      = Some \<lparr>si_sent_at = t0, si_chan = ch\<rparr> \<and>
    (\<exists>fd. for_addr env a = Inr fd \<and>
       sent m1 = sent m @ [(fd, a, encode_binding_request (os_fill env (rand_ct m) 12))])"
  using assms
  by (auto simp: stun_probe_def Let_def fill_bytes_def socket_send_def map_st_def update_conv'
      split: sum.splits)

lemma stun_probe_Inl:
  assumes "stun_probe env t0 a m = (m1, Inl e)"
  shows "map_of (stun_outstanding (ms_st m1)) (os_fill env (rand_ct m) 12) = None"
  using assms
  by (auto simp: stun_probe_def Let_def fill_bytes_def socket_send_def map_st_def delete_conv'
      split: sum.splits)

text \<open>
  C22: A STUN probe completes. When the server answers the transaction id of the request
  that was put on the wire with the address it saw, the socket sends exactly that address
  and the time since the probe to the prober's channel, whatever other attributes the
  answer carries; a second copy of the answer is ignored.
\<close>

theorem stun_probe_completes:
  assumes "stun_probe env t0 target m = (m1, Inr ch)"
    and "length (os_fill env (rand_ct m) 12) = TX_ID_LEN" and "list_all attr_ok attrs"
    and "length (concat (map attr_bytes attrs)) < 2 ^ 16"
    and "find (\<lambda>a. fst a = ATTR_XOR_MAPPED_ADDRESS) attrs =
      Some (ATTR_XOR_MAPPED_ADDRESS, xor_mapped (os_fill env (rand_ct m) 12) ip port)"
  shows "\<exists>fd. sent m1 = sent m @ [(fd, target, encode_binding_request (os_fill env (rand_ct m) 12))] \<and>
    (let answer = binding_success (os_fill env (rand_ct m) 12) attrs;
         m2 = handle_recv env t1 fd' answer src m1 in
     results m2 = results m @ [(ch, Inr (sock_new ip port, duration_since t1 t0))] \<and>
     handle_recv env t2 fd' answer src m2 = m2)"
proof -
  let ?tx = "os_fill env (rand_ct m) 12"
  let ?b = "binding_success ?tx attrs"
  note p = stun_probe_Inr [OF assms(1)]
  have stun: "looks_like_stun ?b" and tx: "tx_id_from ?b = Some ?tx"
    using assms(2)
    by (simp_all add: looks_like_stun_def binding_success_def Let_def HEADER_LEN_def TX_ID_LEN_def
        u16_to_be_bytes_def u32_to_be_bytes_def tx_id_from_def byte_range_def)
  have parse: "parse_binding_response ?b = Some (sock_new ip port)"
    using parse_binding_success [OF assms(2-4), of "[]"] assms(2,5)
    by (simp add: xor_mapped_parse TX_ID_LEN_def)
  have gone: "map_of (AList.delete ?tx (stun_outstanding (ms_st m1))) ?tx = None"
    by (simp add: delete_conv')
  show ?thesis
    using p gone
    by (auto simp: Let_def handle_recv_def stun handle_stun_response_def tx parse map_st_def)
qed

theorem stun_probe_completes_witness:
  "\<exists>m1 ch. stun_probe (sample_net 1) 10 (SockV4 9 3478) magic_bind = (m1, Inr ch) \<and>
     results (handle_recv (sample_net 1) 25 Fd4
       (binding_success (replicate 12 0) [(ATTR_XOR_MAPPED_ADDRESS, xor_mapped (replicate 12 0) (IpV4 7) 80)])
       (SockV4 9 3478) m1) = [(ch, Inr (SockV4 7 80, 15))]"
proof -
  have f: "os_fill (sample_net 1) (rand_ct magic_bind) 12 = replicate 12 0"
    by (simp add: sample_net_def magic_bind_def)
  obtain m1 ch where p: "stun_probe (sample_net 1) 10 (SockV4 9 3478) magic_bind = (m1, Inr ch)"
    by (simp add: stun_probe_def Let_def fill_bytes_def socket_send_def for_addr_def sample_net_def)
  have "results magic_bind = []" by (simp add: magic_bind_def)
  then show ?thesis
    using p stun_probe_completes [OF p, of "[(ATTR_XOR_MAPPED_ADDRESS, xor_mapped (replicate 12 0) (IpV4 7) 80)]"
        "IpV4 7" 80 25 Fd4 "SockV4 9 3478" 26]
    unfolding f
    by (auto simp: TX_ID_LEN_def attr_ok_def length_attr_bytes xor_mapped_def Let_def xor_bytes_def
        ipv4_octets_def sock_new_def duration_since_def)
qed

section \<open>The report\<close>

lemma collect_mem:
  "p \<in> set (collect recv xs) \<longleftrightarrow>
    (\<exists>rx. (rp_region_id p, rp_target p, rx) \<in> set xs \<and> recv rx = Some (Inr (rp_reflected p, rp_rtt p)))"
  by (induction recv xs rule: collect.induct) (auto split: option.splits sum.splits)

text \<open>The report names the region that answered fastest, and the fastest reflection of each family.\<close>

lemma aggregate_best:
  "preferred_derp (aggregate ps) = r \<Longrightarrow> ps \<noteq> [] \<Longrightarrow>
    \<exists>p \<in> set ps. rp_region_id p = r \<and> (\<forall>q \<in> set ps. rp_rtt p \<le> rp_rtt q)"
  "public_endpoint (aggregate ps) = Some a \<Longrightarrow>
    is_ipv4 a \<and> (\<exists>p \<in> set ps. rp_reflected p = a \<and>
      (\<forall>q \<in> set ps. is_ipv4 (rp_reflected q) \<longrightarrow> rp_rtt p \<le> rp_rtt q))"
proof -
  assume r: "preferred_derp (aggregate ps) = r" and "ps \<noteq> []"
  then obtain p where "min_by_key rp_rtt ps = Some p" by (metis min_by_key_None not_None_eq)
  then show "\<exists>p \<in> set ps. rp_region_id p = r \<and> (\<forall>q \<in> set ps. rp_rtt p \<le> rp_rtt q)"
    using r min_by_key_mem min_by_key_le by (fastforce simp: aggregate_def)
next
  assume "public_endpoint (aggregate ps) = Some a"
  then obtain p where p: "min_by_key rp_rtt (filter (\<lambda>p. is_ipv4 (rp_reflected p)) ps) = Some p"
    and "rp_reflected p = a"
    by (auto simp: aggregate_def)
  with min_by_key_mem [OF p] min_by_key_le [OF p]
  show "is_ipv4 a \<and> (\<exists>p \<in> set ps. rp_reflected p = a \<and>
      (\<forall>q \<in> set ps. is_ipv4 (rp_reflected q) \<longrightarrow> rp_rtt p \<le> rp_rtt q))"
    by auto
qed

end
