(* ===== verification/Chan.thy ===== *)
theory Chan
  imports Prelude
begin

text \<open>
  The channels of \<open>crates/vita-chan/src/lib.rs\<close> and the wake-up queue of
  \<open>crates/wg-engine/src/queue.rs\<close>. The operations are functions on the shared record, one
  for each pass of a blocking loop. The threads that use a channel are a list of program
  counters and the interleavings an \<open>inductive\<close> step relation: a pass runs under the
  queue's mutex, deciding to wait and going to sleep are two steps with the mutex held in
  between, and the counters and the condition variables are touched without it, as the
  source does. A sleeping thread wakes by a notification, by its timeout, or
  spuriously, as condition variables may.
\<close>

section \<open>Channels\<close>

datatype 'a send_error = SendError 'a
datatype 'a try_send_error = Full 'a | SendDisconnected 'a
datatype recv_error = RecvError
datatype try_recv_error = Empty | RecvDisconnected
datatype recv_timeout_error = Timeout | TimeoutDisconnected

text \<open>
  \<open>Shared\<close> without its condition variables, whose waiting threads are in the thread list.
  Two ghost fields remember what was enqueued and what was handed out.
\<close>

record 'a chan =
  cap :: "nat option"
  queue :: "'a list"
  sender_count :: nat
  receiver_count :: nat
  log_in :: "'a list"
  log_out :: "'a list"

definition shared_new :: "nat option \<Rightarrow> 'a chan" where
  "shared_new c = \<lparr>cap = c, queue = [], sender_count = 1, receiver_count = 1, log_in = [], log_out = []\<rparr>"

definition is_full :: "'a chan \<Rightarrow> nat \<Rightarrow> bool" where
  "is_full c len = (case cap c of Some n \<Rightarrow> n \<le> len | None \<Rightarrow> False)"

definition bounded :: "nat \<Rightarrow> 'a chan" where
  "bounded n = shared_new (Some (max n 1))"

definition unbounded :: "'a chan" where
  "unbounded = shared_new None"

definition push_back :: "'a \<Rightarrow> 'a chan \<Rightarrow> 'a chan" where
  "push_back v c = c\<lparr>queue := queue c @ [v], log_in := log_in c @ [v]\<rparr>"

definition pop_front :: "'a chan \<Rightarrow> ('a \<times> 'a chan) option" where
  "pop_front c =
     (case queue c of
        [] \<Rightarrow> None
      | v # q \<Rightarrow> Some (v, c\<lparr>queue := q, log_out := log_out c @ [v]\<rparr>))"

text \<open>A pass of a blocking loop ends with a result, or with the decision to wait.\<close>

datatype 'r pass = Return 'r | Wait

definition send_pass :: "'a \<Rightarrow> 'a chan \<Rightarrow> 'a chan \<times> ('a send_error + unit) pass" where
  "send_pass v c =
     (if receiver_count c = 0 then (c, Return (Inl (SendError v)))
      else if \<not> is_full c (length (queue c)) then (push_back v c, Return (Inr ()))
      else (c, Wait))"

definition try_send :: "'a \<Rightarrow> 'a chan \<Rightarrow> 'a chan \<times> ('a try_send_error + unit)" where
  "try_send v c =
     (if receiver_count c = 0 then (c, Inl (SendDisconnected v))
      else if is_full c (length (queue c)) then (c, Inl (Full v))
      else (push_back v c, Inr ()))"

definition send_timeout_pass :: "'a \<Rightarrow> duration \<Rightarrow> 'a chan \<Rightarrow> 'a chan \<times> ('a try_send_error + unit) pass" where
  "send_timeout_pass v remaining c =
     (if receiver_count c = 0 then (c, Return (Inl (SendDisconnected v)))
      else if \<not> is_full c (length (queue c)) then (push_back v c, Return (Inr ()))
      else if remaining = 0 then (c, Return (Inl (Full v)))
      else (c, Wait))"

definition recv_pass :: "'a chan \<Rightarrow> 'a chan \<times> (recv_error + 'a) pass" where
  "recv_pass c =
     (case pop_front c of
        Some (v, c) \<Rightarrow> (c, Return (Inr v))
      | None \<Rightarrow> if sender_count c = 0 then (c, Return (Inl RecvError)) else (c, Wait))"

definition try_recv :: "'a chan \<Rightarrow> 'a chan \<times> (try_recv_error + 'a)" where
  "try_recv c =
     (case pop_front c of
        Some (v, c) \<Rightarrow> (c, Inr v)
      | None \<Rightarrow> if sender_count c = 0 then (c, Inl RecvDisconnected) else (c, Inl Empty))"

definition recv_timeout_pass :: "duration \<Rightarrow> 'a chan \<Rightarrow> 'a chan \<times> (recv_timeout_error + 'a) pass" where
  "recv_timeout_pass remaining c =
     (case pop_front c of
        Some (v, c) \<Rightarrow> (c, Return (Inr v))
      | None \<Rightarrow>
          if sender_count c = 0 then (c, Return (Inl TimeoutDisconnected))
          else if remaining = 0 then (c, Return (Inl Timeout))
          else (c, Wait))"

text \<open>What a timed wait leaves of the budget: nothing on a timeout, else what has not elapsed.\<close>

definition remaining_after :: "bool \<Rightarrow> duration \<Rightarrow> duration \<Rightarrow> duration" where
  "remaining_after timed_out elapsed remaining = (if timed_out then 0 else remaining - elapsed)"

definition chan_len :: "'a chan \<Rightarrow> nat" where
  "chan_len c = length (queue c)"

definition chan_is_empty :: "'a chan \<Rightarrow> bool" where
  "chan_is_empty c = (chan_len c = 0)"

definition sender_clone :: "'a chan \<Rightarrow> 'a chan" where
  "sender_clone c = c\<lparr>sender_count := sender_count c + 1\<rparr>"

definition receiver_clone :: "'a chan \<Rightarrow> 'a chan" where
  "receiver_clone c = c\<lparr>receiver_count := receiver_count c + 1\<rparr>"

text \<open>The flag says that the last handle went, after which all waiters are notified.\<close>

definition sender_drop :: "'a chan \<Rightarrow> 'a chan \<times> bool" where
  "sender_drop c = (c\<lparr>sender_count := sender_count c - 1\<rparr>, sender_count c = 1)"

definition receiver_drop :: "'a chan \<Rightarrow> 'a chan \<times> bool" where
  "receiver_drop c = (c\<lparr>receiver_count := receiver_count c - 1\<rparr>, receiver_count c = 1)"

section \<open>The wake-up queue\<close>

type_synonym 'a notify_queue = "'a list"

definition nq_new :: "'a notify_queue" where
  "nq_new = []"

definition nq_push :: "'a \<Rightarrow> 'a notify_queue \<Rightarrow> 'a notify_queue" where
  "nq_push x q = q @ [x]"

definition nq_try_pop :: "'a notify_queue \<Rightarrow> 'a notify_queue \<times> 'a option" where
  "nq_try_pop q = (case q of [] \<Rightarrow> ([], None) | x # q \<Rightarrow> (q, Some x))"

definition nq_drain_into :: "'a list \<Rightarrow> 'a notify_queue \<Rightarrow> 'a notify_queue \<times> 'a list \<times> nat" where
  "nq_drain_into out q = ([], out @ q, length q)"

section \<open>First in, first out\<close>

fun get_many :: "('s \<Rightarrow> 's \<times> 'a option) \<Rightarrow> nat \<Rightarrow> 's \<Rightarrow> 's \<times> 'a list" where
  "get_many get 0 s = (s, [])"
| "get_many get (Suc n) s =
     (case get s of
        (s, None) \<Rightarrow> (s, [])
      | (s, Some x) \<Rightarrow> (case get_many get n s of (s, xs) \<Rightarrow> (s, x # xs)))"

text \<open>
  What the clients of a queue rely on: an abstraction to the list of waiting items, a
  \<open>put\<close> at its end and a \<open>get\<close> at its front.
\<close>

locale fifo =
  fixes items :: "'s \<Rightarrow> 'a list"
    and put :: "'a \<Rightarrow> 's \<Rightarrow> 's"
    and get :: "'s \<Rightarrow> 's \<times> 'a option"
    and ok :: "'s \<Rightarrow> bool"
  assumes put_items: "ok s \<Longrightarrow> items (put x s) = items s @ [x]"
    and put_ok: "ok s \<Longrightarrow> ok (put x s)"
    and get_items: "ok s \<Longrightarrow> items (fst (get s)) = tl (items s)"
    and get_value: "ok s \<Longrightarrow> snd (get s) = (case items s of [] \<Rightarrow> None | x # _ \<Rightarrow> Some x)"
    and get_ok: "ok s \<Longrightarrow> ok (fst (get s))"
begin

lemma puts: "ok s \<Longrightarrow> ok (fold put xs s) \<and> items (fold put xs s) = items s @ xs"
  by (induction xs arbitrary: s) (simp_all add: put_items put_ok)

text \<open>Taking \<open>n\<close> times returns the \<open>n\<close> oldest items in order.\<close>

lemma gets:
  "ok s \<Longrightarrow> snd (get_many get n s) = take n (items s) \<and> items (fst (get_many get n s)) = drop n (items s)"
proof (induction n arbitrary: s)
  case (Suc n)
  show ?case
  proof (cases "items s")
    case Nil
    then show ?thesis using get_value [OF Suc.prems] get_items [OF Suc.prems]
      by (simp add: case_prod_beta)
  next
    case (Cons x xs)
    then have "snd (get s) = Some x" "items (fst (get s)) = xs" "ok (fst (get s))"
      using get_value [OF Suc.prems] get_items [OF Suc.prems] get_ok [OF Suc.prems] by simp_all
    then show ?thesis using Suc.IH [of "fst (get s)"] Cons by (simp add: case_prod_beta)
  qed
qed simp

lemma puts_gets:
  "ok s \<Longrightarrow> items s = [] \<Longrightarrow> snd (get_many get (length xs) (fold put xs s)) = xs"
  using puts gets by fastforce

end

interpretation nq: fifo "\<lambda>q. q" nq_push nq_try_pop "\<lambda>_. True"
  by unfold_locales (auto simp: nq_push_def nq_try_pop_def split: list.split)

text \<open>An unbounded channel with a live receiver is one.\<close>

definition chan_open :: "'a chan \<Rightarrow> bool" where
  "chan_open c \<longleftrightarrow> cap c = None \<and> 0 < receiver_count c"

definition chan_get :: "'a chan \<Rightarrow> 'a chan \<times> 'a option" where
  "chan_get c = (case try_recv c of (c, Inr v) \<Rightarrow> (c, Some v) | (c, Inl _) \<Rightarrow> (c, None))"

interpretation ch: fifo queue "\<lambda>v c. fst (try_send v c)" chan_get chan_open
  by unfold_locales
    (auto simp: try_send_def chan_open_def is_full_def push_back_def chan_get_def try_recv_def
      pop_front_def split: list.split)

section \<open>Threads\<close>

text \<open>
  A thread is outside the channel, in a blocking loop (about to take the mutex, having
  decided to wait, asleep), or past the mutex with a notification still to make. The
  budget is \<open>None\<close> in \<open>send\<close> and \<open>recv\<close> and what remains in the timed forms.
\<close>

datatype 'a pc =
    Idle
  | SendTop 'a "duration option"
  | SendWait 'a "duration option"
  | SendSleep 'a "duration option"
  | RecvTop "duration option"
  | RecvWait "duration option"
  | RecvSleep "duration option"
  | NotifyEmpty
  | NotifyFull
  | NotifyAllEmpty
  | NotifyAllFull

fun holds_lock :: "'a pc \<Rightarrow> bool" where
  "holds_lock (SendWait _ _) = True"
| "holds_lock (RecvWait _) = True"
| "holds_lock _ = False"

definition unlocked :: "'a pc list \<Rightarrow> bool" where
  "unlocked ts = (\<not> list_ex holds_lock ts)"

fun after_wait :: "bool \<Rightarrow> duration \<Rightarrow> duration option \<Rightarrow> duration option" where
  "after_wait timed_out elapsed None = None"
| "after_wait timed_out elapsed (Some r) = Some (remaining_after timed_out elapsed r)"

fun is_recv_sleep :: "'a pc \<Rightarrow> bool" where
  "is_recv_sleep (RecvSleep _) = True"
| "is_recv_sleep _ = False"

fun is_send_sleep :: "'a pc \<Rightarrow> bool" where
  "is_send_sleep (SendSleep _ _) = True"
| "is_send_sleep _ = False"

fun wake :: "bool \<Rightarrow> duration \<Rightarrow> 'a pc \<Rightarrow> 'a pc" where
  "wake to e (RecvSleep r) = RecvTop (after_wait to e r)"
| "wake to e (SendSleep v r) = SendTop v (after_wait to e r)"
| "wake to e t = t"

definition send_or_timeout :: "'a \<Rightarrow> duration option \<Rightarrow> 'a chan \<Rightarrow> 'a chan \<times> 'a pc" where
  "send_or_timeout v r c =
     (case r of
        None \<Rightarrow>
          (case send_pass v c of
             (c, Wait) \<Rightarrow> (c, SendWait v r)
           | (c, Return (Inr _)) \<Rightarrow> (c, NotifyEmpty)
           | (c, Return (Inl _)) \<Rightarrow> (c, Idle))
      | Some d \<Rightarrow>
          (case send_timeout_pass v d c of
             (c, Wait) \<Rightarrow> (c, SendWait v r)
           | (c, Return (Inr _)) \<Rightarrow> (c, NotifyEmpty)
           | (c, Return (Inl _)) \<Rightarrow> (c, Idle)))"

definition recv_or_timeout :: "duration option \<Rightarrow> 'a chan \<Rightarrow> 'a chan \<times> 'a pc" where
  "recv_or_timeout r c =
     (case r of
        None \<Rightarrow>
          (case recv_pass c of
             (c, Wait) \<Rightarrow> (c, RecvWait r)
           | (c, Return (Inr _)) \<Rightarrow> (c, NotifyFull)
           | (c, Return (Inl _)) \<Rightarrow> (c, Idle))
      | Some d \<Rightarrow>
          (case recv_timeout_pass d c of
             (c, Wait) \<Rightarrow> (c, RecvWait r)
           | (c, Return (Inr _)) \<Rightarrow> (c, NotifyFull)
           | (c, Return (Inl _)) \<Rightarrow> (c, Idle)))"

inductive chan_step :: "'a chan \<times> 'a pc list \<Rightarrow> 'a chan \<times> 'a pc list \<Rightarrow> bool" where
  spawn: "chan_step (c, ts) (c, ts @ [Idle])"
| start_send: "i < length ts \<Longrightarrow> ts ! i = Idle \<Longrightarrow> 0 < sender_count c
    \<Longrightarrow> chan_step (c, ts) (c, ts[i := SendTop v r])"
| start_recv: "i < length ts \<Longrightarrow> ts ! i = Idle \<Longrightarrow> 0 < receiver_count c
    \<Longrightarrow> chan_step (c, ts) (c, ts[i := RecvTop r])"
| send_run: "i < length ts \<Longrightarrow> ts ! i = SendTop v r \<Longrightarrow> unlocked ts
    \<Longrightarrow> send_or_timeout v r c = (c', t) \<Longrightarrow> chan_step (c, ts) (c', ts[i := t])"
| recv_run: "i < length ts \<Longrightarrow> ts ! i = RecvTop r \<Longrightarrow> unlocked ts
    \<Longrightarrow> recv_or_timeout r c = (c', t) \<Longrightarrow> chan_step (c, ts) (c', ts[i := t])"
| try_send_run: "i < length ts \<Longrightarrow> ts ! i = Idle \<Longrightarrow> 0 < sender_count c \<Longrightarrow> unlocked ts
    \<Longrightarrow> try_send v c = (c', x)
    \<Longrightarrow> chan_step (c, ts) (c', ts[i := (case x of Inr _ \<Rightarrow> NotifyEmpty | Inl _ \<Rightarrow> Idle)])"
| try_recv_run: "i < length ts \<Longrightarrow> ts ! i = Idle \<Longrightarrow> 0 < receiver_count c \<Longrightarrow> unlocked ts
    \<Longrightarrow> try_recv c = (c', x)
    \<Longrightarrow> chan_step (c, ts) (c', ts[i := (case x of Inr _ \<Rightarrow> NotifyFull | Inl _ \<Rightarrow> Idle)])"
| send_sleep: "i < length ts \<Longrightarrow> ts ! i = SendWait v r \<Longrightarrow> chan_step (c, ts) (c, ts[i := SendSleep v r])"
| recv_sleep: "i < length ts \<Longrightarrow> ts ! i = RecvWait r \<Longrightarrow> chan_step (c, ts) (c, ts[i := RecvSleep r])"
| timeout: "i < length ts \<Longrightarrow> ts ! i = RecvSleep (Some d) \<or> ts ! i = SendSleep v (Some d)
    \<Longrightarrow> chan_step (c, ts) (c, ts[i := wake True e (ts ! i)])"
| spurious: "i < length ts \<Longrightarrow> is_recv_sleep (ts ! i) \<or> is_send_sleep (ts ! i)
    \<Longrightarrow> chan_step (c, ts) (c, ts[i := wake False e (ts ! i)])"
| notify_empty: "i < length ts \<Longrightarrow> ts ! i = NotifyEmpty \<Longrightarrow> j < length ts \<Longrightarrow> is_recv_sleep (ts ! j)
    \<Longrightarrow> chan_step (c, ts) (c, ts[i := Idle, j := wake False e (ts ! j)])"
| notify_empty_none: "i < length ts \<Longrightarrow> ts ! i = NotifyEmpty \<Longrightarrow> \<not> list_ex is_recv_sleep ts
    \<Longrightarrow> chan_step (c, ts) (c, ts[i := Idle])"
| notify_full: "i < length ts \<Longrightarrow> ts ! i = NotifyFull \<Longrightarrow> j < length ts \<Longrightarrow> is_send_sleep (ts ! j)
    \<Longrightarrow> chan_step (c, ts) (c, ts[i := Idle, j := wake False e (ts ! j)])"
| notify_full_none: "i < length ts \<Longrightarrow> ts ! i = NotifyFull \<Longrightarrow> \<not> list_ex is_send_sleep ts
    \<Longrightarrow> chan_step (c, ts) (c, ts[i := Idle])"
| clone_sender: "0 < sender_count c \<Longrightarrow> chan_step (c, ts) (sender_clone c, ts)"
| clone_receiver: "0 < receiver_count c \<Longrightarrow> chan_step (c, ts) (receiver_clone c, ts)"
| drop_sender: "i < length ts \<Longrightarrow> ts ! i = Idle \<Longrightarrow> 0 < sender_count c \<Longrightarrow> sender_drop c = (c', all)
    \<Longrightarrow> chan_step (c, ts) (c', ts[i := (if all then NotifyAllEmpty else Idle)])"
| drop_receiver: "i < length ts \<Longrightarrow> ts ! i = Idle \<Longrightarrow> 0 < receiver_count c \<Longrightarrow> receiver_drop c = (c', all)
    \<Longrightarrow> chan_step (c, ts) (c', ts[i := (if all then NotifyAllFull else Idle)])"
| notify_all_empty: "i < length ts \<Longrightarrow> ts ! i = NotifyAllEmpty
    \<Longrightarrow> chan_step (c, ts) (c, map (\<lambda>t. if is_recv_sleep t then wake False e t else t) (ts[i := Idle]))"
| notify_all_full: "i < length ts \<Longrightarrow> ts ! i = NotifyAllFull
    \<Longrightarrow> chan_step (c, ts) (c, map (\<lambda>t. if is_send_sleep t then wake False e t else t) (ts[i := Idle]))"

inductive_cases chan_stepE: "chan_step s s'"

section \<open>Invariants\<close>

fun is_recv_top :: "'a pc \<Rightarrow> bool" where
  "is_recv_top (RecvTop _) = True"
| "is_recv_top _ = False"

fun is_send_top :: "'a pc \<Rightarrow> bool" where
  "is_send_top (SendTop _ _) = True"
| "is_send_top _ = False"

fun is_recv_wait :: "'a pc \<Rightarrow> bool" where
  "is_recv_wait (RecvWait _) = True"
| "is_recv_wait _ = False"

fun is_send_wait :: "'a pc \<Rightarrow> bool" where
  "is_send_wait (SendWait _ _) = True"
| "is_send_wait _ = False"

fun is_notify_empty :: "'a pc \<Rightarrow> bool" where
  "is_notify_empty NotifyEmpty = True"
| "is_notify_empty _ = False"

fun is_notify_full :: "'a pc \<Rightarrow> bool" where
  "is_notify_full NotifyFull = True"
| "is_notify_full _ = False"

definition threads :: "('a pc \<Rightarrow> bool) \<Rightarrow> 'a pc list \<Rightarrow> nat" where
  "threads P ts = length (filter P ts)"

text \<open>The slots a bounded channel has left; none is counted for an unbounded one, where nobody waits.\<close>

definition free_slots :: "'a chan \<Rightarrow> nat" where
  "free_slots c = (case cap c of None \<Rightarrow> 0 | Some n \<Rightarrow> n - length (queue c))"

definition within_cap :: "'a chan \<Rightarrow> bool" where
  "within_cap c = (case cap c of None \<Rightarrow> True | Some n \<Rightarrow> length (queue c) \<le> n)"

lemma free_slots_full: "is_full c (length (queue c)) \<Longrightarrow> free_slots c = 0"
  by (auto simp: free_slots_def is_full_def split: option.splits)

lemma push_back_slots:
  assumes "\<not> is_full c (length (queue c))"
  shows "within_cap (push_back v c)" and "free_slots (push_back v c) = free_slots c - 1"
  using assms by (auto simp: within_cap_def free_slots_def is_full_def push_back_def split: option.splits)

lemma pop_slots:
  assumes "queue c = v # q" and "within_cap c"
  shows "within_cap (c\<lparr>queue := q, log_out := l\<rparr>)" and "free_slots (c\<lparr>queue := q, log_out := l\<rparr>) \<le> Suc (free_slots c)"
  using assms by (auto simp: within_cap_def free_slots_def split: option.splits)

lemma slots_counts [simp]:
  "free_slots (c\<lparr>sender_count := m\<rparr>) = free_slots c" "free_slots (c\<lparr>receiver_count := m\<rparr>) = free_slots c"
  "within_cap (c\<lparr>sender_count := m\<rparr>) = within_cap c" "within_cap (c\<lparr>receiver_count := m\<rparr>) = within_cap c"
  "is_full (c\<lparr>sender_count := m\<rparr>) l = is_full c l" "is_full (c\<lparr>receiver_count := m\<rparr>) l = is_full c l"
  by (simp_all add: is_full_def free_slots_def within_cap_def split: option.splits)

text \<open>
  The mutex has one owner; who is about to wait still sees the reason; an item that waits
  while a receiver sleeps is matched by a notification on its way or a receiver awake; and
  dually for a free slot.
\<close>

definition chan_inv :: "'a chan \<times> 'a pc list \<Rightarrow> bool" where
  "chan_inv s \<longleftrightarrow> (case s of (c, ts) \<Rightarrow>
     log_out c @ queue c = log_in c \<and>
     within_cap c \<and>
     threads is_recv_wait ts + threads is_send_wait ts \<le> 1 \<and>
     (0 < threads is_recv_wait ts \<longrightarrow> queue c = []) \<and>
     (0 < threads is_send_wait ts \<longrightarrow> is_full c (length (queue c))) \<and>
     (0 < threads is_recv_sleep ts \<longrightarrow>
        length (queue c) \<le> threads is_notify_empty ts + threads is_recv_top ts) \<and>
     (0 < threads is_send_sleep ts \<and> 0 < receiver_count c \<longrightarrow>
        free_slots c \<le> threads is_notify_full ts + threads is_send_top ts))"

lemma threads_append [simp]: "threads P (ts @ us) = threads P ts + threads P us"
  by (simp add: threads_def)

lemma threads_Cons [simp]: "threads P (t # ts) = (if P t then 1 else 0) + threads P ts"
  by (simp add: threads_def)

lemma threads_Nil [simp]: "threads P [] = 0"
  by (simp add: threads_def)

lemma threads_update:
  "i < length ts \<Longrightarrow> threads P (ts[i := t]) + (if P (ts ! i) then 1 else 0) = threads P ts + (if P t then 1 else 0)"
proof (induction ts arbitrary: i)
  case (Cons u ts)
  then show ?case by (cases i) auto
qed simp

lemma threads_pos: "0 < threads P ts \<longleftrightarrow> list_ex P ts"
  by (induction ts) auto

lemma unlocked_threads: "unlocked ts \<longleftrightarrow> threads is_recv_wait ts = 0 \<and> threads is_send_wait ts = 0"
proof (induction ts)
  case (Cons t ts)
  then show ?case by (cases t) (auto simp: unlocked_def)
qed (simp add: unlocked_def)

text \<open>The counts after one thread has moved, and its effect on each class.\<close>

lemma threads_move:
  assumes "i < length ts"
  shows "threads is_recv_wait (ts[i := t]) + (if is_recv_wait (ts ! i) then 1 else 0) = threads is_recv_wait ts + (if is_recv_wait t then 1 else 0)"
    and "threads is_send_wait (ts[i := t]) + (if is_send_wait (ts ! i) then 1 else 0) = threads is_send_wait ts + (if is_send_wait t then 1 else 0)"
    and "threads is_recv_sleep (ts[i := t]) + (if is_recv_sleep (ts ! i) then 1 else 0) = threads is_recv_sleep ts + (if is_recv_sleep t then 1 else 0)"
    and "threads is_send_sleep (ts[i := t]) + (if is_send_sleep (ts ! i) then 1 else 0) = threads is_send_sleep ts + (if is_send_sleep t then 1 else 0)"
    and "threads is_recv_top (ts[i := t]) + (if is_recv_top (ts ! i) then 1 else 0) = threads is_recv_top ts + (if is_recv_top t then 1 else 0)"
    and "threads is_send_top (ts[i := t]) + (if is_send_top (ts ! i) then 1 else 0) = threads is_send_top ts + (if is_send_top t then 1 else 0)"
    and "threads is_notify_empty (ts[i := t]) + (if is_notify_empty (ts ! i) then 1 else 0) = threads is_notify_empty ts + (if is_notify_empty t then 1 else 0)"
    and "threads is_notify_full (ts[i := t]) + (if is_notify_full (ts ! i) then 1 else 0) = threads is_notify_full ts + (if is_notify_full t then 1 else 0)"
  using threads_update [OF assms] by blast+

lemma is_recv_sleepE: "is_recv_sleep t \<Longrightarrow> \<exists>r. t = RecvSleep r" by (cases t) auto
lemma is_send_sleepE: "is_send_sleep t \<Longrightarrow> \<exists>v r. t = SendSleep v r" by (cases t) auto

lemma threads_wake_recv:
  "P \<in> {is_recv_wait, is_send_wait, is_send_sleep, is_send_top, is_notify_empty, is_notify_full}
    \<Longrightarrow> threads P (map (\<lambda>t. if is_recv_sleep t then wake False e t else t) ts) = threads P ts"
  "threads is_recv_sleep (map (\<lambda>t. if is_recv_sleep t then wake False e t else t) ts) = 0"
  "threads is_recv_top (map (\<lambda>t. if is_recv_sleep t then wake False e t else t) ts)
    = threads is_recv_top ts + threads is_recv_sleep ts"
proof (induction ts)
  case (Cons t ts)
  { case 1 then show ?case using Cons.IH(1) by (cases t) auto }
  { case 2 then show ?case using Cons.IH(2) by (cases t) auto }
  { case 3 then show ?case using Cons.IH(3) by (cases t) auto }
qed simp_all

lemma threads_wake_send:
  "P \<in> {is_recv_wait, is_send_wait, is_recv_sleep, is_recv_top, is_notify_empty, is_notify_full}
    \<Longrightarrow> threads P (map (\<lambda>t. if is_send_sleep t then wake False e t else t) ts) = threads P ts"
  "threads is_send_sleep (map (\<lambda>t. if is_send_sleep t then wake False e t else t) ts) = 0"
  "threads is_send_top (map (\<lambda>t. if is_send_sleep t then wake False e t else t) ts)
    = threads is_send_top ts + threads is_send_sleep ts"
proof (induction ts)
  case (Cons t ts)
  { case 1 then show ?case using Cons.IH(1) by (cases t) auto }
  { case 2 then show ?case using Cons.IH(2) by (cases t) auto }
  { case 3 then show ?case using Cons.IH(3) by (cases t) auto }
qed simp_all

text \<open>What a pass can do to the channel and to the thread.\<close>

lemma send_or_timeout_cases:
  assumes "send_or_timeout v r c = (c', t)"
  obtains (stop) "c' = c" "t = Idle" "receiver_count c = 0 \<or> is_full c (length (queue c))"
  | (pushed) "c' = push_back v c" "t = NotifyEmpty" "\<not> is_full c (length (queue c))"
  | (full) "c' = c" "t = SendWait v r" "is_full c (length (queue c))"
proof -
  have "c' = c \<and> t = Idle \<and> (receiver_count c = 0 \<or> is_full c (length (queue c)))
    \<or> c' = push_back v c \<and> t = NotifyEmpty \<and> \<not> is_full c (length (queue c))
    \<or> c' = c \<and> t = SendWait v r \<and> is_full c (length (queue c))"
    using assms
    by (cases r) (simp_all add: send_or_timeout_def send_pass_def send_timeout_pass_def split: if_splits)
  then show thesis using stop pushed full by blast
qed

lemma recv_or_timeout_cases:
  assumes "recv_or_timeout r c = (c', t)"
  obtains (stop) "c' = c" "t = Idle" "queue c = []"
  | (popped) v q where "queue c = v # q" "c' = c\<lparr>queue := q, log_out := log_out c @ [v]\<rparr>" "t = NotifyFull"
  | (empty) "c' = c" "t = RecvWait r" "queue c = []"
proof (cases "queue c")
  case Nil
  then have "c' = c \<and> t = Idle \<or> c' = c \<and> t = RecvWait r"
    using assms
    by (cases r) (simp_all add: recv_or_timeout_def recv_pass_def recv_timeout_pass_def pop_front_def
        split: if_splits)
  then show thesis using Nil stop empty by blast
next
  case (Cons v q)
  then have "c' = c\<lparr>queue := q, log_out := log_out c @ [v]\<rparr> \<and> t = NotifyFull"
    using assms
    by (cases r) (simp_all add: recv_or_timeout_def recv_pass_def recv_timeout_pass_def pop_front_def)
  then show thesis using Cons popped by blast
qed

text \<open>
  A thread that moves from one class to another, the channel otherwise as it was; and the two
  moves that change the queue.
\<close>

lemma chan_inv_wake:
  assumes "chan_inv (c, ts)" and "i < length ts" and "is_recv_sleep (ts ! i) \<or> is_send_sleep (ts ! i)"
  shows "chan_inv (c, ts[i := wake to e (ts ! i)])"
proof (cases "is_recv_sleep (ts ! i)")
  case True
  then obtain r where "ts ! i = RecvSleep r" using is_recv_sleepE by blast
  then show ?thesis using assms(1,2) threads_move [of i ts "RecvTop (after_wait to e r)"]
    by (auto simp: chan_inv_def)
next
  case False
  then obtain v r where "ts ! i = SendSleep v r" using assms(3) is_send_sleepE by blast
  then show ?thesis using assms(1,2) threads_move [of i ts "SendTop v (after_wait to e r)"]
    by (auto simp: chan_inv_def)
qed

lemma chan_inv_push:
  assumes inv: "chan_inv (c, ts)" and i: "i < length ts" and from_pc: "ts ! i = Idle \<or> ts ! i = SendTop w r"
    and "unlocked ts" and "\<not> is_full c (length (queue c))"
  shows "chan_inv (push_back v c, ts[i := NotifyEmpty])"
proof -
  have [simp]: "queue (push_back v c) = queue c @ [v]" "log_in (push_back v c) = log_in c @ [v]"
    "log_out (push_back v c) = log_out c" "receiver_count (push_back v c) = receiver_count c"
    by (simp_all add: push_back_def)
  note facts = inv i assms(4) push_back_slots [OF assms(5), of v] threads_move [OF i, of "NotifyEmpty"]
  from from_pc show ?thesis
  proof
    assume "ts ! i = Idle"
    with facts show ?thesis by (auto simp: chan_inv_def unlocked_threads)
  next
    assume "ts ! i = SendTop w r"
    with facts show ?thesis by (auto simp: chan_inv_def unlocked_threads)
  qed
qed

lemma chan_inv_pop:
  assumes "chan_inv (c, ts)" and "i < length ts" and "ts ! i = Idle \<or> ts ! i = RecvTop r"
    and "unlocked ts" and "queue c = v # q"
  shows "chan_inv (c\<lparr>queue := q, log_out := log_out c @ [v]\<rparr>, ts[i := NotifyFull])"
  using assms pop_slots [of c v q "log_out c @ [v]"] threads_move [of i ts "NotifyFull"]
  by (auto simp: chan_inv_def unlocked_threads)

lemma chan_step_inv: "chan_step s s' \<Longrightarrow> chan_inv s \<Longrightarrow> chan_inv s'"
proof (induction rule: chan_step.induct)
  case (spawn c ts)
  then show ?case by (auto simp: chan_inv_def)
next
  case (start_send i ts c v r)
  then show ?case using threads_move [of i ts "SendTop v r"] by (auto simp: chan_inv_def)
next
  case (start_recv i ts c r)
  then show ?case using threads_move [of i ts "RecvTop r"] by (auto simp: chan_inv_def)
next
  case (send_run i ts v r c c' t)
  from send_run(4) show ?case
  proof (cases rule: send_or_timeout_cases)
    case stop
    then show ?thesis
      using send_run threads_move [of i ts Idle] by (auto simp: chan_inv_def free_slots_full)
  next
    case pushed
    then show ?thesis using send_run chan_inv_push [of c ts i v r v] by simp
  next
    case full
    then show ?thesis
      using send_run threads_move [of i ts "SendWait v r"] by (auto simp: chan_inv_def unlocked_threads free_slots_full)
  qed
next
  case (recv_run i ts r c c' t)
  from recv_run(4) show ?case
  proof (cases rule: recv_or_timeout_cases)
    case stop
    then show ?thesis using recv_run threads_move [of i ts Idle] by (auto simp: chan_inv_def)
  next
    case (popped v q)
    then show ?thesis using recv_run chan_inv_pop [of c ts i r v q] by simp
  next
    case empty
    then show ?thesis
      using recv_run threads_move [of i ts "RecvWait r"] by (auto simp: chan_inv_def unlocked_threads)
  qed
next
  case (try_send_run i ts c v c' x)
  then show ?case
    using threads_move [of i ts "Idle :: 'a pc"] chan_inv_push [of c ts i v None v]
    by (auto simp: try_send_def split: if_splits) (simp_all add: chan_inv_def)
next
  case (try_recv_run i ts c c' x)
  show ?case
  proof (cases "queue c")
    case Nil
    then show ?thesis using try_recv_run threads_move [of i ts "Idle :: 'a pc"]
      by (auto simp: try_recv_def pop_front_def chan_inv_def split: if_splits)
  next
    case (Cons v q)
    then show ?thesis using try_recv_run chan_inv_pop [of c ts i None v q]
      by (auto simp: try_recv_def pop_front_def)
  qed
next
  case (send_sleep i ts v r c)
  then show ?case
    using threads_move [of i ts "SendSleep v r"] by (auto simp: chan_inv_def free_slots_full)
next
  case (recv_sleep i ts r c)
  then show ?case
    using threads_move [of i ts "RecvSleep r"] by (auto simp: chan_inv_def)
next
  case (timeout i ts d v c e)
  then have "is_recv_sleep (ts ! i) \<or> is_send_sleep (ts ! i)" by auto
  then show ?case using timeout chan_inv_wake by blast
next
  case (spurious i ts c e)
  then show ?case using chan_inv_wake by blast
next
  case (notify_empty i ts j c e)
  then obtain r where r: "ts ! j = RecvSleep r" using is_recv_sleepE by blast
  then have "i \<noteq> j" using notify_empty by auto
  then show ?case
    using notify_empty r threads_move [of i ts "Idle"]
      threads_move [of j "ts[i := Idle]" "RecvTop (after_wait False e r)"]
    by (auto simp: chan_inv_def)
next
  case (notify_empty_none i ts c)
  then have "threads is_recv_sleep ts = 0" using threads_pos by (metis neq0_conv)
  then show ?case using notify_empty_none threads_move [of i ts "Idle"] by (auto simp: chan_inv_def)
next
  case (notify_full i ts j c e)
  then obtain v r where r: "ts ! j = SendSleep v r" using is_send_sleepE by blast
  then have "i \<noteq> j" using notify_full by auto
  then show ?case
    using notify_full r threads_move [of i ts "Idle"]
      threads_move [of j "ts[i := Idle]" "SendTop v (after_wait False e r)"]
    by (auto simp: chan_inv_def)
next
  case (notify_full_none i ts c)
  then have "threads is_send_sleep ts = 0" using threads_pos by (metis neq0_conv)
  then show ?case using notify_full_none threads_move [of i ts "Idle"] by (auto simp: chan_inv_def)
next
  case (clone_sender c ts)
  then show ?case by (simp add: chan_inv_def sender_clone_def)
next
  case (clone_receiver c ts)
  then show ?case by (simp add: chan_inv_def receiver_clone_def)
next
  case (drop_sender i ts c c' all)
  have c': "c' = c\<lparr>sender_count := sender_count c - 1\<rparr>" using drop_sender by (simp add: sender_drop_def Let_def)
  have "chan_inv (c', ts[i := Idle])"
    using drop_sender threads_move [of i ts "Idle :: 'a pc"] unfolding c' by (auto simp: chan_inv_def)
  moreover have "chan_inv (c', ts[i := NotifyAllEmpty])"
    using drop_sender threads_move [of i ts "NotifyAllEmpty :: 'a pc"] unfolding c' by (auto simp: chan_inv_def)
  ultimately show ?case by simp
next
  case (drop_receiver i ts c c' all)
  have c': "c' = c\<lparr>receiver_count := receiver_count c - 1\<rparr>" using drop_receiver by (simp add: receiver_drop_def Let_def)
  have "chan_inv (c', ts[i := Idle])"
    using drop_receiver threads_move [of i ts "Idle :: 'a pc"] unfolding c' by (auto simp: chan_inv_def)
  moreover have "chan_inv (c', ts[i := NotifyAllFull])"
    using drop_receiver threads_move [of i ts "NotifyAllFull :: 'a pc"] unfolding c' by (auto simp: chan_inv_def)
  ultimately show ?case by simp
next
  case (notify_all_empty i ts c e)
  then show ?case
    using threads_move [of i ts "Idle"] by (auto simp: chan_inv_def threads_wake_recv)
next
  case (notify_all_full i ts c e)
  then show ?case
    using threads_move [of i ts "Idle"] by (auto simp: chan_inv_def threads_wake_send)
qed

text \<open>The states a fresh channel reaches, whatever its threads do.\<close>

definition chan_reaches :: "'a chan \<Rightarrow> 'a chan \<times> 'a pc list \<Rightarrow> bool" where
  "chan_reaches c0 s = chan_step\<^sup>*\<^sup>* (c0, []) s"

lemma chan_reaches_init: "chan_reaches c (c, [])"
  by (simp add: chan_reaches_def)

lemma chan_reaches_step: "chan_reaches c0 s \<Longrightarrow> chan_step s s' \<Longrightarrow> chan_reaches c0 s'"
  unfolding chan_reaches_def by (rule rtranclp.rtrancl_into_rtrancl)

lemma shared_new_inv: "chan_inv (shared_new n, [])"
  by (simp add: chan_inv_def shared_new_def within_cap_def split: option.splits)

lemma chan_reaches_inv: "chan_reaches (shared_new n) s \<Longrightarrow> chan_inv s"
  unfolding chan_reaches_def
  by (induction rule: rtranclp_induct) (auto intro: shared_new_inv chan_step_inv)

lemma chan_step_cap: "chan_step s s' \<Longrightarrow> cap (fst s') = cap (fst s)"
proof (induction rule: chan_step.induct)
  case (send_run i ts v r c c' t)
  from send_run(4) show ?case by (cases rule: send_or_timeout_cases) (simp_all add: push_back_def)
next
  case (recv_run i ts r c c' t)
  from recv_run(4) show ?case by (cases rule: recv_or_timeout_cases) simp_all
qed (auto simp: try_send_def try_recv_def push_back_def pop_front_def sender_clone_def receiver_clone_def
    sender_drop_def receiver_drop_def split: if_splits list.splits)

lemma chan_reaches_cap: "chan_reaches c0 s \<Longrightarrow> cap (fst s) = cap c0"
  unfolding chan_reaches_def
  by (induction rule: rtranclp_induct) (auto dest: chan_step_cap)

section \<open>Properties\<close>

text \<open>
  A receiver that found the queue empty and went to sleep, and a sender about to wake it:
  the sample state of the witnesses.
\<close>

definition waiting_chan :: "nat chan" where
  "waiting_chan = push_back 7 (bounded 0)"

lemma waiting_chan_reached: "chan_reaches (bounded 0) (waiting_chan, [RecvSleep None, NotifyEmpty])"
proof -
  have "chan_reaches (bounded 0 :: nat chan) (bounded 0, [Idle, Idle])"
    using chan_reaches_step [OF chan_reaches_step [OF chan_reaches_init spawn] spawn] by simp
  from chan_reaches_step [OF this, of "(bounded 0, [RecvTop None, Idle])"]
  have "chan_reaches (bounded 0 :: nat chan) (bounded 0, [RecvTop None, Idle])"
    using start_recv [of 0 "[Idle, Idle]" "bounded 0 :: nat chan" None]
    by (simp add: bounded_def shared_new_def)
  from chan_reaches_step [OF this, of "(bounded 0, [RecvWait None, Idle])"]
  have "chan_reaches (bounded 0 :: nat chan) (bounded 0, [RecvWait None, Idle])"
    using recv_run [of 0 "[RecvTop None, Idle]" None "bounded 0 :: nat chan" "bounded 0" "RecvWait None"]
    by (simp add: bounded_def shared_new_def unlocked_def recv_or_timeout_def recv_pass_def pop_front_def)
  from chan_reaches_step [OF this, of "(bounded 0, [RecvSleep None, Idle])"]
  have "chan_reaches (bounded 0 :: nat chan) (bounded 0, [RecvSleep None, Idle])"
    using recv_sleep [of 0 "[RecvWait None, Idle]" None "bounded 0 :: nat chan"] by simp
  from chan_reaches_step [OF this, of "(waiting_chan, [RecvSleep None, NotifyEmpty])"]
  show ?thesis
    using try_send_run [of 1 "[RecvSleep None, Idle]" "bounded 0 :: nat chan" 7 waiting_chan "Inr ()"]
    by (simp add: waiting_chan_def bounded_def shared_new_def unlocked_def try_send_def is_full_def)
qed

text \<open>
  C32: In every interleaving of senders and receivers, blocking, timed or not, a bounded channel
  hands its items out in the order they were enqueued, none lost and none twice, and never
  holds more than its capacity, which is at least one.
\<close>

theorem chan_is_bounded_fifo:
  assumes "chan_reaches (bounded n) (c, ts)"
  shows "log_out c @ queue c = log_in c \<and> length (queue c) \<le> max n 1"
proof -
  from assms have "chan_inv (c, ts)" by (simp add: bounded_def chan_reaches_inv)
  moreover from chan_reaches_cap [OF assms] have "cap c = Some (max n 1)"
    by (simp add: bounded_def shared_new_def)
  ultimately show ?thesis by (simp add: chan_inv_def within_cap_def)
qed

theorem chan_is_bounded_fifo_witness:
  "log_out waiting_chan @ queue waiting_chan = log_in waiting_chan \<and> queue waiting_chan = [7] \<and> length (queue waiting_chan) \<le> 1"
  using chan_is_bounded_fifo [OF waiting_chan_reached]
  by (simp add: waiting_chan_def push_back_def bounded_def shared_new_def)

text \<open>
  C33: No wake-up is lost between senders and receivers: while a receiver sleeps, every queued
  item is matched by a notification on its way or by a receiver that is awake, and while a
  sender sleeps on a channel that still has receivers, every free slot is matched by a
  notification or by a sender that is awake.
\<close>

theorem chan_no_lost_item:
  assumes "chan_reaches (shared_new k) (c, ts)"
  shows "(list_ex is_recv_sleep ts \<longrightarrow>
           length (queue c) \<le> threads is_notify_empty ts + threads is_recv_top ts) \<and>
         (list_ex is_send_sleep ts \<and> 0 < receiver_count c \<longrightarrow>
           free_slots c \<le> threads is_notify_full ts + threads is_send_top ts)"
  using chan_reaches_inv [OF assms] by (simp add: chan_inv_def threads_pos)

theorem chan_no_lost_item_witness:
  "length (queue waiting_chan) \<le> threads is_notify_empty [RecvSleep None, NotifyEmpty :: nat pc]
     + threads is_recv_top [RecvSleep None, NotifyEmpty :: nat pc] \<and> queue waiting_chan \<noteq> []"
  using chan_no_lost_item [OF waiting_chan_reached [unfolded bounded_def]]
  by (simp add: waiting_chan_def push_back_def)

text \<open>
  C34: The disconnect can be missed. A receiver finds the queue empty and one sender left;
  before it sleeps, that sender is dropped, which takes no lock: its count goes to zero and
  its notification finds nobody asleep. The receiver then sleeps on a channel without
  senders, with no notification on its way, where a pass would have returned an error.
\<close>

theorem chan_disconnect_missed:
  "\<exists>c. chan_reaches (bounded n :: 'a chan) (c, [RecvSleep None, Idle]) \<and>
       sender_count c = 0 \<and> recv_pass c = (c, Return (Inl RecvError))"
proof -
  let ?b = "bounded n :: 'a chan" and ?c = "(bounded n :: 'a chan)\<lparr>sender_count := 0\<rparr>"
  have "chan_reaches ?b (?b, [Idle, Idle])"
    using chan_reaches_step [OF chan_reaches_step [OF chan_reaches_init spawn] spawn] by simp
  from chan_reaches_step [OF this, of "(?b, [RecvTop None, Idle])"]
  have "chan_reaches ?b (?b, [RecvTop None, Idle])"
    using start_recv [of 0 "[Idle, Idle]" ?b None] by (simp add: bounded_def shared_new_def)
  from chan_reaches_step [OF this, of "(?b, [RecvWait None, Idle])"]
  have "chan_reaches ?b (?b, [RecvWait None, Idle])"
    using recv_run [of 0 "[RecvTop None, Idle]" None ?b ?b "RecvWait None"]
    by (simp add: bounded_def shared_new_def unlocked_def recv_or_timeout_def recv_pass_def pop_front_def)
  from chan_reaches_step [OF this, of "(?c, [RecvWait None, NotifyAllEmpty])"]
  have "chan_reaches ?b (?c, [RecvWait None, NotifyAllEmpty])"
    using drop_sender [of 1 "[RecvWait None, Idle]" ?b ?c True]
    by (simp add: sender_drop_def bounded_def shared_new_def)
  from chan_reaches_step [OF this, of "(?c, [RecvWait None, Idle])"]
  have "chan_reaches ?b (?c, [RecvWait None, Idle])"
    using notify_all_empty [of 1 "[RecvWait None, NotifyAllEmpty]" ?c 0] by simp
  from chan_reaches_step [OF this, of "(?c, [RecvSleep None, Idle])"]
  have "chan_reaches ?b (?c, [RecvSleep None, Idle])"
    using recv_sleep [of 0 "[RecvWait None, Idle]" None ?c] by simp
  then show ?thesis
    by (intro exI [of _ ?c]) (simp add: recv_pass_def pop_front_def bounded_def shared_new_def)
qed
end
