(* ===== verification/Rust_Text.thy ===== *)
theory Rust_Text
  imports Prelude "HOL-Library.Sublist"
begin

text \<open>
  What the programs use of Rust's strings: a \<open>str\<close> is the list of the bytes of its UTF-8
  form, here as HOL characters, so that \<open>len\<close> and slicing count bytes. Splitting, searching,
  trimming, case folding, printing and parsing of numbers, and the validation of UTF-8 that
  \<open>String::from_utf8\<close> and \<open>from_utf8_lossy\<close> do.
\<close>

section \<open>Bytes and strings\<close>

definition str_bytes :: "string \<Rightarrow> bytes" where
  "str_bytes s = map (\<lambda>c. word_of_nat (of_char c)) s"

definition bytes_str :: "bytes \<Rightarrow> string" where
  "bytes_str bs = map (\<lambda>b. char_of (unat b)) bs"

lemma of_char_lt: "(of_char c :: nat) < 256"
  by (rule nat_of_char_less_256)

lemma bytes_str_bytes [simp]: "bytes_str (str_bytes s) = s"
proof -
  have "char_of (unat (word_of_nat (of_char c) :: u8)) = c" for c :: char
    using of_char_lt [of c] by (simp add: unat_of_nat)
  then show ?thesis by (simp add: bytes_str_def str_bytes_def o_def)
qed

lemma str_bytes_str [simp]: "str_bytes (bytes_str bs) = bs"
proof -
  have "word_of_nat (of_char (char_of (unat b) :: char)) = b" for b :: u8
    using u8_unat_lt [of b] by (simp add: of_char_of)
  then show ?thesis by (simp add: bytes_str_def str_bytes_def o_def)
qed

lemma length_str_bytes [simp]: "length (str_bytes s) = length s"
  by (simp add: str_bytes_def)

lemma length_bytes_str [simp]: "length (bytes_str s) = length s"
  by (simp add: bytes_str_def)

section \<open>Splitting and joining\<close>

fun split_on :: "char \<Rightarrow> string \<Rightarrow> string list" where
  "split_on c [] = [[]]"
| "split_on c (x # xs) =
     (if x = c then [] # split_on c xs
      else (case split_on c xs of [] \<Rightarrow> [[x]] | s # ss \<Rightarrow> (x # s) # ss))"

fun join_with :: "char \<Rightarrow> string list \<Rightarrow> string" where
  "join_with c [] = []"
| "join_with c [s] = s"
| "join_with c (s # ss) = s @ c # join_with c ss"

definition split_once :: "char \<Rightarrow> string \<Rightarrow> (string \<times> string) option" where
  "split_once c s =
     (if c \<in> set s then Some (takeWhile (\<lambda>x. x \<noteq> c) s, drop 1 (dropWhile (\<lambda>x. x \<noteq> c) s)) else None)"

definition str_find :: "char \<Rightarrow> string \<Rightarrow> nat option" where
  "str_find c s = (if c \<in> set s then Some (length (takeWhile (\<lambda>x. x \<noteq> c) s)) else None)"

definition str_rfind :: "char \<Rightarrow> string \<Rightarrow> nat option" where
  "str_rfind c s =
     (if c \<in> set s then Some (length s - 1 - length (takeWhile (\<lambda>x. x \<noteq> c) (rev s))) else None)"

definition strip_prefix :: "string \<Rightarrow> string \<Rightarrow> string option" where
  "strip_prefix p s = (if prefix p s then Some (drop (length p) s) else None)"

definition starts_with :: "string \<Rightarrow> string \<Rightarrow> bool" where
  "starts_with p s = prefix p s"

definition ends_with :: "string \<Rightarrow> string \<Rightarrow> bool" where
  "ends_with p s = suffix p s"

definition trim_end_char :: "char \<Rightarrow> string \<Rightarrow> string" where
  "trim_end_char c s = rev (dropWhile (\<lambda>x. x = c) (rev s))"

fun find_window :: "'a list \<Rightarrow> 'a list \<Rightarrow> nat option" where
  "find_window w [] = (if w = [] then Some 0 else None)"
| "find_window w (x # xs) = (if prefix w (x # xs) then Some 0 else map_option Suc (find_window w xs))"

lemma split_on_nonempty [simp]: "split_on c s \<noteq> []"
  by (induction s) (auto split: list.splits)

lemma split_on_free: "seg \<in> set (split_on c s) \<Longrightarrow> c \<notin> set seg"
proof (induction s arbitrary: seg)
  case (Cons x xs)
  then show ?case by (auto split: list.splits if_splits)
qed simp

lemma split_on_id: "c \<notin> set s \<Longrightarrow> split_on c s = [s]"
  by (induction s) auto

lemma split_on_append: "c \<notin> set s \<Longrightarrow> split_on c (s @ c # t) = s # split_on c t"
  by (induction s) auto

lemma split_join: "ss \<noteq> [] \<Longrightarrow> list_all (\<lambda>s. c \<notin> set s) ss \<Longrightarrow> split_on c (join_with c ss) = ss"
  by (induction c ss rule: join_with.induct) (auto simp: split_on_id split_on_append)

lemma join_split: "join_with c (split_on c s) = s"
proof (induction s)
  case (Cons x xs)
  then show ?case by (cases "split_on c xs" rule: list.exhaust; cases "tl (split_on c xs)") (auto split: list.splits)
qed simp

lemma join_with_append:
  "xs \<noteq> [] \<Longrightarrow> ys \<noteq> [] \<Longrightarrow> join_with c (xs @ ys) = join_with c xs @ c # join_with c ys"
proof (induction c xs rule: join_with.induct)
  case (2 c s)
  then show ?case by (cases ys) auto
qed auto

lemma takeWhile_free: "c \<notin> set a \<Longrightarrow> takeWhile (\<lambda>x. x \<noteq> c) (a @ c # b) = a"
  by (induction a) auto

lemma dropWhile_free: "c \<notin> set a \<Longrightarrow> dropWhile (\<lambda>x. x \<noteq> c) (a @ c # b) = c # b"
  by (induction a) auto

lemma split_once_Some: "split_once c s = Some (a, b) \<longleftrightarrow> s = a @ c # b \<and> c \<notin> set a"
proof
  assume "split_once c s = Some (a, b)"
  then have c: "c \<in> set s" and a: "a = takeWhile (\<lambda>x. x \<noteq> c) s" and b: "b = drop 1 (dropWhile (\<lambda>x. x \<noteq> c) s)"
    by (auto simp: split_once_def split: if_splits)
  from c have ne: "dropWhile (\<lambda>x. x \<noteq> c) s \<noteq> []" by (simp add: dropWhile_eq_Nil_conv)
  then have "hd (dropWhile (\<lambda>x. x \<noteq> c) s) = c" using hd_dropWhile [OF ne] by simp
  with ne b have "dropWhile (\<lambda>x. x \<noteq> c) s = c # b" by (metis One_nat_def drop0 drop_Suc list.collapse)
  then show "s = a @ c # b \<and> c \<notin> set a"
    using a takeWhile_dropWhile_id [of "\<lambda>x. x \<noteq> c" s] set_takeWhileD by fastforce
next
  assume "s = a @ c # b \<and> c \<notin> set a"
  then show "split_once c s = Some (a, b)" by (simp add: split_once_def takeWhile_free dropWhile_free)
qed

lemma str_find_append: "c \<notin> set a \<Longrightarrow> str_find c (a @ c # b) = Some (length a)"
  by (simp add: str_find_def takeWhile_free)

lemma str_find_Some: "str_find c s = Some i \<longleftrightarrow> (\<exists>a b. s = a @ c # b \<and> c \<notin> set a \<and> i = length a)"
proof
  assume f: "str_find c s = Some i"
  then have "c \<in> set s" by (simp add: str_find_def split: if_splits)
  then obtain a b where "s = a @ c # b" "c \<notin> set a" by (meson split_list_first)
  with f show "\<exists>a b. s = a @ c # b \<and> c \<notin> set a \<and> i = length a" by (auto simp: str_find_append)
qed (auto simp: str_find_append)

lemma str_rfind_append: "c \<notin> set b \<Longrightarrow> str_rfind c (a @ c # b) = Some (length a)"
  using takeWhile_free [of c "rev b" "rev a"] by (simp add: str_rfind_def)

lemma strip_prefix_Some: "strip_prefix p s = Some r \<longleftrightarrow> s = p @ r"
  by (auto simp: strip_prefix_def prefix_def)

section \<open>Whitespace and case\<close>

text \<open>The UTF-8 forms of the characters with the White_Space property.\<close>

definition whitespace :: "string list" where
  "whitespace =
     [[CHR 0x09], [CHR 0x0A], [CHR 0x0B], [CHR 0x0C], [CHR 0x0D], [CHR 0x20],
      [CHR 0xC2, CHR 0x85], [CHR 0xC2, CHR 0xA0], [CHR 0xE1, CHR 0x9A, CHR 0x80],
      [CHR 0xE2, CHR 0x80, CHR 0x80], [CHR 0xE2, CHR 0x80, CHR 0x81], [CHR 0xE2, CHR 0x80, CHR 0x82],
      [CHR 0xE2, CHR 0x80, CHR 0x83], [CHR 0xE2, CHR 0x80, CHR 0x84], [CHR 0xE2, CHR 0x80, CHR 0x85],
      [CHR 0xE2, CHR 0x80, CHR 0x86], [CHR 0xE2, CHR 0x80, CHR 0x87], [CHR 0xE2, CHR 0x80, CHR 0x88],
      [CHR 0xE2, CHR 0x80, CHR 0x89], [CHR 0xE2, CHR 0x80, CHR 0x8A], [CHR 0xE2, CHR 0x80, CHR 0xA8],
      [CHR 0xE2, CHR 0x80, CHR 0xA9], [CHR 0xE2, CHR 0x80, CHR 0xAF],
      [CHR 0xE2, CHR 0x81, CHR 0x9F], [CHR 0xE3, CHR 0x80, CHR 0x80]]"

lemma whitespace_pos: "w \<in> set whitespace \<Longrightarrow> 0 < length w"
  by (auto simp: whitespace_def)

text \<open>Strip any of \<open>ws\<close>, repeatedly, from the front.\<close>

function strip_any :: "string list \<Rightarrow> string \<Rightarrow> string" where
  "strip_any ws s =
     (case find (\<lambda>w. 0 < length w \<and> prefix w s) ws of
        Some w \<Rightarrow> strip_any ws (drop (length w) s)
      | None \<Rightarrow> s)"
  by auto
termination
  by (relation "measure (\<lambda>(ws, s). length s)") (auto simp: find_Some_iff prefix_def)

declare strip_any.simps [simp del]

definition trim_start :: "string \<Rightarrow> string" where
  "trim_start s = strip_any whitespace s"

definition trim_end :: "string \<Rightarrow> string" where
  "trim_end s = rev (strip_any (map rev whitespace) (rev s))"

definition trim :: "string \<Rightarrow> string" where
  "trim s = trim_end (trim_start s)"

lemma strip_any_suffix: "suffix (strip_any ws s) s"
proof (induction ws s rule: strip_any.induct)
  case (1 ws s)
  then show ?case
    by (subst strip_any.simps) (auto split: option.splits intro: suffix_order.trans suffix_drop)
qed

lemma trim_sublist: "set (trim s) \<subseteq> set s"
proof -
  have "set (strip_any ws t) \<subseteq> set t" for ws t
    using strip_any_suffix [of ws t] by (meson set_mono_suffix)
  then show ?thesis unfolding trim_def trim_end_def trim_start_def by (metis set_rev subset_trans)
qed

definition ascii_upper :: "char \<Rightarrow> char" where
  "ascii_upper c = (let n = of_char c :: nat in if 97 \<le> n \<and> n \<le> 122 then char_of (n - 32) else c)"

definition to_ascii_uppercase :: "string \<Rightarrow> string" where
  "to_ascii_uppercase s = map ascii_upper s"

definition eq_ignore_ascii_case :: "string \<Rightarrow> string \<Rightarrow> bool" where
  "eq_ignore_ascii_case a b = (to_ascii_uppercase a = to_ascii_uppercase b)"

lemma trim_ends:
  assumes "find (\<lambda>w. 0 < length w \<and> prefix w s) whitespace = None"
    and "find (\<lambda>w. 0 < length w \<and> prefix w (rev s)) (map rev whitespace) = None"
  shows "trim s = s"
  using assms by (simp add: trim_def trim_start_def trim_end_def strip_any.simps [of whitespace s] strip_any.simps [of "map rev whitespace"])

section \<open>Numbers\<close>

definition digit_char :: "nat \<Rightarrow> char" where
  "digit_char n = (if n < 10 then char_of (48 + n) else char_of (87 + n))"

text \<open>The digits of a number, most significant first; a loop of at most \<open>n\<close> divisions.\<close>

fun show_base :: "nat \<Rightarrow> nat \<Rightarrow> string" where
  "show_base b n = (if b < 2 \<or> n < b then [digit_char n] else show_base b (n div b) @ [digit_char (n mod b)])"

declare show_base.simps [simp del]

definition show_nat :: "nat \<Rightarrow> string" where
  "show_nat n = show_base 10 n"

definition pad_left :: "char \<Rightarrow> nat \<Rightarrow> string \<Rightarrow> string" where
  "pad_left c w s = replicate (w - length s) c @ s"

text \<open>\<open>{:016x}\<close>, of a 64-bit number.\<close>

definition show_hex16 :: "u64 \<Rightarrow> string" where
  "show_hex16 w = pad_left (CHR ''0'') 16 (show_base 16 (unat w))"

definition digit_val :: "char \<Rightarrow> nat option" where
  "digit_val c = (let n = of_char c :: nat in if 48 \<le> n \<and> n \<le> 57 then Some (n - 48) else None)"

fun read_digits :: "nat \<Rightarrow> nat \<Rightarrow> string \<Rightarrow> nat option" where
  "read_digits w acc [] = Some acc"
| "read_digits w acc (c # cs) =
     (case digit_val c of
        None \<Rightarrow> None
      | Some d \<Rightarrow> if acc * 10 + d < 2 ^ w then read_digits w (acc * 10 + d) cs else None)"

text \<open>\<open>str::parse\<close> at an unsigned type of \<open>w\<close> bits: an optional plus sign, then digits.\<close>

definition parse_uint :: "nat \<Rightarrow> string \<Rightarrow> nat option" where
  "parse_uint w s =
     (let ds = (case s of c # cs \<Rightarrow> if c = CHR ''+'' then cs else s | [] \<Rightarrow> [])
      in if ds = [] then None else read_digits w 0 ds)"

lemma digit_val_char: "n < 10 \<Longrightarrow> digit_val (digit_char n) = Some n"
  by (simp add: digit_val_def digit_char_def of_char_of)

lemma read_digits_append:
  "read_digits w acc (s @ t) = (case read_digits w acc s of None \<Rightarrow> None | Some a \<Rightarrow> read_digits w a t)"
  by (induction w acc s rule: read_digits.induct) (auto split: option.splits)

lemma read_show_nat: "n < 2 ^ w \<Longrightarrow> read_digits w 0 (show_nat n) = Some n"
  unfolding show_nat_def
proof (induction n rule: less_induct)
  case (less n)
  show ?case
  proof (cases "n < 10")
    case True
    then show ?thesis using less.prems by (simp add: show_base.simps [of 10 n] digit_val_char)
  next
    case False
    then have "n div 10 < n" by simp
    moreover from this less.prems have "n div 10 < 2 ^ w" by (rule less_trans)
    ultimately have ih: "read_digits w 0 (show_base 10 (n div 10)) = Some (n div 10)" using less.IH by simp
    have "n div 10 * 10 + n mod 10 = n" by simp
    then show ?thesis
      using False ih less.prems
      by (simp add: show_base.simps [of 10 n] read_digits_append digit_val_char)
  qed
qed

lemma show_nat_nonempty [simp]: "show_nat n \<noteq> []"
  by (simp add: show_nat_def show_base.simps [of 10 n])

lemma show_nat_digits: "c \<in> set (show_nat n) \<Longrightarrow> digit_val c \<noteq> None"
  unfolding show_nat_def
proof (induction n rule: less_induct)
  case (less n)
  show ?case
  proof (cases "n < 10")
    case True
    then show ?thesis using less.prems by (simp add: show_base.simps [of 10 n] digit_val_char)
  next
    case False
    then have "n div 10 < n" by simp
    from less.IH [OF this] less.prems False show ?thesis
      by (auto simp: show_base.simps [of 10 n] digit_val_char)
  qed
qed

lemma parse_show_nat: "n < 2 ^ w \<Longrightarrow> parse_uint w (show_nat n) = Some n"
proof -
  assume n: "n < 2 ^ w"
  obtain c cs where s: "show_nat n = c # cs" by (cases "show_nat n") simp_all
  then have "c \<noteq> CHR ''+''" using show_nat_digits [of c n] by (auto simp: digit_val_def)
  then show ?thesis using read_show_nat [OF n] s by (simp add: parse_uint_def)
qed

lemma parse_uint_bound: "parse_uint w s = Some n \<Longrightarrow> n < 2 ^ w"
proof -
  have rd: "read_digits w acc t = Some n \<Longrightarrow> acc < 2 ^ w \<Longrightarrow> n < 2 ^ w" for acc t
    by (induction w acc t rule: read_digits.induct) (auto split: option.splits if_splits)
  show "parse_uint w s = Some n \<Longrightarrow> n < 2 ^ w"
    using rd [of 0] by (auto simp: parse_uint_def Let_def split: if_splits)
qed

section \<open>UTF-8\<close>

text \<open>
  The next character of a byte string, or the longest invalid piece that the replacement
  character stands for: \<open>Inr n\<close> a character of \<open>n\<close> bytes, \<open>Inl n\<close> an invalid piece.
\<close>

definition cont_byte :: "nat \<Rightarrow> nat \<Rightarrow> bytes \<Rightarrow> nat \<Rightarrow> bool" where
  "cont_byte lo hi bs i = (i < length bs \<and> lo \<le> unat (bs ! i) \<and> unat (bs ! i) \<le> hi)"

definition second_range :: "nat \<Rightarrow> nat \<times> nat" where
  "second_range b =
     (if b = 0xE0 then (0xA0, 0xBF) else if b = 0xED then (0x80, 0x9F)
      else if b = 0xF0 then (0x90, 0xBF) else if b = 0xF4 then (0x80, 0x8F) else (0x80, 0xBF))"

definition utf8_next :: "bytes \<Rightarrow> nat + nat" where
  "utf8_next bs =
     (let b = unat (bs ! 0); second = (case second_range b of (lo, hi) \<Rightarrow> cont_byte lo hi bs 1);
          third = cont_byte 0x80 0xBF bs 2; fourth = cont_byte 0x80 0xBF bs 3
      in if b < 0x80 then Inr 1
         else if 0xC2 \<le> b \<and> b \<le> 0xDF then (if second then Inr 2 else Inl 1)
         else if 0xE0 \<le> b \<and> b \<le> 0xEF then (if \<not> second then Inl 1 else if third then Inr 3 else Inl 2)
         else if 0xF0 \<le> b \<and> b \<le> 0xF4 then
           (if \<not> second then Inl 1 else if \<not> third then Inl 2 else if fourth then Inr 4 else Inl 3)
         else Inl 1)"

lemma utf8_next_pos: "utf8_next bs = Inr n \<or> utf8_next bs = Inl n \<Longrightarrow> 0 < n"
  by (auto simp: utf8_next_def Let_def split: if_splits)

lemma utf8_next_posD: "utf8_next bs = Inr n \<Longrightarrow> 0 < n" "utf8_next bs = Inl n \<Longrightarrow> 0 < n"
  using utf8_next_pos by blast+

text \<open>\<open>String::from_utf8\<close>, and \<open>from_utf8_lossy\<close> with its replacement character.\<close>

function utf8_valid :: "bytes \<Rightarrow> bool" where
  "utf8_valid bs =
     (if bs = [] then True else (case utf8_next bs of Inr n \<Rightarrow> utf8_valid (drop n bs) | Inl _ \<Rightarrow> False))"
  by auto
termination
  by (relation "measure length") (auto intro!: diff_less dest: utf8_next_posD)

definition replacement :: bytes where
  "replacement = [0xEF, 0xBF, 0xBD]"

function utf8_lossy :: "bytes \<Rightarrow> bytes" where
  "utf8_lossy bs =
     (if bs = [] then []
      else (case utf8_next bs of
              Inr n \<Rightarrow> take n bs @ utf8_lossy (drop n bs)
            | Inl n \<Rightarrow> replacement @ utf8_lossy (drop n bs)))"
  by auto
termination
  by (relation "measure length") (auto intro!: diff_less dest: utf8_next_posD)

declare utf8_valid.simps [simp del] utf8_lossy.simps [simp del]

definition from_utf8 :: "bytes \<Rightarrow> string option" where
  "from_utf8 bs = (if utf8_valid bs then Some (bytes_str bs) else None)"

definition from_utf8_lossy :: "bytes \<Rightarrow> string" where
  "from_utf8_lossy bs = bytes_str (utf8_lossy bs)"

lemma utf8_lossy_valid: "utf8_valid bs \<Longrightarrow> utf8_lossy bs = bs"
proof (induction bs rule: utf8_valid.induct)
  case (1 bs)
  show ?case
  proof (cases "bs = []")
    case False
    with 1 obtain n where "utf8_next bs = Inr n" "utf8_valid (drop n bs)"
      by (subst (asm) (2) utf8_valid.simps) (auto split: sum.splits)
    with 1 False show ?thesis by (subst utf8_lossy.simps) simp
  qed (simp add: utf8_lossy.simps)
qed

text \<open>Plain ASCII is valid.\<close>

lemma utf8_valid_ascii: "list_all (\<lambda>b. unat b < 128) bs \<Longrightarrow> utf8_valid bs"
proof (induction bs)
  case (Cons b bs)
  then show ?case by (subst utf8_valid.simps) (simp add: utf8_next_def)
qed (simp add: utf8_valid.simps)

text \<open>Validity of a concatenation, and of the two sides of an ASCII byte.\<close>

lemma cont_byte_append: "i < length bs \<Longrightarrow> cont_byte lo hi (bs @ cs) i = cont_byte lo hi bs i"
  by (simp add: cont_byte_def nth_append)

lemma utf8_next_Inr:
  "utf8_next bs = Inr n \<longleftrightarrow>
     (let b = unat (bs ! 0); second = (case second_range b of (lo, hi) \<Rightarrow> cont_byte lo hi bs 1);
          third = cont_byte 0x80 0xBF bs 2; fourth = cont_byte 0x80 0xBF bs 3
      in b < 0x80 \<and> n = 1 \<or> 0xC2 \<le> b \<and> b \<le> 0xDF \<and> second \<and> n = 2 \<or>
         0xE0 \<le> b \<and> b \<le> 0xEF \<and> second \<and> third \<and> n = 3 \<or>
         0xF0 \<le> b \<and> b \<le> 0xF4 \<and> second \<and> third \<and> fourth \<and> n = 4)"
  by (auto simp: utf8_next_def Let_def)

lemma utf8_next_append:
  assumes "bs \<noteq> []" and "n \<le> length bs"
  shows "utf8_next (bs @ cs) = Inr n \<longleftrightarrow> utf8_next bs = Inr n"
proof -
  have "(bs @ cs) ! 0 = bs ! 0" using assms(1) by (simp add: nth_append)
  moreover have "n \<le> length bs \<Longrightarrow> 2 \<le> n \<Longrightarrow> cont_byte lo hi (bs @ cs) 1 = cont_byte lo hi bs 1"
    "n \<le> length bs \<Longrightarrow> 3 \<le> n \<Longrightarrow> cont_byte lo hi (bs @ cs) 2 = cont_byte lo hi bs 2"
    "n \<le> length bs \<Longrightarrow> 4 \<le> n \<Longrightarrow> cont_byte lo hi (bs @ cs) 3 = cont_byte lo hi bs 3" for lo hi
    by (auto intro!: cont_byte_append)
  ultimately show ?thesis
    using assms(2) unfolding utf8_next_Inr Let_def by (auto split: prod.splits)
qed

lemma utf8_next_length: "utf8_next bs = Inr n \<Longrightarrow> bs \<noteq> [] \<Longrightarrow> n \<le> length bs"
  by (auto simp: utf8_next_Inr Let_def cont_byte_def Suc_le_eq split: prod.splits)

lemma second_range_lo: "second_range b = (lo, hi) \<Longrightarrow> 0x80 \<le> lo"
  by (auto simp: second_range_def split: if_splits)

lemma utf8_next_conts:
  assumes "utf8_next bs = Inr n" and "0 < i" and "i < n"
  shows "128 \<le> unat (bs ! i)"
proof -
  from assms have "i = 1 \<or> i = 2 \<or> i = 3" by (auto simp: utf8_next_Inr Let_def)
  with assms show ?thesis
    by (auto simp: utf8_next_Inr Let_def cont_byte_def split: prod.splits dest!: second_range_lo)
qed

lemma utf8_valid_Cons: "bs \<noteq> [] \<Longrightarrow> utf8_valid bs \<longleftrightarrow> (\<exists>n. utf8_next bs = Inr n \<and> utf8_valid (drop n bs))"
  by (subst utf8_valid.simps) (auto split: sum.splits)

lemma utf8_valid_append: "utf8_valid a \<Longrightarrow> utf8_valid b \<Longrightarrow> utf8_valid (a @ b)"
proof (induction "length a" arbitrary: a rule: less_induct)
  case less
  show ?case
  proof (cases "a = []")
    case False
    with less.prems obtain n where n: "utf8_next a = Inr n" "utf8_valid (drop n a)" by (auto simp: utf8_valid_Cons)
    note len = utf8_next_length [OF n(1) False] utf8_next_posD(1) [OF n(1)]
    then have "utf8_valid (drop n a @ b)" using less.hyps n(2) less.prems(2) False by simp
    moreover have "utf8_next (a @ b) = Inr n" using utf8_next_append [OF False len(1)] n(1) by simp
    ultimately show ?thesis using len False by (auto simp: utf8_valid_Cons)
  qed (use less.prems in simp)
qed

lemma utf8_valid_split:
  assumes "unat x < 128"
  shows "utf8_valid (a @ x # b) \<Longrightarrow> utf8_valid a \<and> utf8_valid (x # b)"
proof (induction "length a" arbitrary: a rule: less_induct)
  case less
  show ?case
  proof (cases "a = []")
    case True
    then show ?thesis using less.prems by (simp add: utf8_valid.simps [of "[]"])
  next
    case False
    with less.prems obtain n where n: "utf8_next (a @ x # b) = Inr n" "utf8_valid (drop n (a @ x # b))"
      by (auto simp: utf8_valid_Cons)
    have "n \<le> length a"
    proof (rule ccontr)
      assume "\<not> n \<le> length a"
      then have "128 \<le> unat ((a @ x # b) ! length a)" using utf8_next_conts [OF n(1), of "length a"] False by simp
      with assms show False by simp
    qed
    with n have "utf8_valid (drop n a @ x # b)" and a: "utf8_next a = Inr n" using utf8_next_append [OF False] by simp_all
    moreover have "length (drop n a) < length a" using utf8_next_posD(1) [OF n(1)] False by simp
    ultimately have "utf8_valid (drop n a)" "utf8_valid (x # b)" using less.hyps by blast+
    with a False show ?thesis by (auto simp: utf8_valid_Cons)
  qed
qed

end
