(* ===== verification/Vita_Fs.thy ===== *)
theory Vita_Fs
  imports Rust_Text
begin

unbundle bit_operations_syntax

text \<open>
  File access, \<open>crates/vita-fs\<close>: the functions of \<open>lib.rs\<close> as a record of operations on a
  state, and the \<open>sceIo\<close> backend of \<open>vita.rs\<close> over the kernel's calls, which are a
  parameter. What the kernel documents is \<open>sce_kernel_ok\<close>; under it the backend meets the
  contract \<open>file_store\<close>, with which the services above reason about files.
\<close>

section \<open>The interface\<close>

text \<open>
  The kinds of \<open>io::Error\<close> that matter, a slice that panics, and a loop that runs out of
  its bound of kernel calls.
\<close>

datatype io_error =
  NotFound | InvalidInput | InvalidData | AlreadyExists | FileTooLarge | WouldBlock | TimedOut
  | BrokenPipe | Unspecified | Panicked | Unbounded

record dir_entry =
  ent_name :: string
  ent_is_dir :: bool
  ent_size :: nat

record 'w fs_ops =
  fs_read :: "string \<Rightarrow> 'w \<Rightarrow> 'w \<times> (io_error + bytes)"
  fs_write :: "string \<Rightarrow> bytes \<Rightarrow> 'w \<Rightarrow> 'w \<times> (io_error + unit)"
  fs_append :: "string \<Rightarrow> bytes \<Rightarrow> 'w \<Rightarrow> 'w \<times> (io_error + unit)"
  fs_create_dir_all :: "string \<Rightarrow> 'w \<Rightarrow> 'w \<times> (io_error + unit)"
  fs_remove_file :: "string \<Rightarrow> 'w \<Rightarrow> 'w \<times> (io_error + unit)"
  fs_rename :: "string \<Rightarrow> string \<Rightarrow> 'w \<Rightarrow> 'w \<times> (io_error + unit)"
  fs_read_dir :: "string \<Rightarrow> 'w \<Rightarrow> 'w \<times> (io_error + dir_entry list)"

definition fs_read_to_string :: "'w fs_ops \<Rightarrow> string \<Rightarrow> 'w \<Rightarrow> 'w \<times> (io_error + string)" where
  "fs_read_to_string fs p w =
     (case fs_read fs p w of
        (w, r) \<Rightarrow> (w, and_then r (\<lambda>bs. ok_or (from_utf8 bs) InvalidData)))"

section \<open>The kernel\<close>

record dirent =
  d_attr :: u32
  d_size :: int
  d_name :: string

record 'k sce_io =
  sceIoOpen :: "string \<Rightarrow> int \<Rightarrow> 'k \<Rightarrow> 'k \<times> int"
  sceIoRead :: "int \<Rightarrow> nat \<Rightarrow> 'k \<Rightarrow> 'k \<times> int \<times> bytes"
  sceIoWrite :: "int \<Rightarrow> bytes \<Rightarrow> 'k \<Rightarrow> 'k \<times> int"
  sceIoClose :: "int \<Rightarrow> 'k \<Rightarrow> 'k"
  sceIoMkdir :: "string \<Rightarrow> 'k \<Rightarrow> 'k \<times> int"
  sceIoRemove :: "string \<Rightarrow> 'k \<Rightarrow> 'k \<times> int"
  sceIoRename :: "string \<Rightarrow> string \<Rightarrow> 'k \<Rightarrow> 'k \<times> int"
  sceIoSyncByFd :: "int \<Rightarrow> 'k \<Rightarrow> 'k"
  sceIoDopen :: "string \<Rightarrow> 'k \<Rightarrow> 'k \<times> int"
  sceIoDread :: "int \<Rightarrow> 'k \<Rightarrow> 'k \<times> int \<times> dirent"
  sceIoDclose :: "int \<Rightarrow> 'k \<Rightarrow> 'k"

definition SCE_SO_IFMT :: u32 where "SCE_SO_IFMT = 0x38"
definition SCE_SO_IFDIR :: u32 where "SCE_SO_IFDIR = 0x10"
definition SCE_O_RDONLY :: int where "SCE_O_RDONLY = 1"
definition SCE_O_WRITE :: int where "SCE_O_WRITE = 0x302"
definition SCE_ERRNO_ENOENT :: int where "SCE_ERRNO_ENOENT = 0x80010002 - 2 ^ 32"
definition READ_CHUNK :: nat where "READ_CHUNK = 8 * 1024"

section \<open>The backend\<close>

definition norm :: "string \<Rightarrow> string" where
  "norm s =
     (case str_find (CHR '':'') s of
        Some c \<Rightarrow>
          if Suc c < length s \<and> s ! Suc c = CHR ''/'' then take (Suc c) s @ drop (c + 2) s else s
      | None \<Rightarrow> s)"

definition cstr :: "string \<Rightarrow> io_error + string" where
  "cstr s = (if CHR 0x00 \<in> set s then Inl InvalidInput else Inr s)"

fun sce_read_loop :: "'k sce_io \<Rightarrow> nat \<Rightarrow> int \<Rightarrow> bytes \<Rightarrow> 'k \<Rightarrow> 'k \<times> (io_error + bytes)" where
  "sce_read_loop K 0 fd out k = (k, Inl Unbounded)"
| "sce_read_loop K (Suc n) fd out k =
     (case sceIoRead K fd READ_CHUNK k of
        (k, r, buf) \<Rightarrow>
          if r < 0 then (sceIoClose K fd k, Inl Unspecified)
          else if r = 0 then (sceIoClose K fd k, Inr out)
          else if int READ_CHUNK < r then (k, Inl Panicked)
          else sce_read_loop K n fd (out @ take (nat r) buf) k)"

definition sce_read :: "'k sce_io \<Rightarrow> nat \<Rightarrow> string \<Rightarrow> 'k \<Rightarrow> 'k \<times> (io_error + bytes)" where
  "sce_read K fuel p k =
     (case cstr (norm p) of
        Inl e \<Rightarrow> (k, Inl e)
      | Inr cp \<Rightarrow>
          (case sceIoOpen K cp SCE_O_RDONLY k of
             (k, fd) \<Rightarrow>
               if fd < 0 then (k, Inl (if fd = SCE_ERRNO_ENOENT then NotFound else Unspecified))
               else sce_read_loop K fuel fd [] k))"

text \<open>The loop that writes a buffer in as many calls as the kernel needs.\<close>

function sce_write_loop :: "'k sce_io \<Rightarrow> int \<Rightarrow> bytes \<Rightarrow> 'k \<Rightarrow> 'k \<times> (io_error + unit)" where
  "sce_write_loop K fd buf k =
     (if buf = [] then (sceIoClose K fd (sceIoSyncByFd K fd k), Inr ())
      else (case sceIoWrite K fd buf k of
              (k, n) \<Rightarrow>
                if n \<le> 0 then (sceIoClose K fd k, Inl Unspecified)
                else if int (length buf) < n then (k, Inl Panicked)
                else sce_write_loop K fd (drop (nat n) buf) k))"
  by auto
termination
  by (relation "measure (\<lambda>(K, fd, buf, k). length buf)") auto

declare sce_write_loop.simps [simp del]

definition sce_append :: "'k sce_io \<Rightarrow> string \<Rightarrow> bytes \<Rightarrow> 'k \<Rightarrow> 'k \<times> (io_error + unit)" where
  "sce_append K p d k =
     (case cstr (norm p) of
        Inl e \<Rightarrow> (k, Inl e)
      | Inr cp \<Rightarrow>
          (case sceIoOpen K cp SCE_O_WRITE k of
             (k, fd) \<Rightarrow> if fd < 0 then (k, Inl Unspecified) else sce_write_loop K fd d k))"

definition sce_write :: "'k sce_io \<Rightarrow> string \<Rightarrow> bytes \<Rightarrow> 'k \<Rightarrow> 'k \<times> (io_error + unit)" where
  "sce_write K p d k =
     (case cstr (norm p) of
        Inl e \<Rightarrow> (k, Inl e)
      | Inr cp \<Rightarrow>
          (case sceIoOpen K cp SCE_O_WRITE (fst (sceIoRemove K cp k)) of
             (k, fd) \<Rightarrow> if fd < 0 then (k, Inl Unspecified) else sce_write_loop K fd d k))"

text \<open>
  \<open>create_dir_all\<close> makes every cumulative level after the device prefix and ignores what the
  kernel answers.
\<close>

definition mkdir_levels :: "string \<Rightarrow> string list" where
  "mkdir_levels s =
     (let colon = (case str_find (CHR '':'') s of Some c \<Rightarrow> Suc c | None \<Rightarrow> 0)
      in map (\<lambda>i. take i s)
           (filter (\<lambda>i. (i = length s \<or> s ! i = CHR ''/'') \<and> colon < i) [colon..<Suc (length s)]))"

fun sce_mkdirs :: "'k sce_io \<Rightarrow> string list \<Rightarrow> 'k \<Rightarrow> 'k \<times> (io_error + unit)" where
  "sce_mkdirs K [] k = (k, Inr ())"
| "sce_mkdirs K (p # ps) k =
     (case cstr p of Inl e \<Rightarrow> (k, Inl e) | Inr cp \<Rightarrow> sce_mkdirs K ps (fst (sceIoMkdir K cp k)))"

definition sce_create_dir_all :: "'k sce_io \<Rightarrow> string \<Rightarrow> 'k \<Rightarrow> 'k \<times> (io_error + unit)" where
  "sce_create_dir_all K p k = sce_mkdirs K (mkdir_levels (norm p)) k"

definition sce_remove_file :: "'k sce_io \<Rightarrow> string \<Rightarrow> 'k \<Rightarrow> 'k \<times> (io_error + unit)" where
  "sce_remove_file K p k =
     (case cstr (norm p) of
        Inl e \<Rightarrow> (k, Inl e)
      | Inr cp \<Rightarrow>
          (case sceIoRemove K cp k of
             (k, rc) \<Rightarrow> (k, if rc < 0 \<and> rc \<noteq> SCE_ERRNO_ENOENT then Inl Unspecified else Inr ())))"

definition sce_rename :: "'k sce_io \<Rightarrow> string \<Rightarrow> string \<Rightarrow> 'k \<Rightarrow> 'k \<times> (io_error + unit)" where
  "sce_rename K from to k =
     (case cstr (norm from) of
        Inl e \<Rightarrow> (k, Inl e)
      | Inr cf \<Rightarrow>
          (case cstr (norm to) of
             Inl e \<Rightarrow> (k, Inl e)
           | Inr ct \<Rightarrow>
               (case sceIoRename K cf ct (fst (sceIoRemove K ct k)) of
                  (k, rc) \<Rightarrow> (k, if rc < 0 then Inl Unspecified else Inr ()))))"

definition dirent_entry :: "dirent \<Rightarrow> dir_entry" where
  "dirent_entry d =
     (let is_dir = (d_attr d AND SCE_SO_IFMT) = SCE_SO_IFDIR
      in \<lparr>ent_name = from_utf8_lossy (str_bytes (d_name d)), ent_is_dir = is_dir,
          ent_size = (if is_dir then 0 else nat (max (d_size d) 0))\<rparr>)"

fun sce_dread_loop :: "'k sce_io \<Rightarrow> nat \<Rightarrow> int \<Rightarrow> dir_entry list \<Rightarrow> 'k \<Rightarrow> 'k \<times> (io_error + dir_entry list)" where
  "sce_dread_loop K 0 fd out k = (k, Inl Unbounded)"
| "sce_dread_loop K (Suc n) fd out k =
     (case sceIoDread K fd k of
        (k, rc, d) \<Rightarrow>
          if rc < 0 then (sceIoDclose K fd k, Inl Unspecified)
          else if rc = 0 then (sceIoDclose K fd k, Inr out)
          else sce_dread_loop K n fd
                 (if ent_name (dirent_entry d) \<in> {''.'', ''..''} then out else out @ [dirent_entry d]) k)"

definition sce_read_dir :: "'k sce_io \<Rightarrow> nat \<Rightarrow> string \<Rightarrow> 'k \<Rightarrow> 'k \<times> (io_error + dir_entry list)" where
  "sce_read_dir K fuel p k =
     (case cstr (norm p) of
        Inl e \<Rightarrow> (k, Inl e)
      | Inr cp \<Rightarrow>
          (case sceIoDopen K cp k of
             (k, fd) \<Rightarrow>
               if fd < 0 then (k, Inl (if fd = SCE_ERRNO_ENOENT then NotFound else Unspecified))
               else sce_dread_loop K fuel fd [] k))"

text \<open>The bound on the reads of one call may depend on what the kernel holds.\<close>

definition sce_fs :: "'k sce_io \<Rightarrow> ('k \<Rightarrow> nat) \<Rightarrow> 'k fs_ops" where
  "sce_fs K fuel =
     \<lparr>fs_read = (\<lambda>p k. sce_read K (fuel k) p k), fs_write = sce_write K, fs_append = sce_append K,
      fs_create_dir_all = sce_create_dir_all K, fs_remove_file = sce_remove_file K,
      fs_rename = sce_rename K, fs_read_dir = (\<lambda>p k. sce_read_dir K (fuel k) p k)\<rparr>"

section \<open>What the kernel documents\<close>

definition child :: "string \<Rightarrow> string \<Rightarrow> string" where
  "child p name = (if ends_with '':'' p then p @ name else p @ ''/'' @ name)"

definition entry_name_ok :: "string \<Rightarrow> bool" where
  "entry_name_ok n \<longleftrightarrow>
     n \<noteq> [] \<and> n \<noteq> ''.'' \<and> n \<noteq> ''..'' \<and> CHR ''/'' \<notin> set n \<and> CHR '':'' \<notin> set n \<and> utf8_valid (str_bytes n)"

definition dirent_is_dir :: "dirent \<Rightarrow> bool" where
  "dirent_is_dir d = ((d_attr d AND SCE_SO_IFMT) = SCE_SO_IFDIR)"

text \<open>A directory's entries are the files below it, each with its size.\<close>

definition lists_files :: "(string \<rightharpoonup> bytes) \<Rightarrow> string \<Rightarrow> dirent list \<Rightarrow> bool" where
  "lists_files fm p ds \<longleftrightarrow>
     (\<forall>n c. entry_name_ok n \<longrightarrow> fm (child p n) = Some c \<longrightarrow> (\<exists>d\<in>set ds. d_name d = n \<and> \<not> dirent_is_dir d)) \<and>
     (\<forall>d\<in>set ds. utf8_valid (str_bytes (d_name d)) \<and>
        (\<not> dirent_is_dir d \<longrightarrow> (\<exists>c. fm (child p (d_name d)) = Some c \<and> d_size d = int (length c))))"

text \<open>
  The kernel, seen through its files, its open files with their positions, and its open
  directories with the entries still to come. An answer below zero is a failure; a write may
  take fewer bytes than offered, a read may give fewer than asked.
\<close>

definition open_ok :: "'k sce_io \<Rightarrow> ('k \<Rightarrow> string \<rightharpoonup> bytes) \<Rightarrow> ('k \<Rightarrow> int \<rightharpoonup> string \<times> nat) \<Rightarrow> bool" where
  "open_ok K files handle \<longleftrightarrow>
     (\<forall>p fl k k' fd. sceIoOpen K p fl k = (k', fd) \<longrightarrow>
        (if fd < 0 then files k' = files k
         else handle k' fd = Some (p, 0) \<and>
              (if fl = SCE_O_RDONLY then files k' = files k \<and> files k p \<noteq> None
               else files k' = (case files k p of None \<Rightarrow> (files k)(p \<mapsto> []) | Some _ \<Rightarrow> files k))))"

definition read_ok :: "'k sce_io \<Rightarrow> ('k \<Rightarrow> string \<rightharpoonup> bytes) \<Rightarrow> ('k \<Rightarrow> int \<rightharpoonup> string \<times> nat) \<Rightarrow> bool" where
  "read_ok K files handle \<longleftrightarrow>
     (\<forall>fd n k k' r buf p i c. sceIoRead K fd n k = (k', r, buf) \<longrightarrow> handle k fd = Some (p, i) \<longrightarrow>
        files k p = Some c \<longrightarrow> 0 < n \<longrightarrow>
        files k' = files k \<and>
        (0 \<le> r \<longrightarrow> nat r \<le> n \<and> nat r \<le> length c - i \<and> take (nat r) buf = take (nat r) (drop i c) \<and>
           (r = 0 \<longrightarrow> length c \<le> i) \<and> handle k' fd = Some (p, i + nat r)))"

definition write_ok :: "'k sce_io \<Rightarrow> ('k \<Rightarrow> string \<rightharpoonup> bytes) \<Rightarrow> ('k \<Rightarrow> int \<rightharpoonup> string \<times> nat) \<Rightarrow> bool" where
  "write_ok K files handle \<longleftrightarrow>
     (\<forall>fd d k k' r p i c. sceIoWrite K fd d k = (k', r) \<longrightarrow> handle k fd = Some (p, i) \<longrightarrow> files k p = Some c \<longrightarrow>
        (if r \<le> 0 then files k' = files k
         else nat r \<le> length d \<and> handle k' fd = Some (p, i) \<and> files k' = (files k)(p \<mapsto> c @ take (nat r) d)))"

definition dir_ok :: "'k sce_io \<Rightarrow> ('k \<Rightarrow> string \<rightharpoonup> bytes) \<Rightarrow> ('k \<Rightarrow> int \<rightharpoonup> dirent list) \<Rightarrow> bool" where
  "dir_ok K files listing \<longleftrightarrow>
     (\<forall>p k k' fd. sceIoDopen K p k = (k', fd) \<longrightarrow>
        files k' = files k \<and> (0 \<le> fd \<longrightarrow> (\<exists>ds. listing k' fd = Some ds \<and> lists_files (files k) p ds))) \<and>
     (\<forall>fd k k' r d ds. sceIoDread K fd k = (k', r, d) \<longrightarrow> listing k fd = Some ds \<longrightarrow>
        files k' = files k \<and>
        (0 \<le> r \<longrightarrow> (case ds of [] \<Rightarrow> r = 0 | d' # ds' \<Rightarrow> 0 < r \<and> d = d' \<and> listing k' fd = Some ds')))"

definition remove_ok :: "'k sce_io \<Rightarrow> ('k \<Rightarrow> string \<rightharpoonup> bytes) \<Rightarrow> bool" where
  "remove_ok K files \<longleftrightarrow>
     (\<forall>p k k' r. sceIoRemove K p k = (k', r) \<longrightarrow>
        (if r < 0 then files k' = files k \<and> (r = SCE_ERRNO_ENOENT \<longrightarrow> files k p = None)
         else files k' = (files k)(p := None)))"

definition rename_ok :: "'k sce_io \<Rightarrow> ('k \<Rightarrow> string \<rightharpoonup> bytes) \<Rightarrow> bool" where
  "rename_ok K files \<longleftrightarrow>
     (\<forall>f t k k' r. sceIoRename K f t k = (k', r) \<longrightarrow>
        (if r < 0 then files k' = files k
         else (\<exists>c. files k f = Some c \<and> files k' = (files k)(f := None, t \<mapsto> c))))"

definition sce_kernel_ok ::
  "'k sce_io \<Rightarrow> ('k \<Rightarrow> string \<rightharpoonup> bytes) \<Rightarrow> ('k \<Rightarrow> int \<rightharpoonup> string \<times> nat) \<Rightarrow> ('k \<Rightarrow> int \<rightharpoonup> dirent list) \<Rightarrow> bool" where
  "sce_kernel_ok K files handle listing \<longleftrightarrow>
     open_ok K files handle \<and> read_ok K files handle \<and> write_ok K files handle \<and> dir_ok K files listing \<and>
     (\<forall>fd k. files (sceIoClose K fd k) = files k \<and> files (sceIoSyncByFd K fd k) = files k \<and>
        files (sceIoDclose K fd k) = files k) \<and>
     (\<forall>p k. files (fst (sceIoMkdir K p k)) = files k) \<and>
     remove_ok K files \<and> rename_ok K files"

section \<open>The contract of the interface\<close>

text \<open>
  What a caller of \<open>vita-fs\<close> may rely on: a success has the named effect on the files, a
  failure touches nothing but the paths it was given.
\<close>

locale file_store =
  fixes fs :: "'w fs_ops" and view :: "'w \<Rightarrow> string \<rightharpoonup> bytes"
  assumes read_law: "fs_read fs p w = (w', Inr bs) \<Longrightarrow> view w (norm p) = Some bs"
    and read_frame: "fs_read fs p w = (w', rb) \<Longrightarrow> view w' = view w"
    and write_law: "fs_write fs p d w = (w', Inr ()) \<Longrightarrow> view w' (norm p) = Some d"
    and write_frame: "fs_write fs p d w = (w', r) \<Longrightarrow> q \<noteq> norm p \<Longrightarrow> view w' q = view w q"
    and append_law: "fs_append fs p d w = (w', Inr ()) \<Longrightarrow> view w (norm p) = Some c \<Longrightarrow> view w' (norm p) = Some (c @ d)"
    and append_frame: "fs_append fs p d w = (w', r) \<Longrightarrow> q \<noteq> norm p \<Longrightarrow> view w' q = view w q"
    and mkdir_frame: "fs_create_dir_all fs p w = (w', r) \<Longrightarrow> view w' = view w"
    and remove_frame: "fs_remove_file fs p w = (w', r) \<Longrightarrow> q \<noteq> norm p \<Longrightarrow> view w' q = view w q"
    and remove_law: "fs_remove_file fs p w = (w', Inr ()) \<Longrightarrow> view w' (norm p) = None"
    and rename_law: "fs_rename fs f t w = (w', Inr ()) \<Longrightarrow>
          \<exists>c. (view w (norm f) = Some c \<and> view w' (norm t) = Some c \<and> (norm f \<noteq> norm t \<longrightarrow> view w' (norm f) = None))"
    and rename_frame: "fs_rename fs f t w = (w', r) \<Longrightarrow> q \<noteq> norm f \<Longrightarrow> q \<noteq> norm t \<Longrightarrow> view w' q = view w q"
    and read_dir_frame: "fs_read_dir fs p w = (w', rl) \<Longrightarrow> view w' = view w"
    and read_dir_complete: "fs_read_dir fs p w = (w', Inr es) \<Longrightarrow> entry_name_ok n \<Longrightarrow>
          view w (child (norm p) n) = Some c \<Longrightarrow> \<exists>e\<in>set es. ent_name e = n \<and> \<not> ent_is_dir e"
    and read_dir_sizes: "fs_read_dir fs p w = (w', Inr es) \<Longrightarrow> e \<in> set es \<Longrightarrow> \<not> ent_is_dir e \<Longrightarrow>
          \<exists>c. view w (child (norm p) (ent_name e)) = Some c \<and> ent_size e = length c"
begin

lemma write_view:
  assumes "fs_write fs p d w = (w', Inr ())"
  shows "view w' = (view w)(norm p \<mapsto> d)"
  using write_law [OF assms] write_frame [OF assms] by (auto intro!: ext)

lemma append_view:
  assumes "fs_append fs p d w = (w', Inr ())" and "view w (norm p) = Some c"
  shows "view w' = (view w)(norm p \<mapsto> c @ d)"
  using append_law [OF assms] append_frame [OF assms(1)] by (auto intro!: ext)

lemma rename_view:
  assumes "fs_rename fs f t w = (w', Inr ())" and "norm f \<noteq> norm t"
  shows "\<exists>c. view w (norm f) = Some c \<and> view w' = (view w)(norm f := None, norm t \<mapsto> c)"
proof -
  from rename_law [OF assms(1)] assms(2) obtain c
    where c: "view w (norm f) = Some c" "view w' (norm t) = Some c" "view w' (norm f) = None" by blast
  with rename_frame [OF assms(1)] have "view w' = (view w)(norm f := None, norm t \<mapsto> c)"
    by (auto intro!: ext)
  with c show ?thesis by blast
qed

lemma write_read:
  assumes "fs_write fs p d w = (w1, Inr ())" and "fs_read fs p w1 = (w2, Inr bs)"
  shows "bs = d"
  using write_law [OF assms(1)] read_law [OF assms(2)] by simp

end

section \<open>The backend meets the contract\<close>

lemma read_okD:
  "read_ok K files handle \<Longrightarrow> sceIoRead K fd n k = (k', r, buf) \<Longrightarrow> handle k fd = Some (p, i) \<Longrightarrow> files k p = Some c \<Longrightarrow>
   0 < n \<Longrightarrow> files k' = files k \<and>
     (0 \<le> r \<longrightarrow> nat r \<le> n \<and> nat r \<le> length c - i \<and> take (nat r) buf = take (nat r) (drop i c) \<and>
        (r = 0 \<longrightarrow> length c \<le> i) \<and> handle k' fd = Some (p, i + nat r))"
  unfolding read_ok_def by blast

lemma dir_okD:
  "dir_ok K files listing \<Longrightarrow> sceIoDread K fd k = (k', r, d) \<Longrightarrow> listing k fd = Some ds \<Longrightarrow> files k' = files k \<and>
     (0 \<le> r \<longrightarrow> (case ds of [] \<Rightarrow> r = 0 | d' # ds' \<Rightarrow> 0 < r \<and> d = d' \<and> listing k' fd = Some ds'))"
  unfolding dir_ok_def by blast

lemma sce_read_loop_ok:
  assumes "sce_kernel_ok K files handle listing" and "handle k fd = Some (p, i)" and "files k p = Some c"
    and "sce_read_loop K n fd out k = (k', r)"
  shows "files k' = files k \<and> (\<forall>bs. r = Inr bs \<longrightarrow> bs = out @ drop i c)"
  using assms(2-)
proof (induction n arbitrary: i out k)
  case (Suc n)
  obtain k1 m buf where rd: "sceIoRead K fd READ_CHUNK k = (k1, m, buf)" by (cases "sceIoRead K fd READ_CHUNK k")
  have ok: "read_ok K files handle" using assms(1) by (simp add: sce_kernel_ok_def)
  have f: "files k1 = files k" and
    m: "0 \<le> m \<Longrightarrow> nat m \<le> length c - i \<and> take (nat m) buf = take (nat m) (drop i c) \<and>
      (m = 0 \<longrightarrow> length c \<le> i) \<and> handle k1 fd = Some (p, i + nat m)"
    using read_okD [OF ok rd Suc.prems(1,2)] by (simp_all add: READ_CHUNK_def)
  have close: "files (sceIoClose K fd k1) = files k" using assms(1) f by (simp add: sce_kernel_ok_def)
  consider "m < 0" | "m = 0" | "0 < m" "int READ_CHUNK < m" | "0 < m" "m \<le> int READ_CHUNK" by linarith
  then show ?case
  proof cases
    case 4
    then have "sce_read_loop K n fd (out @ take (nat m) (drop i c)) k1 = (k', r)"
      using Suc.prems(3) rd m by simp
    moreover have "handle k1 fd = Some (p, i + nat m)" and "files k1 p = Some c" using m f 4 Suc.prems(2) by auto
    ultimately have "files k' = files k1 \<and> (\<forall>bs. r = Inr bs \<longrightarrow> bs = (out @ take (nat m) (drop i c)) @ drop (i + nat m) c)"
      using Suc.IH by blast
    moreover have "take (nat m) (drop i c) @ drop (i + nat m) c = drop i c"
      by (metis add.commute append_take_drop_id drop_drop)
    ultimately show ?thesis using f by simp
  qed (use Suc.prems rd f close m in auto)
qed auto

lemma sce_write_loop_ok:
  assumes "sce_kernel_ok K files handle listing"
  shows "handle k fd = Some (p, i) \<Longrightarrow> files k p = Some c \<Longrightarrow> sce_write_loop K fd buf k = (k', r) \<Longrightarrow>
    (\<forall>q. q \<noteq> p \<longrightarrow> files k' q = files k q) \<and> (r = Inr () \<longrightarrow> files k' p = Some (c @ buf))"
proof (induction "length buf" arbitrary: buf k c rule: less_induct)
  case less
  have quiet: "files (sceIoClose K fd k) = files k" "files (sceIoSyncByFd K fd k) = files k" for k
    using assms by (simp_all add: sce_kernel_ok_def)
  show ?case
  proof (cases "buf = []")
    case True
    then show ?thesis using less.prems quiet by (auto simp: sce_write_loop.simps [of K fd "[]" k])
  next
    case False
    obtain k1 n where wr: "sceIoWrite K fd buf k = (k1, n)" by (cases "sceIoWrite K fd buf k")
    have "write_ok K files handle" using assms by (simp add: sce_kernel_ok_def)
    then have n: "if n \<le> 0 then files k1 = files k
      else nat n \<le> length buf \<and> handle k1 fd = Some (p, i) \<and> files k1 = (files k)(p \<mapsto> c @ take (nat n) buf)"
      using wr less.prems unfolding write_ok_def by blast
    show ?thesis
    proof (cases "n \<le> 0")
      case True
      then show ?thesis using less.prems n quiet wr False by (auto simp: sce_write_loop.simps [of K fd buf k])
    next
      case pos: False
      with n wr False less.prems(3) have "sce_write_loop K fd (drop (nat n) buf) k1 = (k', r)"
        by (simp add: sce_write_loop.simps [of K fd buf k] split: if_splits)
      moreover have "length (drop (nat n) buf) < length buf" using pos False by simp
      moreover have "handle k1 fd = Some (p, i)" "files k1 p = Some (c @ take (nat n) buf)" using n pos by auto
      ultimately show ?thesis using less.hyps [of "drop (nat n) buf" k1] n pos by (auto split: if_splits)
    qed
  qed
qed

text \<open>The entries of a listing, without the two that every directory has.\<close>

definition real_entries :: "dirent list \<Rightarrow> dir_entry list" where
  "real_entries ds = filter (\<lambda>e. ent_name e \<notin> {''.'', ''..''}) (map dirent_entry ds)"

lemma real_entries_Cons: "real_entries (d # ds) = real_entries [d] @ real_entries ds"
  by (simp add: real_entries_def)

lemma real_entries_out:
  "(if ent_name (dirent_entry d) \<in> {''.'', ''..''} then out else out @ [dirent_entry d]) = out @ real_entries [d]"
  by (simp add: real_entries_def)

lemma sce_dread_loop_ok:
  assumes "sce_kernel_ok K files handle listing"
  shows "listing k fd = Some ds \<Longrightarrow> sce_dread_loop K n fd out k = (k', r) \<Longrightarrow>
    files k' = files k \<and>
    (\<forall>es. r = Inr es \<longrightarrow> es = out @ real_entries ds)"
proof (induction n arbitrary: ds out k)
  case (Suc n)
  obtain k1 m d where rd: "sceIoDread K fd k = (k1, m, d)" by (cases "sceIoDread K fd k")
  have ok: "dir_ok K files listing" using assms by (simp add: sce_kernel_ok_def)
  have f: "files k1 = files k" and
    m: "0 \<le> m \<Longrightarrow> (case ds of [] \<Rightarrow> m = 0 | d' # ds' \<Rightarrow> 0 < m \<and> d = d' \<and> listing k1 fd = Some ds')"
    using dir_okD [OF ok rd Suc.prems(1)] by simp_all
  have close: "files (sceIoDclose K fd k1) = files k" using assms f by (simp add: sce_kernel_ok_def)
  show ?case
  proof (cases "m \<le> 0")
    case True
    then show ?thesis using Suc.prems rd m close by (cases ds) (auto simp: real_entries_def split: if_splits)
  next
    case False
    with m obtain ds' where ds: "ds = d # ds'" "listing k1 fd = Some ds'" by (cases ds) auto
    have "sce_dread_loop K n fd (out @ real_entries [d]) k1 = (k', r)"
      using False rd Suc.prems(2) unfolding real_entries_out [symmetric] by simp
    from Suc.IH [OF ds(2) this] f show ?thesis unfolding ds(1) real_entries_Cons [of d ds'] by simp
  qed
qed auto

lemma dirent_entry_simps:
  assumes "utf8_valid (str_bytes (d_name d))"
  shows "ent_name (dirent_entry d) = d_name d" and "ent_is_dir (dirent_entry d) = dirent_is_dir d"
    and "\<not> dirent_is_dir d \<Longrightarrow> ent_size (dirent_entry d) = nat (max (d_size d) 0)"
  using assms by (simp_all add: dirent_entry_def dirent_is_dir_def from_utf8_lossy_def utf8_lossy_valid Let_def)

lemma cstr_InrD: "cstr s = Inr t \<Longrightarrow> t = s"
  by (simp add: cstr_def split: if_splits)

lemma sce_append_ok:
  assumes "sce_kernel_ok K files handle listing" and "sce_append K p d k = (k', r)"
  shows "(\<forall>q. q \<noteq> norm p \<longrightarrow> files k' q = files k q) \<and>
    (r = Inr () \<longrightarrow> files k' (norm p) = Some ((case files k (norm p) of None \<Rightarrow> [] | Some c \<Rightarrow> c) @ d))"
proof (cases "cstr (norm p)")
  case (Inr cp)
  then have cp: "cp = norm p" by (rule cstr_InrD)
  obtain k1 fd where op: "sceIoOpen K cp SCE_O_WRITE k = (k1, fd)" by (cases "sceIoOpen K cp SCE_O_WRITE k")
  have "open_ok K files handle" using assms(1) by (simp add: sce_kernel_ok_def)
  then have o: "if fd < 0 then files k1 = files k else handle k1 fd = Some (cp, 0) \<and>
      files k1 = (case files k cp of None \<Rightarrow> (files k)(cp \<mapsto> []) | Some _ \<Rightarrow> files k)"
    using op unfolding open_ok_def by (auto simp: SCE_O_WRITE_def SCE_O_RDONLY_def)
  show ?thesis
  proof (cases "fd < 0")
    case True
    then show ?thesis using assms(2) Inr op o by (auto simp: sce_append_def)
  next
    case False
    then have wl: "sce_write_loop K fd d k1 = (k', r)" using assms(2) Inr op by (simp add: sce_append_def)
    have k1: "files k1 cp = Some (case files k cp of None \<Rightarrow> [] | Some c \<Rightarrow> c)"
      and h: "handle k1 fd = Some (cp, 0)" and others: "\<forall>q. q \<noteq> cp \<longrightarrow> files k1 q = files k q"
      using o False by (auto split: option.splits)
    from sce_write_loop_ok [OF assms(1) h k1 wl] others cp show ?thesis by simp
  qed
qed (use assms in \<open>auto simp: sce_append_def\<close>)


lemma sce_remove_kernel:
  assumes "sce_kernel_ok K files handle listing"
  shows "files (fst (sceIoRemove K p k)) = files k \<or> files (fst (sceIoRemove K p k)) = (files k)(p := None)"
proof -
  obtain k' r where rm: "sceIoRemove K p k = (k', r)" by (cases "sceIoRemove K p k")
  moreover have "remove_ok K files" using assms by (simp add: sce_kernel_ok_def)
  ultimately have "if r < 0 then files k' = files k else files k' = (files k)(p := None)"
    unfolding remove_ok_def by (auto split: if_splits)
  with rm show ?thesis by (auto split: if_splits)
qed

text \<open>
  \<open>write\<close> ignores the answer to its remove, so it replaces the content only where removing
  works; elsewhere it appends.
\<close>

definition removable :: "'k sce_io \<Rightarrow> ('k \<Rightarrow> string \<rightharpoonup> bytes) \<Rightarrow> bool" where
  "removable K files \<longleftrightarrow> (\<forall>p k. files (fst (sceIoRemove K p k)) p = None)"

lemma sce_write_append: "sce_write K p d k = (case cstr (norm p) of
    Inl e \<Rightarrow> (k, Inl e) | Inr cp \<Rightarrow> sce_append K p d (fst (sceIoRemove K cp k)))"
  by (simp add: sce_write_def sce_append_def split: sum.splits)

lemma sce_write_ok:
  assumes "sce_kernel_ok K files handle listing" and "removable K files" and "sce_write K p d k = (k', r)"
  shows "(\<forall>q. q \<noteq> norm p \<longrightarrow> files k' q = files k q) \<and> (r = Inr () \<longrightarrow> files k' (norm p) = Some d)"
proof (cases "cstr (norm p)")
  case (Inr cp)
  let ?k = "fst (sceIoRemove K cp k)"
  from Inr have "sce_append K p d ?k = (k', r)" using assms(3) by (simp add: sce_write_append)
  moreover from Inr have "cp = norm p" by (rule cstr_InrD)
  moreover have "files ?k cp = None" using assms(2) by (simp add: removable_def)
  ultimately show ?thesis
    using sce_append_ok [OF assms(1), of p d ?k k' r] sce_remove_kernel [OF assms(1), of cp k] by auto
qed (use assms in \<open>auto simp: sce_write_append\<close>)

lemma sce_read_ok:
  assumes "sce_kernel_ok K files handle listing" and "sce_read K n p k = (k', r)"
  shows "files k' = files k \<and> (\<forall>bs. r = Inr bs \<longrightarrow> files k (norm p) = Some bs)"
proof (cases "cstr (norm p)")
  case (Inr cp)
  obtain k1 fd where op: "sceIoOpen K cp SCE_O_RDONLY k = (k1, fd)" by (cases "sceIoOpen K cp SCE_O_RDONLY k")
  have "open_ok K files handle" using assms(1) by (simp add: sce_kernel_ok_def)
  then have o: "if fd < 0 then files k1 = files k
      else handle k1 fd = Some (cp, 0) \<and> files k1 = files k \<and> files k cp \<noteq> None"
    using op unfolding open_ok_def by (auto split: if_splits)
  show ?thesis
  proof (cases "fd < 0")
    case False
    with o obtain c where c: "files k1 cp = Some c" and h: "handle k1 fd = Some (cp, 0)" and f: "files k1 = files k"
      by auto
    have "sce_read_loop K n fd [] k1 = (k', r)" using assms(2) Inr op False by (simp add: sce_read_def)
    from sce_read_loop_ok [OF assms(1) h c this] c f cstr_InrD [OF Inr] show ?thesis by auto
  qed (use assms(2) Inr op o in \<open>auto simp: sce_read_def\<close>)
qed (use assms in \<open>auto simp: sce_read_def\<close>)

lemma sce_remove_file_ok:
  assumes "sce_kernel_ok K files handle listing" and "sce_remove_file K p k = (k', r)"
  shows "(\<forall>q. q \<noteq> norm p \<longrightarrow> files k' q = files k q) \<and> (r = Inr () \<longrightarrow> files k' (norm p) = None)"
proof (cases "cstr (norm p)")
  case (Inr cp)
  obtain k1 rc where rm: "sceIoRemove K cp k = (k1, rc)" by (cases "sceIoRemove K cp k")
  moreover have "remove_ok K files" using assms(1) by (simp add: sce_kernel_ok_def)
  ultimately have "if rc < 0 then files k1 = files k \<and> (rc = SCE_ERRNO_ENOENT \<longrightarrow> files k cp = None)
      else files k1 = (files k)(cp := None)"
    unfolding remove_ok_def by blast
  then show ?thesis
    using assms(2) Inr rm cstr_InrD [OF Inr] by (auto simp: sce_remove_file_def split: if_splits)
qed (use assms in \<open>auto simp: sce_remove_file_def\<close>)

lemma sce_rename_ok:
  assumes "sce_kernel_ok K files handle listing" and "sce_rename K f t k = (k', r)"
  shows "(\<forall>q. q \<noteq> norm f \<longrightarrow> q \<noteq> norm t \<longrightarrow> files k' q = files k q) \<and>
    (r = Inr () \<longrightarrow> (\<exists>c. files k (norm f) = Some c \<and> files k' (norm t) = Some c \<and>
       (norm f \<noteq> norm t \<longrightarrow> files k' (norm f) = None)))"
proof (cases "cstr (norm f)")
  case f: (Inr cf)
  show ?thesis
  proof (cases "cstr (norm t)")
    case t: (Inr ct)
    let ?k = "fst (sceIoRemove K ct k)"
    obtain k1 rc where rn: "sceIoRename K cf ct ?k = (k1, rc)" by (cases "sceIoRename K cf ct ?k")
    with assms(2) f t have k': "k' = k1" "r = (if rc < 0 then Inl Unspecified else Inr ())"
      by (auto simp: sce_rename_def)
    have "rename_ok K files" using assms(1) by (simp add: sce_kernel_ok_def)
    then have "if rc < 0 then files k1 = files ?k
        else (\<exists>c. files ?k cf = Some c \<and> files k1 = (files ?k)(cf := None, ct \<mapsto> c))"
      using rn unfolding rename_ok_def by blast
    then show ?thesis
      using sce_remove_kernel [OF assms(1), of ct k] k' cstr_InrD [OF f] cstr_InrD [OF t] by (auto split: if_splits)
  qed (use assms f in \<open>auto simp: sce_rename_def\<close>)
qed (use assms in \<open>auto simp: sce_rename_def\<close>)

text \<open>Renaming removes the target first, so a file renamed to itself is lost.\<close>

lemma sce_rename_self:
  assumes "sce_kernel_ok K files handle listing" and "removable K files" and "cstr (norm p) = Inr cp"
    and "sce_rename K p p k = (k', r)"
  shows "r = Inl Unspecified \<and> files k' (norm p) = None"
proof -
  let ?k = "fst (sceIoRemove K cp k)"
  obtain k1 rc where rn: "sceIoRename K cp cp ?k = (k1, rc)" by (cases "sceIoRename K cp cp ?k")
  with assms(3,4) have k': "k' = k1" "r = (if rc < 0 then Inl Unspecified else Inr ())" by (auto simp: sce_rename_def)
  have "rename_ok K files" using assms(1) by (simp add: sce_kernel_ok_def)
  then have "if rc < 0 then files k1 = files ?k else (\<exists>c. files ?k cp = Some c \<and> files k1 = (files ?k)(cp := None, cp \<mapsto> c))"
    using rn unfolding rename_ok_def by blast
  moreover have "files ?k cp = None" using assms(2) by (simp add: removable_def)
  ultimately show ?thesis using k' cstr_InrD [OF assms(3)] by (auto split: if_splits)
qed

lemma sce_mkdirs_ok:
  assumes "sce_kernel_ok K files handle listing"
  shows "sce_mkdirs K ps k = (k', r) \<Longrightarrow> files k' = files k"
proof (induction ps arbitrary: k)
  case (Cons p ps)
  have "files (fst (sceIoMkdir K q k)) = files k" for q using assms by (simp add: sce_kernel_ok_def)
  with Cons show ?case by (cases "cstr p") auto
qed simp

lemma sce_read_dir_ok:
  assumes "sce_kernel_ok K files handle listing" and "sce_read_dir K n p k = (k', r)"
  shows "files k' = files k \<and> (\<forall>es. r = Inr es \<longrightarrow>
    (\<exists>ds. lists_files (files k) (norm p) ds \<and>
       es = real_entries ds))"
proof (cases "cstr (norm p)")
  case (Inr cp)
  obtain k1 fd where op: "sceIoDopen K cp k = (k1, fd)" by (cases "sceIoDopen K cp k")
  have "dir_ok K files listing" using assms(1) by (simp add: sce_kernel_ok_def)
  then have o: "files k1 = files k \<and> (0 \<le> fd \<longrightarrow> (\<exists>ds. listing k1 fd = Some ds \<and> lists_files (files k) cp ds))"
    using op unfolding dir_ok_def by blast
  show ?thesis
  proof (cases "fd < 0")
    case False
    with o obtain ds where ds: "listing k1 fd = Some ds" "lists_files (files k) cp ds" by auto
    have "sce_dread_loop K n fd [] k1 = (k', r)" using assms(2) Inr op False by (simp add: sce_read_dir_def)
    from sce_dread_loop_ok [OF assms(1) ds(1) this] ds(2) o cstr_InrD [OF Inr] show ?thesis by auto
  qed (use assms(2) Inr op o in \<open>auto simp: sce_read_dir_def\<close>)
qed (use assms in \<open>auto simp: sce_read_dir_def\<close>)

theorem sce_fs_file_store:
  assumes K: "sce_kernel_ok K files handle listing" and "removable K files"
  shows "file_store (sce_fs K n) files"
proof
  show "\<exists>e\<in>set es. ent_name e = nm \<and> \<not> ent_is_dir e"
    if "fs_read_dir (sce_fs K n) p w = (w', Inr es)" "entry_name_ok nm" "files w (child (norm p) nm) = Some c"
    for p w w' es nm c
  proof -
    from that(1) sce_read_dir_ok [OF K, of "n w" p w w' "Inr es"] obtain ds where
      ds: "lists_files (files w) (norm p) ds" "es = real_entries ds"
      by (auto simp: sce_fs_def)
    with that obtain d where d: "d \<in> set ds" "d_name d = nm" "\<not> dirent_is_dir d" "utf8_valid (str_bytes (d_name d))"
      unfolding lists_files_def by blast
    with that(2) have "dirent_entry d \<in> set es" using ds(2) by (auto simp: real_entries_def dirent_entry_simps entry_name_ok_def)
    with d show ?thesis using dirent_entry_simps by blast
  qed
  show "\<exists>c. files w (child (norm p) (ent_name e)) = Some c \<and> ent_size e = length c"
    if "fs_read_dir (sce_fs K n) p w = (w', Inr es)" "e \<in> set es" "\<not> ent_is_dir e" for p w w' es e
  proof -
    from that(1) sce_read_dir_ok [OF K, of "n w" p w w' "Inr es"] obtain ds where
      ds: "lists_files (files w) (norm p) ds" "es = real_entries ds"
      by (auto simp: sce_fs_def)
    with that(2) obtain d where d: "d \<in> set ds" "e = dirent_entry d" by (auto simp: real_entries_def)
    with ds(1) have v: "utf8_valid (str_bytes (d_name d))" unfolding lists_files_def by blast
    with d that(3) have "\<not> dirent_is_dir d" by (simp add: dirent_entry_simps)
    with d(1) ds(1) obtain c where "files w (child (norm p) (d_name d)) = Some c" "d_size d = int (length c)"
      unfolding lists_files_def by blast
    with v d(2) \<open>\<not> dirent_is_dir d\<close> show ?thesis by (simp add: dirent_entry_simps)
  qed
qed (auto simp: sce_fs_def sce_create_dir_all_def dest: sce_read_ok [OF K] sce_write_ok [OF assms] sce_append_ok [OF K]
    sce_remove_file_ok [OF K] sce_rename_ok [OF K] sce_mkdirs_ok [OF K] sce_read_dir_ok [OF K])


section \<open>A kernel in memory\<close>

text \<open>Files as an association list; a descriptor is its place in the list of those given out.\<close>

record mem_state =
  mem_files :: "(string \<times> bytes) list"
  mem_fds :: "(string \<times> nat) list"
  mem_dirs :: "dirent list list"

definition mem_dirent :: "string \<Rightarrow> string \<times> bytes \<Rightarrow> dirent option" where
  "mem_dirent p f =
     (case strip_prefix (child p []) (fst f) of
        Some n \<Rightarrow>
          if entry_name_ok n then Some \<lparr>d_attr = 0, d_size = int (length (snd f)), d_name = n\<rparr> else None
      | None \<Rightarrow> None)"

definition mem_handle :: "mem_state \<Rightarrow> int \<Rightarrow> (string \<times> nat) option" where
  "mem_handle k fd = (if 0 \<le> fd \<and> nat fd < length (mem_fds k) then Some (mem_fds k ! nat fd) else None)"

definition mem_listing :: "mem_state \<Rightarrow> int \<Rightarrow> dirent list option" where
  "mem_listing k fd = (if 0 \<le> fd \<and> nat fd < length (mem_dirs k) then Some (mem_dirs k ! nat fd) else None)"

definition mem_open :: "string \<Rightarrow> int \<Rightarrow> mem_state \<Rightarrow> mem_state \<times> int" where
  "mem_open p fl k =
     (let k' = k\<lparr>mem_fds := mem_fds k @ [(p, 0)]\<rparr>; fd = int (length (mem_fds k))
      in case map_of (mem_files k) p of
           Some _ \<Rightarrow> (k', fd)
         | None \<Rightarrow>
             if fl = SCE_O_RDONLY then (k, SCE_ERRNO_ENOENT)
             else (k'\<lparr>mem_files := AList.update p [] (mem_files k)\<rparr>, fd))"

definition mem_read :: "int \<Rightarrow> nat \<Rightarrow> mem_state \<Rightarrow> mem_state \<times> int \<times> bytes" where
  "mem_read fd n k =
     (case mem_handle k fd of
        None \<Rightarrow> (k, -1, [])
      | Some (p, i) \<Rightarrow>
          (case map_of (mem_files k) p of
             None \<Rightarrow> (k, -1, [])
           | Some c \<Rightarrow>
               let buf = take n (drop i c)
               in (k\<lparr>mem_fds := (mem_fds k)[nat fd := (p, i + length buf)]\<rparr>, int (length buf), buf)))"

definition mem_write :: "int \<Rightarrow> bytes \<Rightarrow> mem_state \<Rightarrow> mem_state \<times> int" where
  "mem_write fd d k =
     (case mem_handle k fd of
        None \<Rightarrow> (k, -1)
      | Some (p, i) \<Rightarrow>
          (case map_of (mem_files k) p of
             None \<Rightarrow> (k, -1)
           | Some c \<Rightarrow>
               (k\<lparr>mem_files := AList.update p (c @ take 4096 d) (mem_files k)\<rparr>, int (min 4096 (length d)))))"

definition mem_remove :: "string \<Rightarrow> mem_state \<Rightarrow> mem_state \<times> int" where
  "mem_remove p k =
     (if map_of (mem_files k) p = None then (k, SCE_ERRNO_ENOENT)
      else (k\<lparr>mem_files := AList.delete p (mem_files k)\<rparr>, 0))"

definition mem_rename :: "string \<Rightarrow> string \<Rightarrow> mem_state \<Rightarrow> mem_state \<times> int" where
  "mem_rename f t k =
     (case map_of (mem_files k) f of
        None \<Rightarrow> (k, SCE_ERRNO_ENOENT)
      | Some c \<Rightarrow> (k\<lparr>mem_files := AList.update t c (AList.delete f (mem_files k))\<rparr>, 0))"

definition mem_dopen :: "string \<Rightarrow> mem_state \<Rightarrow> mem_state \<times> int" where
  "mem_dopen p k =
     (k\<lparr>mem_dirs := mem_dirs k @ [List.map_filter (mem_dirent p) (AList.clearjunk (mem_files k))]\<rparr>,
      int (length (mem_dirs k)))"

definition mem_dread :: "int \<Rightarrow> mem_state \<Rightarrow> mem_state \<times> int \<times> dirent" where
  "mem_dread fd k =
     (let none = \<lparr>d_attr = 0, d_size = 0, d_name = []\<rparr>
      in case mem_listing k fd of
           None \<Rightarrow> (k, -1, none)
         | Some [] \<Rightarrow> (k, 0, none)
         | Some (d # ds) \<Rightarrow> (k\<lparr>mem_dirs := (mem_dirs k)[nat fd := ds]\<rparr>, 1, d))"

definition mem_io :: "mem_state sce_io" where
  "mem_io =
     \<lparr>sceIoOpen = mem_open, sceIoRead = mem_read, sceIoWrite = mem_write, sceIoClose = (\<lambda>_ k. k),
      sceIoMkdir = (\<lambda>_ k. (k, 0)), sceIoRemove = mem_remove, sceIoRename = mem_rename,
      sceIoSyncByFd = (\<lambda>_ k. k), sceIoDopen = mem_dopen, sceIoDread = mem_dread, sceIoDclose = (\<lambda>_ k. k)\<rparr>"

definition mem_view :: "mem_state \<Rightarrow> string \<rightharpoonup> bytes" where
  "mem_view k = map_of (mem_files k)"

lemma mem_lists: "lists_files (map_of fs) p (List.map_filter (mem_dirent p) (AList.clearjunk fs))"
proof -
  have child: "child p n = child p [] @ n" for n by (simp add: child_def)
  have "\<exists>d\<in>set (List.map_filter (mem_dirent p) (AList.clearjunk fs)). d_name d = n \<and> \<not> dirent_is_dir d"
    if "entry_name_ok n" "map_of fs (child p n) = Some c" for n c
  proof -
    from that have "mem_dirent p (child p n, c) = Some \<lparr>d_attr = 0, d_size = int (length c), d_name = n\<rparr>"
      by (simp add: mem_dirent_def child [of n] strip_prefix_def)
    moreover from that have "(child p n, c) \<in> set (AList.clearjunk fs)"
      by (metis map_of_SomeD map_of_clearjunk)
    ultimately have "\<lparr>d_attr = 0, d_size = int (length c), d_name = n\<rparr> \<in> set (List.map_filter (mem_dirent p) (AList.clearjunk fs))"
      by (force simp: List.map_filter_def)
    then show ?thesis by (force simp: dirent_is_dir_def SCE_SO_IFDIR_def)
  qed
  moreover have "utf8_valid (str_bytes (d_name d)) \<and> (\<exists>c. map_of fs (child p (d_name d)) = Some c \<and> d_size d = int (length c))"
    if d: "d \<in> set (List.map_filter (mem_dirent p) (AList.clearjunk fs))" for d
  proof -
    from d obtain q c where q: "(q, c) \<in> set (AList.clearjunk fs)" "mem_dirent p (q, c) = Some d"
      by (force simp: List.map_filter_def)
    then have "map_of fs q = Some c"
      by (metis distinct_clearjunk map_of_clearjunk map_of_is_SomeI)
    moreover from q(2) have "q = child p (d_name d)" "entry_name_ok (d_name d)" "d_size d = int (length c)"
      by (auto simp: mem_dirent_def strip_prefix_Some child [of "d_name d"] split: option.splits if_splits)
    ultimately show ?thesis by (simp add: entry_name_ok_def)
  qed
  ultimately show ?thesis unfolding lists_files_def by blast
qed

lemma mem_open_ok: "open_ok mem_io mem_view mem_handle"
  unfolding open_ok_def
proof (intro allI impI)
  fix p fl k k' fd
  assume "sceIoOpen mem_io p fl k = (k', fd)"
  then have op: "mem_open p fl k = (k', fd)" by (simp add: mem_io_def)
  show "if fd < 0 then mem_view k' = mem_view k
    else mem_handle k' fd = Some (p, 0) \<and>
      (if fl = SCE_O_RDONLY then mem_view k' = mem_view k \<and> mem_view k p \<noteq> None
       else mem_view k' = (case mem_view k p of None \<Rightarrow> (mem_view k)(p \<mapsto> []) | Some _ \<Rightarrow> mem_view k))"
  proof (cases "map_of (mem_files k) p")
    case None
    with op show ?thesis
      by (cases "fl = SCE_O_RDONLY")
        (auto simp: mem_open_def Let_def mem_view_def mem_handle_def SCE_ERRNO_ENOENT_def update_conv')
  next
    case (Some c)
    with op show ?thesis by (auto simp: mem_open_def Let_def mem_view_def mem_handle_def)
  qed
qed

lemma mem_read_ok: "read_ok mem_io mem_view mem_handle"
  unfolding read_ok_def
proof (intro allI impI)
  fix fd n k k' r buf p i c
  assume "sceIoRead mem_io fd n k = (k', r, buf)" and h: "mem_handle k fd = Some (p, i)" and "mem_view k p = Some c"
    and n: "0 < n"
  then have k': "k' = k\<lparr>mem_fds := (mem_fds k)[nat fd := (p, i + length buf)]\<rparr>" and buf: "buf = take n (drop i c)"
    and r: "r = int (length buf)"
    by (auto simp: mem_io_def mem_read_def mem_view_def Let_def)
  from h have "0 \<le> fd" "nat fd < length (mem_fds k)" by (auto simp: mem_handle_def split: if_splits)
  then have h': "mem_handle k' fd = Some (p, i + nat r)" by (simp add: k' r mem_handle_def)
  have f: "mem_view k' = mem_view k" by (simp add: k' mem_view_def)
  show "mem_view k' = mem_view k \<and>
    (0 \<le> r \<longrightarrow> nat r \<le> n \<and> nat r \<le> length c - i \<and> take (nat r) buf = take (nat r) (drop i c) \<and>
      (r = 0 \<longrightarrow> length c \<le> i) \<and> mem_handle k' fd = Some (p, i + nat r))"
    using n h' f by (auto simp: r buf)
qed

lemma mem_write_ok: "write_ok mem_io mem_view mem_handle"
  unfolding write_ok_def
proof (intro allI impI)
  fix fd d k k' r p i c
  assume "sceIoWrite mem_io fd d k = (k', r)" and h: "mem_handle k fd = Some (p, i)" and c: "mem_view k p = Some c"
  then have k': "k' = k\<lparr>mem_files := AList.update p (c @ take 4096 d) (mem_files k)\<rparr>" and r: "r = int (min 4096 (length d))"
    by (simp_all add: mem_io_def mem_write_def mem_view_def)
  have h': "mem_handle k' fd = Some (p, i)" using h by (simp add: k' mem_handle_def split: if_splits)
  have f: "mem_view k' = (mem_view k)(p \<mapsto> c @ take (nat r) d)"
    by (simp add: k' r mem_view_def update_conv' min_def)
  show "if r \<le> 0 then mem_view k' = mem_view k
    else nat r \<le> length d \<and> mem_handle k' fd = Some (p, i) \<and> mem_view k' = (mem_view k)(p \<mapsto> c @ take (nat r) d)"
    using h' f c by (simp add: r fun_upd_idem)
qed

lemma mem_dir_ok: "dir_ok mem_io mem_view mem_listing"
proof -
  have "mem_view k' = mem_view k \<and>
      (0 \<le> fd \<longrightarrow> (\<exists>ds. mem_listing k' fd = Some ds \<and> lists_files (mem_view k) p ds))"
    if "mem_dopen p k = (k', fd)" for p k k' fd
    using that mem_lists [of "mem_files k" p]
    by (auto simp: mem_dopen_def mem_view_def mem_listing_def)
  moreover have "mem_view k' = mem_view k \<and>
      (0 \<le> r \<longrightarrow> (case ds of [] \<Rightarrow> r = 0 | d' # ds' \<Rightarrow> 0 < r \<and> d = d' \<and> mem_listing k' fd = Some ds'))"
    if rd: "mem_dread fd k = (k', r, d)" and l: "mem_listing k fd = Some ds" for fd k k' r d ds
  proof (cases ds)
    case Nil
    with rd l show ?thesis by (auto simp: mem_dread_def Let_def)
  next
    case (Cons d' ds')
    from l have "0 \<le> fd" "nat fd < length (mem_dirs k)" by (auto simp: mem_listing_def split: if_splits)
    moreover from rd l Cons have "k' = k\<lparr>mem_dirs := (mem_dirs k)[nat fd := ds']\<rparr>" "r = 1" "d = d'"
      by (simp_all add: mem_dread_def Let_def)
    ultimately show ?thesis using Cons by (simp add: mem_view_def mem_listing_def)
  qed
  ultimately show ?thesis by (simp add: dir_ok_def mem_io_def)
qed

lemma mem_remove_ok: "remove_ok mem_io mem_view"
  by (auto simp: remove_ok_def mem_io_def mem_remove_def mem_view_def delete_conv' SCE_ERRNO_ENOENT_def)

lemma mem_rename_ok: "rename_ok mem_io mem_view"
  by (auto simp: rename_ok_def mem_io_def mem_rename_def mem_view_def delete_conv' update_conv' SCE_ERRNO_ENOENT_def
      split: option.splits)

lemma mem_kernel_ok: "sce_kernel_ok mem_io mem_view mem_handle mem_listing"
  using mem_open_ok mem_read_ok mem_write_ok mem_dir_ok mem_remove_ok mem_rename_ok
  by (simp add: sce_kernel_ok_def mem_io_def)

lemma mem_removable: "removable mem_io mem_view"
  by (simp add: removable_def mem_io_def mem_remove_def mem_view_def delete_conv')

definition mem_fuel :: "mem_state \<Rightarrow> nat" where
  "mem_fuel k = Suc (length (mem_files k) + sum_list (map (length \<circ> snd) (mem_files k)))"

interpretation sce: file_store "sce_fs mem_io mem_fuel" mem_view
  by (rule sce_fs_file_store [OF mem_kernel_ok mem_removable])

text \<open>With that bound a listing in memory is complete.\<close>

lemma mem_dread_done:
  "mem_listing k fd = Some ds \<Longrightarrow> length ds < n \<Longrightarrow> \<exists>k' es. sce_dread_loop mem_io n fd out k = (k', Inr es)"
proof (induction n arbitrary: ds out k)
  case (Suc n)
  show ?case
  proof (cases ds)
    case Nil
    with Suc.prems show ?thesis by (simp add: mem_io_def mem_dread_def Let_def)
  next
    case (Cons d ds')
    let ?k = "k\<lparr>mem_dirs := (mem_dirs k)[nat fd := ds']\<rparr>"
    from Suc.prems have "0 \<le> fd" "nat fd < length (mem_dirs k)" by (auto simp: mem_listing_def split: if_splits)
    then have "mem_listing ?k fd = Some ds'" by (simp add: mem_listing_def)
    moreover have "sceIoDread mem_io fd k = (?k, 1, d)"
      using Suc.prems Cons by (simp add: mem_io_def mem_dread_def Let_def)
    ultimately show ?thesis using Suc.IH [of ?k ds'] Suc.prems Cons by auto
  qed
qed simp

lemma length_map_filter: "length (List.map_filter f xs) \<le> length xs"
  by (simp add: List.map_filter_def)

lemma mem_read_dir_done:
  assumes "cstr (norm d) = Inr cp"
  shows "\<exists>k' es. fs_read_dir (sce_fs mem_io mem_fuel) d k = (k', Inr es)"
proof -
  let ?ds = "List.map_filter (mem_dirent cp) (AList.clearjunk (mem_files k))"
  let ?k = "k\<lparr>mem_dirs := mem_dirs k @ [?ds]\<rparr>" and ?fd = "int (length (mem_dirs k))"
  have "mem_listing ?k ?fd = Some ?ds" by (simp add: mem_listing_def)
  moreover have "length ?ds < mem_fuel k"
    using length_map_filter [of "mem_dirent cp" "AList.clearjunk (mem_files k)"] length_clearjunk [of "mem_files k"]
    by (simp add: mem_fuel_def)
  ultimately show ?thesis
    using assms mem_dread_done [of ?k ?fd ?ds "mem_fuel k" "[]"]
    by (simp add: sce_fs_def sce_read_dir_def mem_io_def mem_dopen_def)
qed

end
