(* ===== verification/Serve.thy ===== *)
theory Serve
  imports Main
begin

text \<open>
  The part the two services on the tailnet share, \<open>accept_loop\<close> and \<open>reap\<close> of
  \<open>crates/ts-ftp/src/lib.rs\<close> and \<open>crates/ts-peerapi/src/lib.rs\<close>: a list of live connections,
  from which the finished ones are removed before each new one is admitted or refused.
\<close>

text \<open>
  A live session is its completion flag, read by the reaper; removing one moves the last into
  its place.
\<close>

definition swap_remove :: "nat \<Rightarrow> 'a list \<Rightarrow> 'a list" where
  "swap_remove i xs = butlast (xs[i := last xs])"

function reap_from :: "nat \<Rightarrow> ('a \<Rightarrow> bool) \<Rightarrow> 'a list \<Rightarrow> 'a list" where
  "reap_from i is_done live =
     (if i < length live then
        (if is_done (live ! i) then reap_from i is_done (swap_remove i live) else reap_from (Suc i) is_done live)
      else live)"
  by auto
termination
  by (relation "measure (\<lambda>(i, d, live). length live - i)") (auto simp: swap_remove_def)

declare reap_from.simps [simp del]

definition reap :: "('a \<Rightarrow> bool) \<Rightarrow> 'a list \<Rightarrow> 'a list" where
  "reap is_done live = reap_from 0 is_done live"

text \<open>What a round of the accept loop does with a connection.\<close>

datatype admit = Rejected | Started | SpawnFailed

definition accept_bounded :: "nat \<Rightarrow> ('a \<Rightarrow> bool) \<Rightarrow> 'a \<Rightarrow> bool \<Rightarrow> 'a list \<Rightarrow> 'a list \<times> admit" where
  "accept_bounded cap is_done new spawned live =
     (let live = reap is_done live
      in if cap \<le> length live then (live, Rejected)
         else if spawned then (live @ [new], Started)
         else (live, SpawnFailed))"

section \<open>Reaping\<close>

lemma length_swap_remove: "i < length xs \<Longrightarrow> length (swap_remove i xs) = length xs - 1"
  by (simp add: swap_remove_def)

lemma reap_from_le: "length (reap_from i d xs) \<le> length xs"
proof (induction i d xs rule: reap_from.induct)
  case (1 i d xs)
  then show ?case
    by (subst reap_from.simps) (cases "i < length xs"; cases "d (xs ! i)"; force simp: length_swap_remove)
qed

lemma accept_bounded_le:
  "length live \<le> cap \<Longrightarrow> length (fst (accept_bounded cap d new ok live)) \<le> cap"
  using reap_from_le [of 0 d live] by (auto simp: accept_bounded_def reap_def Let_def)

lemma set_swap_remove_take: "i < length xs \<Longrightarrow> take i (swap_remove i xs) = take i xs"
  by (simp add: swap_remove_def take_butlast take_update_cancel)

lemma reap_from_none_done:
  "\<forall>j<i. j < length xs \<longrightarrow> \<not> d (xs ! j) \<Longrightarrow> list_all (\<lambda>x. \<not> d x) (reap_from i d xs)"
proof (induction i d xs rule: reap_from.induct)
  case (1 i d xs)
  show ?case
  proof (cases "i < length xs")
    case False
    with 1(3) show ?thesis by (subst reap_from.simps) (auto simp: list_all_length)
  next
    case i: True
    show ?thesis
    proof (cases "d (xs ! i)")
      case True
      have "\<not> d (swap_remove i xs ! j)" if "j < i" for j
        using 1(3) i that nth_take [OF that, of xs] nth_take [OF that, of "swap_remove i xs"] set_swap_remove_take [OF i]
        by (metis dual_order.strict_trans)
      with 1(1) i True show ?thesis by (subst reap_from.simps) simp
    next
      case False
      with 1(2,3) i show ?thesis by (subst reap_from.simps) (auto simp: less_Suc_eq)
    qed
  qed
qed

end
