(* ===== verification/Ftp.thy ===== *)
theory Ftp
  imports Vita_Fs Net_Addr Serve
begin

unbundle bit_operations_syntax

text \<open>
  The FTP service, \<open>crates/ts-ftp\<close>: the path jail of \<open>vfs.rs\<close>, command parsing, replies,
  listings, passive ports, and the session of \<open>session.rs\<close> with every command. Files are
  the operations of \<open>vita-fs\<close>; the control connection and the data connections come from an
  environment record. The session logs the file operations it asks for.
\<close>

section \<open>The jail\<close>

record vfs =
  vfs_root :: string
  allow_device_paths :: bool

definition vfs_new :: "string \<Rightarrow> bool \<Rightarrow> vfs" where
  "vfs_new root allow = \<lparr>vfs_root = trim_end_char (CHR ''/'') root, allow_device_paths = allow\<rparr>"

text \<open>The segments on the stack are kept last first.\<close>

fun resolve_segs :: "string list \<Rightarrow> string list \<Rightarrow> string list option" where
  "resolve_segs segs [] = Some segs"
| "resolve_segs segs (seg # rest) =
     (if seg = '''' \<or> seg = ''.'' then resolve_segs segs rest
      else if seg = ''..'' then (case segs of [] \<Rightarrow> None | _ # below \<Rightarrow> resolve_segs below rest)
      else resolve_segs (seg # segs) rest)"

definition resolve :: "string \<Rightarrow> string \<Rightarrow> string option" where
  "resolve cwd arg =
     (let base = (if starts_with ''/'' arg then ''/'' else cwd)
      in case resolve_segs [] (split_on (CHR ''/'') base @ split_on (CHR ''/'') arg) of
           None \<Rightarrow> None
         | Some segs \<Rightarrow> Some (if segs = [] then ''/'' else ''/'' @ join_with (CHR ''/'') (rev segs)))"

definition is_device :: "string \<Rightarrow> bool" where
  "is_device seg \<longleftrightarrow>
     2 \<le> length seg \<and> ends_with '':'' seg \<and> CHR '':'' \<notin> set (take (length seg - 1) seg)"

definition to_real :: "vfs \<Rightarrow> string \<Rightarrow> string" where
  "to_real v vpath =
     (let plain = (if vpath = ''/'' then vfs_root v else vfs_root v @ vpath)
      in case strip_prefix ''/'' vpath of
           Some rest \<Rightarrow>
             if allow_device_paths v \<and> is_device (split_on (CHR ''/'') rest ! 0) then rest else plain
         | None \<Rightarrow> plain)"

definition split_parent :: "string \<Rightarrow> string \<times> string" where
  "split_parent vpath =
     (case str_rfind (CHR ''/'') vpath of
        Some i \<Rightarrow> if i = 0 then (''/'', drop 1 vpath) else (take i vpath, drop (Suc i) vpath)
      | None \<Rightarrow> (''/'', vpath))"

section \<open>Commands\<close>

datatype command =
  User string | Pass string | Syst | Feat | TypeCmd string | Pwd | Cwd string | Cdup | Pasv
  | Epsv "string option" | ListCmd "string option" | Nlst "string option" | Retr string | Stor string
  | SizeCmd string | Dele string | Mkd string | Rmd string | Rnfr string | Rnto string | Quit | Noop
  | Unknown string

definition opt_arg :: "string \<Rightarrow> string option" where
  "opt_arg a = (if a = [] then None else Some a)"

definition parse_command :: "string \<Rightarrow> command" where
  "parse_command raw =
     (let line = trim raw;
          (verb, arg) = (case split_once (CHR '' '') line of Some (v, a) \<Rightarrow> (v, trim a) | None \<Rightarrow> (line, []));
          up = to_ascii_uppercase verb
      in if up = ''USER'' then User arg
         else if up = ''PASS'' then Pass arg
         else if up = ''SYST'' then Syst
         else if up = ''FEAT'' then Feat
         else if up = ''TYPE'' then TypeCmd arg
         else if up = ''PWD'' \<or> up = ''XPWD'' then Pwd
         else if up = ''CWD'' then Cwd arg
         else if up = ''CDUP'' then Cdup
         else if up = ''PASV'' then Pasv
         else if up = ''EPSV'' then Epsv (opt_arg arg)
         else if up = ''LIST'' then ListCmd (opt_arg arg)
         else if up = ''NLST'' then Nlst (opt_arg arg)
         else if up = ''RETR'' then Retr arg
         else if up = ''STOR'' then Stor arg
         else if up = ''SIZE'' then SizeCmd arg
         else if up = ''DELE'' then Dele arg
         else if up = ''MKD'' \<or> up = ''XMKD'' then Mkd arg
         else if up = ''RMD'' \<or> up = ''XRMD'' then Rmd arg
         else if up = ''RNFR'' then Rnfr arg
         else if up = ''RNTO'' then Rnto arg
         else if up = ''QUIT'' then Quit
         else if up = ''NOOP'' then Noop
         else Unknown line)"

section \<open>Replies and listings\<close>

definition crlf :: string where
  "crlf = [CHR 0x0D, CHR 0x0A]"

definition reply_line :: "nat \<Rightarrow> string \<Rightarrow> string" where
  "reply_line code txt = show_nat code @ '' '' @ txt @ crlf"

definition reply_multiline_text :: "nat \<Rightarrow> string \<Rightarrow> string list \<Rightarrow> string \<Rightarrow> string" where
  "reply_multiline_text code head ls tail =
     show_nat code @ ''-'' @ head @ crlf @ concat (map (\<lambda>l. '' '' @ l @ crlf) ls) @ show_nat code @ '' '' @ tail @ crlf"

definition dir_reply :: "string \<Rightarrow> string" where
  "dir_reply d =
     [CHR 0x22] @ concat (map (\<lambda>c. if c = CHR 0x22 then [CHR 0x22, CHR 0x22] else [c]) d) @ [CHR 0x22]"

definition list_line :: "dir_entry \<Rightarrow> string" where
  "list_line e =
     (if ent_is_dir e then ''drwxr-xr-x'' else ''-rw-r--r--'') @ '' 1 vita vita '' @
     pad_left (CHR '' '') 12 (show_nat (ent_size e)) @ '' Jan  1 00:00 '' @ ent_name e @ crlf"

definition format_list :: "dir_entry list \<Rightarrow> string" where
  "format_list es = concat (map list_line es)"

definition format_nlst :: "dir_entry list \<Rightarrow> string" where
  "format_nlst es = concat (map (\<lambda>e. ent_name e @ crlf) es)"

definition format_227 :: "ipv4 \<Rightarrow> u16 \<Rightarrow> string" where
  "format_227 ip port =
     ''Entering Passive Mode ('' @
     join_with (CHR '','') (map (\<lambda>b. show_nat (unat b)) (ipv4_octets ip) @
       [show_nat (unat (drop_bit 8 port)), show_nat (unat (port AND 0xff))]) @ '').''"

definition format_229 :: "u16 \<Rightarrow> string" where
  "format_229 port = ''Entering Extended Passive Mode (|||'' @ show_nat (unat port) @ ''|)''"

section \<open>Configuration and session\<close>

record ftp_config =
  cfg_enabled :: bool
  cfg_port :: u16
  cfg_root :: string
  cfg_username :: string
  cfg_password :: string
  cfg_allow_device_paths :: bool
  cfg_read_only :: bool
  passive_port_lo :: u16
  passive_port_hi :: u16
  cfg_max_transfer_bytes :: nat

definition ftp_config_default :: ftp_config where
  "ftp_config_default =
     \<lparr>cfg_enabled = False, cfg_port = 21, cfg_root = ''ux0:'', cfg_username = ''vita'', cfg_password = [],
      cfg_allow_device_paths = False, cfg_read_only = False, passive_port_lo = 30000, passive_port_hi = 30009,
      cfg_max_transfer_bytes = 32 * 1024 * 1024\<rparr>"

text \<open>A data connection: who opened it, what its reads give, whether writing to it works.\<close>

record data_conn =
  data_peer_ip :: ip_addr
  data_reads :: "(io_error + bytes) list"
  data_write_ok :: bool

text \<open>
  What the session meets: the file operations, and the outcome of each write to the control
  connection, each attempt to bind a port and each wait for a data connection, by number.
\<close>

record 'w ftp_env =
  env_fs :: "'w fs_ops"
  ctrl_write :: "nat \<Rightarrow> io_error + unit"
  bind_handle :: "nat \<Rightarrow> u16 \<Rightarrow> io_error + unit"
  accept_timeout :: "nat \<Rightarrow> io_error + data_conn"

datatype fs_call =
  CallRead string | CallWrite string | CallAppend string nat | CallMkdir string | CallRemove string
  | CallRename string string | CallReadDir string

record 'w session =
  s_vfs :: vfs
  s_cwd :: string
  s_authed :: bool
  s_pending_user :: "string option"
  s_control_peer_ip :: ip_addr
  s_pasv :: "u16 option"
  s_rename_from :: "string option"
  s_read_only :: bool
  s_max_transfer_bytes :: nat
  s_partial_seq :: u64
  s_next_pasv_port :: u16
  s_tailnet_ip :: "ipv4 option"
  s_world :: 'w
  s_replies :: "string list"
  s_sent :: "bytes list"
  s_binds :: nat
  s_accepts :: nat
  s_calls :: "fs_call list"

definition session_new :: "ftp_config \<Rightarrow> ip_addr \<Rightarrow> u64 \<Rightarrow> u16 \<Rightarrow> ipv4 option \<Rightarrow> 'w \<Rightarrow> 'w session" where
  "session_new cfg peer seq port ip w =
     \<lparr>s_vfs = vfs_new (cfg_root cfg) (cfg_allow_device_paths cfg), s_cwd = ''/'', s_authed = False,
      s_pending_user = None, s_control_peer_ip = peer, s_pasv = None, s_rename_from = None,
      s_read_only = cfg_read_only cfg, s_max_transfer_bytes = cfg_max_transfer_bytes cfg, s_partial_seq = seq,
      s_next_pasv_port = port, s_tailnet_ip = ip, s_world = w, s_replies = [], s_sent = [], s_binds = 0,
      s_accepts = 0, s_calls = []\<rparr>"

definition send_ctrl :: "'w ftp_env \<Rightarrow> string \<Rightarrow> 'w session \<Rightarrow> 'w session \<times> (io_error + unit)" where
  "send_ctrl env t s = (s\<lparr>s_replies := s_replies s @ [t]\<rparr>, ctrl_write env (length (s_replies s)))"

definition reply :: "'w ftp_env \<Rightarrow> nat \<Rightarrow> string \<Rightarrow> 'w session \<Rightarrow> 'w session \<times> (io_error + unit)" where
  "reply env code txt s = send_ctrl env (reply_line code txt) s"

definition reply_multiline ::
  "'w ftp_env \<Rightarrow> nat \<Rightarrow> string \<Rightarrow> string list \<Rightarrow> string \<Rightarrow> 'w session \<Rightarrow> 'w session \<times> (io_error + unit)" where
  "reply_multiline env code head ls tail s = send_ctrl env (reply_multiline_text code head ls tail) s"

text \<open>A file operation on the session's world, logged.\<close>

definition with_fs :: "fs_call \<Rightarrow> ('w \<Rightarrow> 'w \<times> 'r) \<Rightarrow> 'w session \<Rightarrow> 'w session \<times> 'r" where
  "with_fs c f s = (case f (s_world s) of (w, r) \<Rightarrow> (s\<lparr>s_world := w, s_calls := s_calls s @ [c]\<rparr>, r))"

definition credentials_match :: "string \<Rightarrow> string \<Rightarrow> string \<Rightarrow> string \<Rightarrow> bool" where
  "credentials_match eu ep u p \<longleftrightarrow> eu = u \<and> ep = p"

section \<open>Passive ports\<close>

definition clamp :: "u16 \<Rightarrow> u16 \<Rightarrow> u16 \<Rightarrow> u16" where
  "clamp lo hi x = (if x < lo then lo else if hi < x then hi else x)"

definition passive_span :: "u16 \<Rightarrow> u16 \<Rightarrow> nat" where
  "passive_span lo hi = max (min (unat hi - unat lo + 1) 65535) 1"

text \<open>\<open>clamp\<close> panics when the range is empty, before the first port is tried.\<close>

fun bind_ports :: "'w ftp_env \<Rightarrow> u16 \<Rightarrow> u16 \<Rightarrow> nat \<Rightarrow> io_error \<Rightarrow> 'w session \<Rightarrow> 'w session \<times> (io_error + u16)" where
  "bind_ports env lo hi 0 err s = (s, Inl err)"
| "bind_ports env lo hi (Suc n) err s =
     (if hi < lo then (s, Inl Panicked)
      else
        let port = clamp lo hi (s_next_pasv_port s);
            s' = s\<lparr>s_next_pasv_port := (if hi \<le> port then lo else port + 1), s_binds := s_binds s + 1\<rparr>
        in case bind_handle env (s_binds s) port of
             Inr _ \<Rightarrow> (s', Inr port)
           | Inl e \<Rightarrow> bind_ports env lo hi n e s')"

definition bind_passive :: "'w ftp_env \<Rightarrow> u16 \<Rightarrow> u16 \<Rightarrow> 'w session \<Rightarrow> 'w session \<times> (io_error + u16)" where
  "bind_passive env lo hi s = bind_ports env lo hi (passive_span lo hi) Unspecified s"

definition open_passive ::
  "'w ftp_env \<Rightarrow> ftp_config \<Rightarrow> nat \<Rightarrow> (u16 \<Rightarrow> string) \<Rightarrow> 'w session \<Rightarrow> 'w session \<times> (io_error + unit)" where
  "open_passive env cfg code fmt s =
     (case bind_passive env (passive_port_lo cfg) (passive_port_hi cfg) (s\<lparr>s_pasv := None\<rparr>) of
        (s, Inr port) \<Rightarrow> reply env code (fmt port) (s\<lparr>s_pasv := Some port\<rparr>)
      | (s, Inl Panicked) \<Rightarrow> (s, Inl Panicked)
      | (s, Inl _) \<Rightarrow> reply env 425 ''can't open data port'' s)"

definition do_pasv :: "'w ftp_env \<Rightarrow> ftp_config \<Rightarrow> 'w session \<Rightarrow> 'w session \<times> (io_error + unit)" where
  "do_pasv env cfg s =
     (case s_tailnet_ip s of
        None \<Rightarrow> reply env 425 ''tailnet address not ready'' s
      | Some ip \<Rightarrow> open_passive env cfg 227 (format_227 ip) s)"

definition do_epsv :: "'w ftp_env \<Rightarrow> ftp_config \<Rightarrow> string option \<Rightarrow> 'w session \<Rightarrow> 'w session \<times> (io_error + unit)" where
  "do_epsv env cfg arg s =
     (if (case arg of Some a \<Rightarrow> eq_ignore_ascii_case a ''ALL'' | None \<Rightarrow> False)
      then reply env 200 ''EPSV ALL ok'' s
      else open_passive env cfg 229 format_229 s)"

section \<open>Transfers\<close>

definition pump_data :: "'w ftp_env \<Rightarrow> data_conn \<Rightarrow> bytes \<Rightarrow> 'w session \<Rightarrow> 'w session \<times> (io_error + unit)" where
  "pump_data env d bs s =
     (if data_write_ok d then reply env 226 ''transfer complete'' (s\<lparr>s_sent := s_sent s @ [bs]\<rparr>)
      else reply env 426 ''transfer failed'' s)"

text \<open>Take the pending listener, announce, and wait for the peer's data connection.\<close>

definition with_data ::
  "'w ftp_env \<Rightarrow> string \<Rightarrow> (data_conn \<Rightarrow> 'w session \<Rightarrow> 'w session \<times> (io_error + unit)) \<Rightarrow>
   'w session \<Rightarrow> 'w session \<times> (io_error + unit)" where
  "with_data env txt f s =
     (case s_pasv s of
        None \<Rightarrow> reply env 425 ''use PASV first'' s
      | Some _ \<Rightarrow>
          (case reply env 150 txt (s\<lparr>s_pasv := None\<rparr>) of
             (s, Inl e) \<Rightarrow> (s, Inl e)
           | (s, Inr _) \<Rightarrow>
               (case accept_timeout env (s_accepts s) of
                  Inl _ \<Rightarrow> reply env 425 ''data connection failed'' (s\<lparr>s_accepts := s_accepts s + 1\<rparr>)
                | Inr d \<Rightarrow>
                    if data_peer_ip d = s_control_peer_ip s then f d (s\<lparr>s_accepts := s_accepts s + 1\<rparr>)
                    else reply env 425 ''data peer mismatch'' (s\<lparr>s_accepts := s_accepts s + 1\<rparr>))))"

definition send_data :: "'w ftp_env \<Rightarrow> bytes \<Rightarrow> 'w session \<Rightarrow> 'w session \<times> (io_error + unit)" where
  "send_data env bs s = with_data env ''opening data connection'' (\<lambda>d. pump_data env d bs) s"

fun stream_chunks ::
  "'w fs_ops \<Rightarrow> string \<Rightarrow> nat \<Rightarrow> nat \<Rightarrow> (io_error + bytes) list \<Rightarrow> 'w session \<Rightarrow> 'w session \<times> (io_error + nat)" where
  "stream_chunks fs p mx got [] s = (s, Inr got)"
| "stream_chunks fs p mx got (Inl e # rs) s = (s, Inl e)"
| "stream_chunks fs p mx got (Inr chunk # rs) s =
     (if chunk = [] then (s, Inr got)
      else
        let got' = min (got + length chunk) (2 ^ 64 - 1)
        in if mx < got' then (s, Inl FileTooLarge)
           else (case with_fs (CallAppend p (length chunk)) (fs_append fs p chunk) s of
                   (s, Inl e) \<Rightarrow> (s, Inl e)
                 | (s, Inr _) \<Rightarrow> stream_chunks fs p mx got' rs s))"

definition stream_to_file :: "'w fs_ops \<Rightarrow> data_conn \<Rightarrow> string \<Rightarrow> nat \<Rightarrow> 'w session \<Rightarrow> 'w session \<times> (io_error + nat)" where
  "stream_to_file fs d p mx s =
     (case with_fs (CallWrite p) (fs_write fs p []) s of
        (s, Inl e) \<Rightarrow> (s, Inl e)
      | (s, Inr _) \<Rightarrow> stream_chunks fs p mx 0 (data_reads d) s)"

section \<open>The commands\<close>

text \<open>Resolve the argument or answer \<open>550\<close>.\<close>

definition with_path ::
  "'w ftp_env \<Rightarrow> string \<Rightarrow> (string \<Rightarrow> 'w session \<Rightarrow> 'w session \<times> (io_error + unit)) \<Rightarrow>
   'w session \<Rightarrow> 'w session \<times> (io_error + unit)" where
  "with_path env arg f s =
     (case resolve (s_cwd s) arg of
        None \<Rightarrow> reply env 550 ''invalid path'' s
      | Some vpath \<Rightarrow> f vpath s)"

definition real_read_dir :: "'w ftp_env \<Rightarrow> string \<Rightarrow> 'w session \<Rightarrow> 'w session \<times> (io_error + dir_entry list)" where
  "real_read_dir env vpath s =
     (let real = to_real (s_vfs s) vpath in with_fs (CallReadDir real) (fs_read_dir (env_fs env) real) s)"

definition do_cwd :: "'w ftp_env \<Rightarrow> string \<Rightarrow> 'w session \<Rightarrow> 'w session \<times> (io_error + unit)" where
  "do_cwd env arg s =
     with_path env arg (\<lambda>vpath s.
       (case real_read_dir env vpath s of
         (s, Inr _) \<Rightarrow> reply env 250 ''directory changed'' (s\<lparr>s_cwd := vpath\<rparr>)
       | (s, Inl _) \<Rightarrow> reply env 550 ''no such directory'' s)) s"

definition list_dir :: "'w ftp_env \<Rightarrow> bool \<Rightarrow> string \<Rightarrow> 'w session \<Rightarrow> 'w session \<times> (io_error + unit)" where
  "list_dir env names_only vpath s =
     (case real_read_dir env vpath s of
        (s, Inr es) \<Rightarrow> send_data env (str_bytes (if names_only then format_nlst es else format_list es)) s
      | (s, Inl _) \<Rightarrow> reply env 550 ''no such directory'' s)"

definition do_list :: "'w ftp_env \<Rightarrow> string option \<Rightarrow> bool \<Rightarrow> 'w session \<Rightarrow> 'w session \<times> (io_error + unit)" where
  "do_list env arg names_only s =
     (case arg of
        Some a \<Rightarrow>
          if a \<noteq> [] \<and> \<not> starts_with ''-'' a then with_path env a (list_dir env names_only) s
          else list_dir env names_only (s_cwd s) s
      | None \<Rightarrow> list_dir env names_only (s_cwd s) s)"

definition entry_find :: "string \<Rightarrow> dir_entry list \<Rightarrow> dir_entry option" where
  "entry_find name es = find (\<lambda>e. ent_name e = name \<and> \<not> ent_is_dir e) es"

definition file_size :: "'w ftp_env \<Rightarrow> string \<Rightarrow> 'w session \<Rightarrow> 'w session \<times> nat option" where
  "file_size env vpath s =
     (case real_read_dir env (fst (split_parent vpath)) s of
        (s, Inr es) \<Rightarrow> (s, map_option ent_size (entry_find (snd (split_parent vpath)) es))
      | (s, Inl _) \<Rightarrow> (s, None))"

definition do_retr :: "'w ftp_env \<Rightarrow> string \<Rightarrow> 'w session \<Rightarrow> 'w session \<times> (io_error + unit)" where
  "do_retr env arg s =
     with_path env arg (\<lambda>vpath s.
       (case file_size env vpath s of
         (s, None) \<Rightarrow> reply env 550 ''cannot stat file'' s
       | (s, Some len) \<Rightarrow>
           if s_max_transfer_bytes s < len then reply env 552 ''file exceeds transfer limit'' s
           else
             let real = to_real (s_vfs s) vpath
             in (case with_fs (CallRead real) (fs_read (env_fs env) real) s of
                  (s, Inl _) \<Rightarrow> reply env 550 ''no such file'' s
                | (s, Inr bs) \<Rightarrow> send_data env bs s))) s"

definition partial_name :: "string \<Rightarrow> u64 \<Rightarrow> string" where
  "partial_name real i = real @ ''.'' @ show_hex16 i @ ''.upload.partial''"

definition store_upload :: "'w ftp_env \<Rightarrow> string \<Rightarrow> data_conn \<Rightarrow> 'w session \<Rightarrow> 'w session \<times> (io_error + unit)" where
  "store_upload env real d s =
     (let fs = env_fs env; part = partial_name real (s_partial_seq s)
      in case stream_to_file fs d part (s_max_transfer_bytes s) (s\<lparr>s_partial_seq := s_partial_seq s + 1\<rparr>) of
           (s, Inr _) \<Rightarrow>
             (case with_fs (CallRename part real) (fs_rename fs part real) s of
                (s, Inr _) \<Rightarrow> reply env 226 ''stored'' s
              | (s, Inl _) \<Rightarrow>
                  reply env 550 ''write failed'' (fst (with_fs (CallRemove part) (fs_remove_file fs part) s)))
         | (s, Inl e) \<Rightarrow>
             reply env (if e = FileTooLarge then 552 else 426) ''receive failed''
               (fst (with_fs (CallRemove part) (fs_remove_file fs part) s)))"

definition do_stor :: "'w ftp_env \<Rightarrow> string \<Rightarrow> 'w session \<Rightarrow> 'w session \<times> (io_error + unit)" where
  "do_stor env arg s =
     (if s_read_only s then reply env 550 ''server is read-only'' s
      else with_path env arg (\<lambda>vpath s.
             with_data env ''ready to receive'' (store_upload env (to_real (s_vfs s) vpath)) s) s)"

definition do_size :: "'w ftp_env \<Rightarrow> string \<Rightarrow> 'w session \<Rightarrow> 'w session \<times> (io_error + unit)" where
  "do_size env arg s =
     with_path env arg (\<lambda>vpath s.
       (case real_read_dir env (fst (split_parent vpath)) s of
         (s, Inl _) \<Rightarrow> reply env 550 ''no such file'' s
       | (s, Inr es) \<Rightarrow>
           (case entry_find (snd (split_parent vpath)) es of
              Some e \<Rightarrow> reply env 213 (show_nat (ent_size e)) s
            | None \<Rightarrow> reply env 550 ''no such file'' s))) s"

definition do_dele :: "'w ftp_env \<Rightarrow> string \<Rightarrow> 'w session \<Rightarrow> 'w session \<times> (io_error + unit)" where
  "do_dele env arg s =
     (if s_read_only s then reply env 550 ''server is read-only'' s
      else with_path env arg (\<lambda>vpath s.
             let real = to_real (s_vfs s) vpath
             in (case with_fs (CallRemove real) (fs_remove_file (env_fs env) real) s of
                  (s, Inr _) \<Rightarrow> reply env 250 ''deleted'' s
                | (s, Inl _) \<Rightarrow> reply env 550 ''delete failed'' s)) s)"

definition do_mkd :: "'w ftp_env \<Rightarrow> string \<Rightarrow> 'w session \<Rightarrow> 'w session \<times> (io_error + unit)" where
  "do_mkd env arg s =
     (if s_read_only s then reply env 550 ''server is read-only'' s
      else with_path env arg (\<lambda>vpath s.
             let real = to_real (s_vfs s) vpath
             in (case with_fs (CallMkdir real) (fs_create_dir_all (env_fs env) real) s of
                  (s, Inr _) \<Rightarrow> reply env 257 (dir_reply vpath @ '' created'') s
                | (s, Inl _) \<Rightarrow> reply env 550 ''mkdir failed'' s)) s)"

definition do_rnfr :: "'w ftp_env \<Rightarrow> string \<Rightarrow> 'w session \<Rightarrow> 'w session \<times> (io_error + unit)" where
  "do_rnfr env arg s =
     (if s_read_only s then reply env 550 ''server is read-only'' s
      else with_path env arg (\<lambda>vpath s. reply env 350 ''ready for RNTO'' (s\<lparr>s_rename_from := Some vpath\<rparr>)) s)"

definition do_rnto :: "'w ftp_env \<Rightarrow> string \<Rightarrow> 'w session \<Rightarrow> 'w session \<times> (io_error + unit)" where
  "do_rnto env arg s =
     (case s_rename_from s of
        None \<Rightarrow> reply env 503 ''RNFR first'' s
      | Some from_path \<Rightarrow>
          with_path env arg (\<lambda>to_path s.
            let a = to_real (s_vfs s) from_path; b = to_real (s_vfs s) to_path
            in (case with_fs (CallRename a b) (fs_rename (env_fs env) a b) s of
                 (s, Inr _) \<Rightarrow> reply env 250 ''renamed'' s
               | (s, Inl _) \<Rightarrow> reply env 550 ''rename failed'' s)) (s\<lparr>s_rename_from := None\<rparr>))"

section \<open>Dispatch\<close>

datatype flow = Continue | QuitFlow

definition go_on :: "'s \<times> (io_error + unit) \<Rightarrow> 's \<times> (io_error + flow)" where
  "go_on r = (fst r, and_then (snd r) (\<lambda>_. Inr Continue))"

definition do_pass :: "'w ftp_env \<Rightarrow> ftp_config \<Rightarrow> string \<Rightarrow> 'w session \<Rightarrow> 'w session \<times> (io_error + unit)" where
  "do_pass env cfg password s =
     (let user = (case s_pending_user s of Some u \<Rightarrow> u | None \<Rightarrow> []); s = s\<lparr>s_pending_user := None\<rparr>
      in if credentials_match (cfg_username cfg) (cfg_password cfg) user password
         then reply env 230 ''logged in'' (s\<lparr>s_authed := True\<rparr>)
         else reply env 530 ''login incorrect'' s)"

fun authed_command :: "'w ftp_env \<Rightarrow> ftp_config \<Rightarrow> command \<Rightarrow> 'w session \<Rightarrow> 'w session \<times> (io_error + unit)" where
  "authed_command env cfg (TypeCmd _) s = reply env 200 ''type set to I'' s"
| "authed_command env cfg Pwd s = reply env 257 (dir_reply (s_cwd s) @ '' is current directory'') s"
| "authed_command env cfg (Cwd arg) s = do_cwd env arg s"
| "authed_command env cfg Cdup s = do_cwd env ''..'' s"
| "authed_command env cfg Pasv s = do_pasv env cfg s"
| "authed_command env cfg (Epsv arg) s = do_epsv env cfg arg s"
| "authed_command env cfg (ListCmd arg) s = do_list env arg False s"
| "authed_command env cfg (Nlst arg) s = do_list env arg True s"
| "authed_command env cfg (Retr arg) s = do_retr env arg s"
| "authed_command env cfg (Stor arg) s = do_stor env arg s"
| "authed_command env cfg (SizeCmd arg) s = do_size env arg s"
| "authed_command env cfg (Dele arg) s = do_dele env arg s"
| "authed_command env cfg (Mkd arg) s = do_mkd env arg s"
| "authed_command env cfg (Rnfr arg) s = do_rnfr env arg s"
| "authed_command env cfg (Rnto arg) s = do_rnto env arg s"
| "authed_command env cfg (Rmd _) s = reply env 550 ''RMD not supported'' s"
| "authed_command env cfg _ s = reply env 502 ''command not implemented'' s"

definition dispatch :: "'w ftp_env \<Rightarrow> ftp_config \<Rightarrow> command \<Rightarrow> 'w session \<Rightarrow> 'w session \<times> (io_error + flow)" where
  "dispatch env cfg cmd s =
     (case cmd of
        User u \<Rightarrow> go_on (reply env 331 ''user ok, send PASS'' (s\<lparr>s_pending_user := Some u\<rparr>))
      | Pass p \<Rightarrow> go_on (do_pass env cfg p s)
      | Quit \<Rightarrow>
          (case reply env 221 ''goodbye'' s of (s, r) \<Rightarrow> (s, and_then r (\<lambda>_. Inr QuitFlow)))
      | Syst \<Rightarrow> go_on (reply env 215 ''UNIX Type: L8'' s)
      | Feat \<Rightarrow>
          go_on (reply_multiline env 211 ''Features'' [''EPSV'', ''PASV'', ''SIZE'', ''UTF8''] ''End'' s)
      | Noop \<Rightarrow> go_on (reply env 200 ''noop ok'' s)
      | _ \<Rightarrow>
          if \<not> s_authed s then go_on (reply env 530 ''please login with USER and PASS'' s)
          else go_on (authed_command env cfg cmd s))"

section \<open>The control connection\<close>

definition MAX_COMMAND_BYTES :: nat where "MAX_COMMAND_BYTES = 4096"
definition CTRL_IDLE_TIMEOUT :: duration where "CTRL_IDLE_TIMEOUT = secs 120"
definition MAX_SESSIONS :: nat where "MAX_SESSIONS = 8"

text \<open>
  What the control connection gives: a byte, a poll that timed out (with the time it is and
  whether the server is shutting down), or an error; the end of the list is the end of the
  stream.
\<close>

datatype ctrl_event = CtrlByte u8 | CtrlPoll instant bool | CtrlFail

definition chomp :: "bytes \<Rightarrow> bytes" where
  "chomp buf = rev (dropWhile (\<lambda>b. b = 10 \<or> b = 13) (rev buf))"

fun read_line_loop :: "instant \<Rightarrow> bytes \<Rightarrow> ctrl_event list \<Rightarrow> string option \<times> ctrl_event list" where
  "read_line_loop deadline buf [] = (None, [])"
| "read_line_loop deadline buf (CtrlByte b # evs) =
     (let buf' = buf @ [b]
      in if MAX_COMMAND_BYTES < length buf' then (None, evs)
         else if b = 10 then (Some (from_utf8_lossy (chomp buf')), evs)
         else read_line_loop deadline buf' evs)"
| "read_line_loop deadline buf (CtrlPoll now stop # evs) =
     (if stop \<or> deadline \<le> now then (None, evs) else read_line_loop deadline buf evs)"
| "read_line_loop deadline buf (CtrlFail # evs) = (None, evs)"

definition read_line :: "instant \<Rightarrow> ctrl_event list \<Rightarrow> string option \<times> ctrl_event list" where
  "read_line now evs = read_line_loop (now + CTRL_IDLE_TIMEOUT) [] evs"

lemma read_line_loop_shorter: "read_line_loop deadline buf evs = (Some l, rest) \<Longrightarrow> length rest < length evs"
  by (induction deadline buf evs rule: read_line_loop.induct) (auto simp: Let_def split: if_splits)

text \<open>
  The loop of \<open>handle\<close>: \<open>clock\<close> and \<open>stop\<close> give the time and the shutdown flag at each
  round.
\<close>

function handle_loop ::
  "'w ftp_env \<Rightarrow> ftp_config \<Rightarrow> (nat \<Rightarrow> instant) \<Rightarrow> (nat \<Rightarrow> bool) \<Rightarrow> nat \<Rightarrow> ctrl_event list \<Rightarrow> 'w session \<Rightarrow> 'w session" where
  "handle_loop env cfg clock stop n evs s =
     (if stop n then s
      else (case read_line (clock n) evs of
              (None, _) \<Rightarrow> s
            | (Some l, rest) \<Rightarrow>
                if l = [] then handle_loop env cfg clock stop (Suc n) rest s
                else (case dispatch env cfg (parse_command l) s of
                        (s, Inr Continue) \<Rightarrow> handle_loop env cfg clock stop (Suc n) rest s
                      | (s, _) \<Rightarrow> s)))"
  by auto
termination
  by (relation "measure (\<lambda>(env, cfg, clock, stop, n, evs, s). length evs)")
    (auto simp: read_line_def dest: sym [THEN read_line_loop_shorter])

declare handle_loop.simps [simp del]

definition ftp_handle ::
  "'w ftp_env \<Rightarrow> ftp_config \<Rightarrow> (nat \<Rightarrow> instant) \<Rightarrow> (nat \<Rightarrow> bool) \<Rightarrow> ctrl_event list \<Rightarrow> 'w session \<Rightarrow> 'w session" where
  "ftp_handle env cfg clock stop evs s =
     (case reply env 220 ''ts-ftp ready'' s of
        (s, Inl _) \<Rightarrow> s
      | (s, Inr _) \<Rightarrow> handle_loop env cfg clock stop 0 evs s)"

section \<open>The server\<close>

definition ftp_spawn_refused :: "ftp_config \<Rightarrow> bool" where
  "ftp_spawn_refused cfg \<longleftrightarrow> cfg_username cfg = [] \<or> cfg_password cfg = [] \<or> cfg_max_transfer_bytes cfg = 0"

definition accept_one :: "('a \<Rightarrow> bool) \<Rightarrow> 'a \<Rightarrow> bool \<Rightarrow> 'a list \<Rightarrow> 'a list \<times> admit" where
  "accept_one is_done new spawned live = accept_bounded MAX_SESSIONS is_done new spawned live"

section \<open>Confinement\<close>

definition plain_seg :: "string \<Rightarrow> bool" where
  "plain_seg s \<longleftrightarrow> s \<noteq> [] \<and> s \<noteq> ''.'' \<and> s \<noteq> ''..'' \<and> CHR ''/'' \<notin> set s"

definition vpath_ok :: "string \<Rightarrow> bool" where
  "vpath_ok v \<longleftrightarrow> v = ''/'' \<or> (\<exists>segs. segs \<noteq> [] \<and> list_all plain_seg segs \<and> v = CHR ''/'' # join_with (CHR ''/'') segs)"

text \<open>A path of the jail: its root, or a path of plain segments below it.\<close>

definition jailed :: "string \<Rightarrow> string \<Rightarrow> bool" where
  "jailed root p \<longleftrightarrow>
     p = root \<or> (\<exists>segs. segs \<noteq> [] \<and> list_all plain_seg segs \<and> p = root @ CHR ''/'' # join_with (CHR ''/'') segs)"

lemma resolve_segs_plain:
  "resolve_segs segs rest = Some out \<Longrightarrow> list_all plain_seg segs \<Longrightarrow> list_all (\<lambda>s. CHR ''/'' \<notin> set s) rest \<Longrightarrow>
   list_all plain_seg out"
  by (induction segs rest rule: resolve_segs.induct) (auto simp: plain_seg_def split: if_splits list.splits)

lemma resolve_ok:
  assumes "resolve cwd arg = Some v"
  shows "vpath_ok v"
proof -
  let ?base = "if starts_with ''/'' arg then ''/'' else cwd"
  from assms obtain segs where segs: "resolve_segs [] (split_on (CHR ''/'') ?base @ split_on (CHR ''/'') arg) = Some segs"
    and v: "v = (if segs = [] then ''/'' else CHR ''/'' # join_with (CHR ''/'') (rev segs))"
    by (auto simp: resolve_def Let_def split: option.splits)
  have "list_all (\<lambda>s. CHR ''/'' \<notin> set s) (split_on (CHR ''/'') ?base @ split_on (CHR ''/'') arg)"
    using split_on_free by (auto simp: list_all_iff)
  with resolve_segs_plain [OF segs] have "list_all plain_seg (rev segs)" by simp
  with v show ?thesis by (auto simp: vpath_ok_def)
qed

lemma to_real_jailed:
  assumes "vpath_ok v" and "\<not> allow_device_paths vf"
  shows "jailed (vfs_root vf) (to_real vf v)"
  using assms by (auto simp: to_real_def vpath_ok_def jailed_def Let_def split: option.splits)

lemma split_parent_ok:
  assumes "vpath_ok v"
  shows "vpath_ok (fst (split_parent v))"
proof (cases "v = ''/''")
  case True
  then show ?thesis by (simp add: split_parent_def str_rfind_def vpath_ok_def)
next
  case False
  with assms obtain segs where segs: "segs \<noteq> []" "list_all plain_seg segs" and v: "v = CHR ''/'' # join_with (CHR ''/'') segs"
    by (auto simp: vpath_ok_def)
  from segs obtain below seg where s: "segs = below @ [seg]" by (meson rev_exhaust)
  with segs have free: "CHR ''/'' \<notin> set seg" by (simp add: plain_seg_def)
  show ?thesis
  proof (cases "below = []")
    case True
    with v s have "v = [] @ CHR ''/'' # seg" by simp
    then show ?thesis using str_rfind_append [OF free, of "[]"] by (simp add: split_parent_def vpath_ok_def)
  next
    case below: False
    with v s have v': "v = (CHR ''/'' # join_with (CHR ''/'') below) @ CHR ''/'' # seg"
      by (simp add: join_with_append)
    then have "split_parent v = (CHR ''/'' # join_with (CHR ''/'') below, seg)"
      using str_rfind_append [OF free, of "CHR ''/'' # join_with (CHR ''/'') below"] by (simp add: split_parent_def)
    with below segs s show ?thesis by (auto simp: vpath_ok_def)
  qed
qed

lemma digit_char_no_slash: "n < 16 \<Longrightarrow> digit_char n \<noteq> CHR ''/''"
proof
  assume "n < 16" and "digit_char n = CHR ''/''"
  then have "(of_char (digit_char n) :: nat) = 47" by simp
  with \<open>n < 16\<close> show False by (simp add: digit_char_def of_char_of split: if_splits)
qed

lemma show_base_no_slash: "CHR ''/'' \<notin> set (show_base 16 n)"
proof (induction n rule: less_induct)
  case (less n)
  show ?case
  proof (cases "n < 16")
    case True
    then show ?thesis using digit_char_no_slash [of n] by (simp add: show_base.simps [of 16 n])
  next
    case False
    then have "n div 16 < n" by simp
    from less [OF this] False show ?thesis
      using digit_char_no_slash [of "n mod 16"] by (simp add: show_base.simps [of 16 n])
  qed
qed

text \<open>A temporary upload file stands beside its target: in the jail, unless the target is the root.\<close>

lemma partial_jailed:
  assumes "jailed root p"
  shows "jailed root (partial_name p i) \<or> p = root"
proof (rule disjCI)
  assume "p \<noteq> root"
  with assms obtain segs where segs: "segs \<noteq> []" "list_all plain_seg segs" and p: "p = root @ CHR ''/'' # join_with (CHR ''/'') segs"
    by (auto simp: jailed_def)
  from segs obtain below seg where s: "segs = below @ [seg]" by (meson rev_exhaust)
  let ?seg = "partial_name seg i"
  have hex: "CHR ''/'' \<notin> set (show_hex16 i)" 
    by (simp add: show_hex16_def pad_left_def show_base_no_slash)
  have "plain_seg ?seg" using segs s hex by (auto simp: plain_seg_def partial_name_def)
  moreover have "partial_name p i = root @ CHR ''/'' # join_with (CHR ''/'') (below @ [?seg])"
    using p s by (cases "below = []") (simp_all add: join_with_append partial_name_def)
  ultimately show "jailed root (partial_name p i)" using segs s by (auto simp: jailed_def intro!: exI [of _ "below @ [?seg]"])
qed

section \<open>The session stays in its jail\<close>

definition path_allowed :: "string \<Rightarrow> string \<Rightarrow> bool" where
  "path_allowed root p \<longleftrightarrow> jailed root p \<or> (\<exists>i. p = partial_name root i)"

fun call_paths :: "fs_call \<Rightarrow> string list" where
  "call_paths (CallRead p) = [p]"
| "call_paths (CallWrite p) = [p]"
| "call_paths (CallAppend p _) = [p]"
| "call_paths (CallMkdir p) = [p]"
| "call_paths (CallRemove p) = [p]"
| "call_paths (CallRename p q) = [p, q]"
| "call_paths (CallReadDir p) = [p]"

fun call_mutates :: "fs_call \<Rightarrow> bool" where
  "call_mutates (CallRead _) = False"
| "call_mutates (CallReadDir _) = False"
| "call_mutates _ = True"

definition call_ok :: "string \<Rightarrow> bool \<Rightarrow> fs_call \<Rightarrow> bool" where
  "call_ok root ro c \<longleftrightarrow> list_all (path_allowed root) (call_paths c) \<and> (ro \<longrightarrow> \<not> call_mutates c)"

definition session_ok :: "string \<Rightarrow> bool \<Rightarrow> string option \<times> bool \<Rightarrow> 'w session \<Rightarrow> bool" where
  "session_ok root ro pu s \<longleftrightarrow>
     (s_pending_user s, s_authed s) = pu \<and> (s_calls s = [] \<or> snd pu) \<and>
     vfs_root (s_vfs s) = root \<and> \<not> allow_device_paths (s_vfs s) \<and> s_read_only s = ro \<and> vpath_ok (s_cwd s) \<and>
     (case s_rename_from s of None \<Rightarrow> True | Some v \<Rightarrow> vpath_ok v \<and> \<not> ro) \<and>
     list_all (call_ok root ro) (s_calls s)"

lemma session_ok_cong:
  "s_vfs s' = s_vfs s \<Longrightarrow> s_read_only s' = s_read_only s \<Longrightarrow> s_cwd s' = s_cwd s \<Longrightarrow> s_rename_from s' = s_rename_from s \<Longrightarrow>
   s_calls s' = s_calls s \<Longrightarrow> s_pending_user s' = s_pending_user s \<Longrightarrow> s_authed s' = s_authed s \<Longrightarrow> session_ok root ro pu s' = session_ok root ro pu s"
  by (simp add: session_ok_def)

lemma session_ok_frame [simp]:
  "session_ok root ro pu (s\<lparr>s_sent := a\<rparr>) = session_ok root ro pu s"
  "session_ok root ro pu (s\<lparr>s_pasv := b\<rparr>) = session_ok root ro pu s"
  "session_ok root ro pu (s\<lparr>s_accepts := k\<rparr>) = session_ok root ro pu s"
  "session_ok root ro pu (s\<lparr>s_next_pasv_port := q\<rparr>) = session_ok root ro pu s"
  "session_ok root ro pu (s\<lparr>s_binds := k\<rparr>) = session_ok root ro pu s"
  "session_ok root ro pu (s\<lparr>s_partial_seq := i\<rparr>) = session_ok root ro pu s"
  by (simp_all add: session_ok_def)

lemma session_ok_reply [simp]: "session_ok root ro pu (fst (reply env n t s)) = session_ok root ro pu s"
  by (rule session_ok_cong) (simp_all add: reply_def send_ctrl_def)

lemma session_ok_multiline [simp]:
  "session_ok root ro pu (fst (reply_multiline env n h ls t s)) = session_ok root ro pu s"
  by (rule session_ok_cong) (simp_all add: reply_multiline_def send_ctrl_def)

lemma session_ok_fs: "session_ok root ro (pu, True) s \<Longrightarrow> call_ok root ro c \<Longrightarrow> session_ok root ro (pu, True) (fst (with_fs c f s))"
  by (simp add: session_ok_def with_fs_def split: prod.splits)

lemma session_ok_fs': "with_fs c f s = (s', r) \<Longrightarrow> session_ok root ro (pu, True) s \<Longrightarrow> call_ok root ro c \<Longrightarrow> session_ok root ro (pu, True) s'"
  using session_ok_fs [of root ro pu s c f] by simp

lemma session_ok_real: "session_ok root ro (pu, True) s \<Longrightarrow> vpath_ok v \<Longrightarrow> jailed root (to_real (s_vfs s) v)"
  using to_real_jailed [of v "s_vfs s"] by (simp add: session_ok_def)

lemma jailed_allowed: "jailed root p \<Longrightarrow> path_allowed root p"
  by (simp add: path_allowed_def)

lemma partial_allowed: "jailed root p \<Longrightarrow> path_allowed root (partial_name p i)"
  using partial_jailed [of root p i] by (auto simp: path_allowed_def)

lemma session_ok_path:
  assumes "session_ok root ro (pu, True) s" and "\<And>v. vpath_ok v \<Longrightarrow> session_ok root ro (pu, True) (fst (f v s))"
  shows "session_ok root ro (pu, True) (fst (with_path env arg f s))"
  using assms by (auto simp: with_path_def resolve_ok split: option.splits)

lemma session_ok_data:
  assumes "session_ok root ro (pu, True) s" and "\<And>d t. session_ok root ro (pu, True) t \<Longrightarrow> session_ok root ro (pu, True) (fst (f d t))"
  shows "session_ok root ro (pu, True) (fst (with_data env txt f s))"
proof (cases "s_pasv s")
  case None
  then show ?thesis using assms(1) by (simp add: with_data_def)
next
  case (Some p)
  obtain s1 r where r: "reply env 150 txt (s\<lparr>s_pasv := None\<rparr>) = (s1, r)" by (cases "reply env 150 txt (s\<lparr>s_pasv := None\<rparr>)")
  with assms(1) have s1: "session_ok root ro (pu, True) s1"
    using session_ok_reply [of root ro "(pu, True)" env 150 "txt" "s\<lparr>s_pasv := None\<rparr>"] by simp
  show ?thesis
  proof (cases r)
    case (Inr u)
    with Some r s1 assms(2) show ?thesis
      by (cases "accept_timeout env (s_accepts s1)") (simp_all add: with_data_def)
  qed (use Some r s1 in \<open>simp add: with_data_def\<close>)
qed

lemma session_ok_pump: "session_ok root ro (pu, True) s \<Longrightarrow> session_ok root ro (pu, True) (fst (pump_data env d bs s))"
  by (simp add: pump_data_def)

lemma session_ok_send: "session_ok root ro (pu, True) s \<Longrightarrow> session_ok root ro (pu, True) (fst (send_data env bs s))"
  unfolding send_data_def by (rule session_ok_data) (auto intro: session_ok_pump)

lemma session_ok_read_dir:
  assumes "session_ok root ro (pu, True) s" and "vpath_ok v" and "real_read_dir env v s = (s', r)"
  shows "session_ok root ro (pu, True) s'"
  using session_ok_fs' [OF assms(3) [unfolded real_read_dir_def Let_def] assms(1)] session_ok_real [OF assms(1,2)]
  by (simp add: call_ok_def jailed_allowed)


lemma session_ok_cwd: "session_ok root ro (pu, True) s \<Longrightarrow> session_ok root ro (pu, True) (fst (do_cwd env arg s))"
  unfolding do_cwd_def
proof (rule session_ok_path)
  fix v
  assume s: "session_ok root ro (pu, True) s" and v: "vpath_ok v"
  obtain s1 r where r: "real_read_dir env v s = (s1, r)" by (cases "real_read_dir env v s")
  with session_ok_read_dir [OF s v] have s1: "session_ok root ro (pu, True) s1" by simp
  then have "session_ok root ro (pu, True) (s1\<lparr>s_cwd := v\<rparr>)" using v by (simp add: session_ok_def)
  with s1 r show "session_ok root ro (pu, True) (fst (case real_read_dir env v s of
      (s, Inr _) \<Rightarrow> reply env 250 ''directory changed'' (s\<lparr>s_cwd := v\<rparr>)
    | (s, Inl _) \<Rightarrow> reply env 550 ''no such directory'' s))"
    by (cases r) simp_all
qed

lemma session_ok_list_dir:
  assumes "session_ok root ro (pu, True) s" and "vpath_ok v"
  shows "session_ok root ro (pu, True) (fst (list_dir env names v s))"
proof -
  obtain s1 r where r: "real_read_dir env v s = (s1, r)" by (cases "real_read_dir env v s")
  with session_ok_read_dir [OF assms] have "session_ok root ro (pu, True) s1" by simp
  with r show ?thesis by (cases r) (simp_all add: list_dir_def session_ok_send)
qed

lemma session_ok_list: "session_ok root ro (pu, True) s \<Longrightarrow> session_ok root ro (pu, True) (fst (do_list env arg names s))"
proof -
  assume s: "session_ok root ro (pu, True) s"
  then have "vpath_ok (s_cwd s)" by (simp add: session_ok_def)
  with s show ?thesis
    by (cases arg) (auto simp: do_list_def intro: session_ok_list_dir session_ok_path)
qed

lemma session_ok_file_size:
  assumes "session_ok root ro (pu, True) s" and "vpath_ok v" and "file_size env v s = (s', r)"
  shows "session_ok root ro (pu, True) s'"
proof -
  obtain s1 q where q: "real_read_dir env (fst (split_parent v)) s = (s1, q)"
    by (cases "real_read_dir env (fst (split_parent v)) s")
  with session_ok_read_dir [OF assms(1) split_parent_ok [OF assms(2)]] have "session_ok root ro (pu, True) s1" by simp
  with q assms(3) show ?thesis by (cases q) (simp_all add: file_size_def)
qed

lemma session_ok_retr: "session_ok root ro (pu, True) s \<Longrightarrow> session_ok root ro (pu, True) (fst (do_retr env arg s))"
  unfolding do_retr_def
proof (rule session_ok_path)
  fix v
  assume s: "session_ok root ro (pu, True) s" and v: "vpath_ok v"
  obtain s1 z where z: "file_size env v s = (s1, z)" by (cases "file_size env v s")
  with session_ok_file_size [OF s v] have s1: "session_ok root ro (pu, True) s1" by simp
  let ?real = "to_real (s_vfs s1) v"
  obtain s2 r where r: "with_fs (CallRead ?real) (fs_read (env_fs env) ?real) s1 = (s2, r)"
    by (cases "with_fs (CallRead ?real) (fs_read (env_fs env) ?real) s1")
  have s2: "session_ok root ro (pu, True) s2"
    using session_ok_fs' [OF r s1] session_ok_real [OF s1 v] by (simp add: call_ok_def jailed_allowed)
  show "session_ok root ro (pu, True) (fst (case file_size env v s of
      (s, None) \<Rightarrow> reply env 550 ''cannot stat file'' s
    | (s, Some len) \<Rightarrow>
        if s_max_transfer_bytes s < len then reply env 552 ''file exceeds transfer limit'' s
        else let real = to_real (s_vfs s) v
             in (case with_fs (CallRead real) (fs_read (env_fs env) real) s of
                   (s, Inl _) \<Rightarrow> reply env 550 ''no such file'' s
                 | (s, Inr bs) \<Rightarrow> send_data env bs s)))"
  proof (cases z)
    case None
    with z s1 show ?thesis by simp
  next
    case (Some len)
    with z s1 r s2 show ?thesis by (cases r) (simp_all add: Let_def session_ok_send)
  qed
qed

lemma session_ok_stream:
  "path_allowed root p \<Longrightarrow> \<not> ro \<Longrightarrow> session_ok root ro (pu, True) s \<Longrightarrow> session_ok root ro (pu, True) (fst (stream_chunks fs p mx n rs s))"
proof (induction fs p mx n rs s rule: stream_chunks.induct)
  case (3 fs p mx got chunk rs s)
  obtain s1 r where r: "with_fs (CallAppend p (length chunk)) (fs_append fs p chunk) s = (s1, r)"
    by (cases "with_fs (CallAppend p (length chunk)) (fs_append fs p chunk) s")
  have s1: "session_ok root ro (pu, True) s1"
    using session_ok_fs' [OF r 3(4)] 3(2,3) by (simp add: call_ok_def)
  show ?case using 3 s1 r by (cases r) (auto simp: Let_def)
qed simp_all

lemma session_ok_to_file:
  assumes "path_allowed root p" and "\<not> ro" and "session_ok root ro (pu, True) s" and "stream_to_file fs d p mx s = (s', r)"
  shows "session_ok root ro (pu, True) s'"
proof -
  obtain s1 q where q: "with_fs (CallWrite p) (fs_write fs p []) s = (s1, q)"
    by (cases "with_fs (CallWrite p) (fs_write fs p []) s")
  have "session_ok root ro (pu, True) s1" using session_ok_fs' [OF q assms(3)] assms(1,2) by (simp add: call_ok_def)
  then show ?thesis
    using assms(4) q session_ok_stream [OF assms(1,2), of pu s1 fs mx 0 "data_reads d"]
    by (cases q) (auto simp: stream_to_file_def)
qed

lemma session_ok_store:
  assumes "jailed root real" and "\<not> ro" and "session_ok root ro (pu, True) s"
  shows "session_ok root ro (pu, True) (fst (store_upload env real d s))"
proof -
  let ?fs = "env_fs env" and ?part = "partial_name real (s_partial_seq s)"
  let ?s = "s\<lparr>s_partial_seq := s_partial_seq s + 1\<rparr>"
  note allowed = partial_allowed [OF assms(1), of "s_partial_seq s"] jailed_allowed [OF assms(1)]
  obtain s1 r where r: "stream_to_file ?fs d ?part (s_max_transfer_bytes s) ?s = (s1, r)"
    by (cases "stream_to_file ?fs d ?part (s_max_transfer_bytes s) ?s")
  from assms(3) have s1: "session_ok root ro (pu, True) s1"
    using session_ok_to_file [OF allowed(1) assms(2) _ r] by simp
  obtain s2 q where q: "with_fs (CallRename ?part real) (fs_rename ?fs ?part real) s1 = (s2, q)"
    by (cases "with_fs (CallRename ?part real) (fs_rename ?fs ?part real) s1")
  have s2: "session_ok root ro (pu, True) s2"
    using session_ok_fs' [OF q s1] allowed assms(2) by (simp add: call_ok_def)
  have rm: "session_ok root ro (pu, True) (fst (with_fs (CallRemove ?part) (fs_remove_file ?fs ?part) t))"
    if "session_ok root ro (pu, True) t" for t
    using session_ok_fs [OF that, of "CallRemove ?part"] allowed assms(2) by (simp add: call_ok_def)
  show ?thesis using r q s1 s2 rm by (cases r; cases q) (simp_all add: store_upload_def Let_def)
qed

lemma session_ok_stor: "session_ok root ro (pu, True) s \<Longrightarrow> session_ok root ro (pu, True) (fst (do_stor env arg s))"
proof (cases "s_read_only s")
  assume s: "session_ok root ro (pu, True) s"
  case False
  with s have ro: "\<not> ro" by (simp add: session_ok_def)
  have "session_ok root ro (pu, True) (fst (with_path env arg (\<lambda>vpath s.
      with_data env ''ready to receive'' (store_upload env (to_real (s_vfs s) vpath)) s) s))"
    using s
  proof (rule session_ok_path)
    fix v
    assume "vpath_ok v"
    then show "session_ok root ro (pu, True) (fst (with_data env ''ready to receive'' (store_upload env (to_real (s_vfs s) v)) s))"
      using session_ok_data [OF s] session_ok_store [OF session_ok_real [OF s] ro] by blast
  qed
  with False show ?thesis by (simp add: do_stor_def)
qed (simp add: do_stor_def)

lemma session_ok_size: "session_ok root ro (pu, True) s \<Longrightarrow> session_ok root ro (pu, True) (fst (do_size env arg s))"
  unfolding do_size_def
proof (rule session_ok_path)
  fix v
  assume s: "session_ok root ro (pu, True) s" and v: "vpath_ok v"
  obtain s1 r where r: "real_read_dir env (fst (split_parent v)) s = (s1, r)"
    by (cases "real_read_dir env (fst (split_parent v)) s")
  with session_ok_read_dir [OF s split_parent_ok [OF v]] have "session_ok root ro (pu, True) s1" by simp
  with r show "session_ok root ro (pu, True) (fst (case real_read_dir env (fst (split_parent v)) s of
      (s, Inl _) \<Rightarrow> reply env 550 ''no such file'' s
    | (s, Inr es) \<Rightarrow>
        (case entry_find (snd (split_parent v)) es of
           Some e \<Rightarrow> reply env 213 (show_nat (ent_size e)) s
         | None \<Rightarrow> reply env 550 ''no such file'' s)))"
    by (cases r) (auto split: option.splits)
qed

text \<open>The three commands that change one or two named paths.\<close>

lemma session_ok_change:
  assumes "session_ok root ro (pu, True) s" and "call_ok root ro c"
  shows "session_ok root ro (pu, True) (fst (case with_fs c f s of
      (s, Inr _) \<Rightarrow> reply env n t s | (s, Inl _) \<Rightarrow> reply env m u s))"
proof -
  obtain s1 r where r: "with_fs c f s = (s1, r)" by (cases "with_fs c f s")
  with session_ok_fs' [OF r assms] show ?thesis by (cases r) simp_all
qed

lemma session_ok_dele: "session_ok root ro (pu, True) s \<Longrightarrow> session_ok root ro (pu, True) (fst (do_dele env arg s))"
proof -
  assume s: "session_ok root ro (pu, True) s"
  then have "call_ok root ro (CallRemove (to_real (s_vfs s) v))" if "vpath_ok v" "\<not> s_read_only s" for v
    using that session_ok_real [OF s that(1)] by (auto simp: call_ok_def jailed_allowed session_ok_def)
  with s show ?thesis
    by (auto simp: do_dele_def Let_def intro!: session_ok_path session_ok_change)
qed

lemma session_ok_mkd: "session_ok root ro (pu, True) s \<Longrightarrow> session_ok root ro (pu, True) (fst (do_mkd env arg s))"
proof -
  assume s: "session_ok root ro (pu, True) s"
  then have "call_ok root ro (CallMkdir (to_real (s_vfs s) v))" if "vpath_ok v" "\<not> s_read_only s" for v
    using that session_ok_real [OF s that(1)] by (auto simp: call_ok_def jailed_allowed session_ok_def)
  with s show ?thesis
    by (auto simp: do_mkd_def Let_def intro!: session_ok_path session_ok_change)
qed

lemma session_ok_rnfr: "session_ok root ro (pu, True) s \<Longrightarrow> session_ok root ro (pu, True) (fst (do_rnfr env arg s))"
  by (auto simp: do_rnfr_def intro!: session_ok_path) (auto simp: session_ok_def)

lemma session_ok_rnto: "session_ok root ro (pu, True) s \<Longrightarrow> session_ok root ro (pu, True) (fst (do_rnto env arg s))"
proof (cases "s_rename_from s")
  case (Some a)
  assume s: "session_ok root ro (pu, True) s"
  let ?s = "s\<lparr>s_rename_from := None\<rparr>"
  from s have s': "session_ok root ro (pu, True) ?s" by (simp add: session_ok_def)
  from s Some have a: "vpath_ok a" "\<not> ro" by (simp_all add: session_ok_def)
  have "call_ok root ro (CallRename (to_real (s_vfs s) a) (to_real (s_vfs s) v))" if "vpath_ok v" for v
    using session_ok_real [OF s a(1)] session_ok_real [OF s that] a(2) by (simp add: call_ok_def jailed_allowed)
  with s' Some show ?thesis
    by (auto simp: do_rnto_def Let_def intro!: session_ok_path session_ok_change)
qed (simp add: do_rnto_def)


lemma session_ok_bind: "session_ok root ro (pu, True) s \<Longrightarrow> session_ok root ro (pu, True) (fst (bind_ports env lo hi n e s))"
  by (induction env lo hi n e s rule: bind_ports.induct) (auto simp: Let_def split: sum.splits)

lemma session_ok_passive: "session_ok root ro (pu, True) s \<Longrightarrow> session_ok root ro (pu, True) (fst (open_passive env cfg code fmt s))"
proof -
  assume s: "session_ok root ro (pu, True) s"
  let ?b = "bind_passive env (passive_port_lo cfg) (passive_port_hi cfg) (s\<lparr>s_pasv := None\<rparr>)"
  obtain s1 r where r: "?b = (s1, r)" by (cases ?b)
  with s have "session_ok root ro (pu, True) s1"
    using session_ok_bind [of root ro pu "s\<lparr>s_pasv := None\<rparr>" env "passive_port_lo cfg" "passive_port_hi cfg"]
    by (metis bind_passive_def fst_conv session_ok_frame(2))
  with r show ?thesis by (auto simp: open_passive_def split: sum.splits io_error.splits)
qed

lemma session_ok_authed: "session_ok root ro (pu, True) s \<Longrightarrow> session_ok root ro (pu, True) (fst (authed_command env cfg cmd s))"
  by (cases cmd) (auto simp: do_pasv_def do_epsv_def session_ok_cwd session_ok_list session_ok_retr session_ok_stor
      session_ok_size session_ok_dele session_ok_mkd session_ok_rnfr session_ok_rnto session_ok_passive split: option.splits)

lemma fst_go_on [simp]: "fst (go_on r) = fst r"
  by (simp add: go_on_def)

text \<open>
  The login automaton: a user name waits for the next password, and the right pair logs in
  for good.
\<close>

fun login_step :: "ftp_config \<Rightarrow> command \<Rightarrow> string option \<times> bool \<Rightarrow> string option \<times> bool" where
  "login_step cfg (User u) (p, a) = (Some u, a)"
| "login_step cfg (Pass w) (p, a) =
     (None, a \<or> (case p of Some u \<Rightarrow> u | None \<Rightarrow> []) = cfg_username cfg \<and> w = cfg_password cfg)"
| "login_step cfg _ st = st"

definition logs_in :: "ftp_config \<Rightarrow> command list \<Rightarrow> bool" where
  "logs_in cfg cmds = snd (fold (login_step cfg) cmds (None, False))"

lemma session_ok_user: "session_ok root ro (q, a) s \<Longrightarrow> session_ok root ro (u, a) (s\<lparr>s_pending_user := u\<rparr>)"
  by (simp add: session_ok_def)

lemma session_ok_login: "session_ok root ro (q, a) s \<Longrightarrow> session_ok root ro (q, True) (s\<lparr>s_authed := True\<rparr>)"
  by (simp add: session_ok_def)

lemma session_ok_pass:
  assumes "session_ok root ro (q, a) s"
  shows "session_ok root ro (login_step cfg (Pass w) (q, a)) (fst (do_pass env cfg w s))"
proof -
  from assms have "s_pending_user s = q" by (simp add: session_ok_def)
  then show ?thesis
    using session_ok_user [OF assms, of None] session_ok_login [OF session_ok_user [OF assms, of None]]
    by (auto simp: do_pass_def credentials_match_def Let_def)
qed

lemma session_ok_dispatch:
  assumes "session_ok root ro pu s"
  shows "session_ok root ro (login_step cfg cmd pu) (fst (dispatch env cfg cmd s))"
proof -
  obtain q a where pu: "pu = (q, a)" by (cases pu)
  from assms pu have a: "s_authed s = a" by (simp add: session_ok_def)
  have rest: "a \<Longrightarrow> session_ok root ro (q, a) (fst (authed_command env cfg cmd s))" for cmd
    using session_ok_authed [of root ro q s env cfg cmd] assms pu by simp
  from assms pu a rest session_ok_user [of root ro q a s] session_ok_pass [of root ro q a s] show ?thesis
    by (cases a; cases cmd) (simp_all add: dispatch_def split_beta del: authed_command.simps)
qed

section \<open>Runs of a session\<close>

text \<open>The commands a control connection carries, and the session that works through them.\<close>

function ctrl_commands :: "(nat \<Rightarrow> instant) \<Rightarrow> (nat \<Rightarrow> bool) \<Rightarrow> nat \<Rightarrow> ctrl_event list \<Rightarrow> command list" where
  "ctrl_commands clock stop n evs =
     (if stop n then []
      else (case read_line (clock n) evs of
              (None, _) \<Rightarrow> []
            | (Some l, rest) \<Rightarrow>
                (if l = [] then [] else [parse_command l]) @ ctrl_commands clock stop (Suc n) rest))"
  by auto
termination
  by (relation "measure (\<lambda>(clock, stop, n, evs). length evs)")
    (auto simp: read_line_def dest: sym [THEN read_line_loop_shorter])

declare ctrl_commands.simps [simp del]

fun ftp_run :: "'w ftp_env \<Rightarrow> ftp_config \<Rightarrow> command list \<Rightarrow> 'w session \<Rightarrow> 'w session" where
  "ftp_run env cfg [] s = s"
| "ftp_run env cfg (c # cs) s =
     (case dispatch env cfg c s of
        (s, Inr Continue) \<Rightarrow> ftp_run env cfg cs s
      | (s, _) \<Rightarrow> s)"

lemma handle_loop_is_run: "handle_loop env cfg clock stop n evs s = ftp_run env cfg (ctrl_commands clock stop n evs) s"
proof (induction env cfg clock stop n evs s rule: handle_loop.induct)
  case (1 env cfg clock stop n evs s)
  show ?case
  proof (cases "stop n")
    case True
    then show ?thesis by (simp add: handle_loop.simps [of env cfg clock stop n] ctrl_commands.simps [of clock stop n])
  next
    case go: False
    obtain ol rest where r: "read_line (clock n) evs = (ol, rest)" by (cases "read_line (clock n) evs")
    show ?thesis
    proof (cases ol)
      case None
      with go r show ?thesis
        by (simp add: handle_loop.simps [of env cfg clock stop n] ctrl_commands.simps [of clock stop n])
    next
      case (Some l)
      note IH = 1 [OF go r [symmetric] Some]
      with go r Some show ?thesis
        by (subst handle_loop.simps, subst ctrl_commands.simps)
          (auto split: prod.splits sum.splits flow.splits)
    qed
  qed
qed


lemma session_ok_run:
  "session_ok root ro st s \<Longrightarrow> \<exists>k. session_ok root ro (fold (login_step cfg) (take k cmds) st) (ftp_run env cfg cmds s)"
proof (induction cmds arbitrary: s st)
  case Nil
  then show ?case by simp
next
  case (Cons c cs)
  obtain s1 r where r: "dispatch env cfg c s = (s1, r)" by (cases "dispatch env cfg c s")
  with session_ok_dispatch [OF Cons.prems, of cfg c env] have s1: "session_ok root ro (login_step cfg c st) s1" by simp
  show ?case
  proof (cases "r = Inr Continue")
    case True
    from Cons.IH [OF s1] obtain k where
      "session_ok root ro (fold (login_step cfg) (take k cs) (login_step cfg c st)) (ftp_run env cfg cs s1)" by blast
    with True r show ?thesis by (intro exI [of _ "Suc k"]) simp
  next
    case False
    with r have "ftp_run env cfg (c # cs) s = s1" by (auto split: sum.splits flow.splits)
    with s1 show ?thesis by (intro exI [of _ 1]) simp
  qed
qed

lemma login_step_mono: "snd st \<Longrightarrow> snd (login_step cfg c st)"
  by (cases st; cases c) auto

lemma logs_in_take: "snd (fold (login_step cfg) (take k cmds) st) \<Longrightarrow> snd (fold (login_step cfg) cmds st)"
proof -
  have "snd st \<Longrightarrow> snd (fold (login_step cfg) cs st)" for cs st
  proof (induction cs arbitrary: st)
    case (Cons c cs)
    from Cons.IH [OF login_step_mono [OF Cons.prems]] show ?case by simp
  qed simp
  then show "snd (fold (login_step cfg) (take k cmds) st) \<Longrightarrow> ?thesis"
    by (metis append_take_drop_id fold_append comp_apply)
qed

lemma session_new_ok:
  "\<not> cfg_allow_device_paths cfg \<Longrightarrow>
   session_ok (vfs_root (vfs_new (cfg_root cfg) False)) (cfg_read_only cfg) (None, False) (session_new cfg peer i port ip w)"
  by (simp add: session_ok_def session_new_def vfs_new_def vpath_ok_def)

lemma ftp_handle_ok:
  assumes "session_ok root ro st s"
  shows "\<exists>k. session_ok root ro (fold (login_step cfg) (take k (ctrl_commands clock stop 0 evs)) st)
    (ftp_handle env cfg clock stop evs s)"
proof -
  obtain s1 r where r: "reply env 220 ''ts-ftp ready'' s = (s1, r)" by (cases "reply env 220 ''ts-ftp ready'' s")
  with assms have s1: "session_ok root ro st s1" using session_ok_reply [of root ro st env 220 _ s] by (metis fst_conv)
  show ?thesis
  proof (cases r)
    case (Inl e)
    with r s1 show ?thesis by (intro exI [of _ 0]) (simp add: ftp_handle_def)
  next
    case (Inr u)
    with r session_ok_run [OF s1, of cfg "ctrl_commands clock stop 0 evs" env] show ?thesis
      by (simp add: ftp_handle_def handle_loop_is_run)
  qed
qed

text \<open>A session that logs in and deletes a file, on the kernel in memory.\<close>

definition sample_cfg :: ftp_config where
  "sample_cfg = ftp_config_default\<lparr>cfg_root := ''ux0:/data/'', cfg_password := ''pw''\<rparr>"

definition sample_env :: "mem_state ftp_env" where
  "sample_env = \<lparr>env_fs = sce_fs mem_io mem_fuel, ctrl_write = (\<lambda>_. Inr ()), bind_handle = (\<lambda>_ _. Inr ()),
     accept_timeout = (\<lambda>_. Inr \<lparr>data_peer_ip = IpV4 1, data_reads = [Inr [1, 2, 3]], data_write_ok = True\<rparr>)\<rparr>"

definition sample_world :: mem_state where
  "sample_world = \<lparr>mem_files = [(''ux0:data/a'', [7])], mem_fds = [], mem_dirs = []\<rparr>"

definition sample_session :: "mem_state session" where
  "sample_session = session_new sample_cfg (IpV4 1) 0 30000 (Some 1) sample_world"

definition typed :: "string \<Rightarrow> ctrl_event list" where
  "typed s = map CtrlByte (str_bytes s @ [13, 10])"

lemma sample_parse_user: "parse_command ''USER vita'' = User ''vita''"
proof -
  have "trim ''USER vita'' = ''USER vita''" "trim ''vita'' = ''vita''"
    by (rule trim_ends; simp add: whitespace_def)+
  then show ?thesis
    by (simp add: parse_command_def split_once_def to_ascii_uppercase_def ascii_upper_def Let_def)
qed

lemma sample_parse_pass: "parse_command ''PASS pw'' = Pass ''pw''"
proof -
  have "trim ''PASS pw'' = ''PASS pw''" "trim ''pw'' = ''pw''"
    by (rule trim_ends; simp add: whitespace_def)+
  then show ?thesis
    by (simp add: parse_command_def split_once_def to_ascii_uppercase_def ascii_upper_def Let_def)
qed
lemma sample_parse_dele: "parse_command ''DELE a'' = Dele ''a''"
proof -
  have "trim ''DELE a'' = ''DELE a''" "trim ''a'' = ''a''"
    by (rule trim_ends; simp add: whitespace_def)+
  then show ?thesis
    by (simp add: parse_command_def split_once_def to_ascii_uppercase_def ascii_upper_def Let_def)
qed

lemma sample_norm: "norm ''ux0:/data/a'' = ''ux0:data/a''"
  by (simp add: norm_def str_find_def)

lemma sample_resolve: "resolve ''/'' ''a'' = Some ''/a''"
  by (simp add: resolve_def starts_with_def)

lemma sample_calls: "s_calls (ftp_run sample_env sample_cfg [User ''vita'', Pass ''pw'', Dele ''a''] (sample_session\<lparr>s_replies := r\<rparr>)) = [CallRemove ''ux0:/data/a'']"
  by (simp add: sample_session_def session_new_def sample_cfg_def ftp_config_default_def sample_env_def dispatch_def go_on_def reply_def send_ctrl_def do_pass_def credentials_match_def do_dele_def with_path_def sample_resolve to_real_def vfs_new_def trim_end_char_def with_fs_def sce_fs_def Let_def strip_prefix_def
      sce_remove_file_def sample_norm cstr_def mem_io_def mem_remove_def sample_world_def)

definition printable :: "string \<Rightarrow> bool" where
  "printable s = list_all (\<lambda>c. 32 \<le> (of_char c :: nat) \<and> (of_char c :: nat) < 127) s"

lemma printable_bytes:
  assumes "printable s" and "b \<in> set (str_bytes s)"
  shows "32 \<le> unat b \<and> unat b < 127"
proof -
  from assms(2) obtain c where c: "c \<in> set s" "b = word_of_nat (of_char c)" by (auto simp: str_bytes_def)
  then have "unat b = of_char c" using of_char_lt [of c] by (simp add: unat_of_nat)
  with assms(1) c show ?thesis by (simp add: printable_def list_all_iff)
qed

lemma read_line_bytes:
  assumes "\<And>b. b \<in> set bs \<Longrightarrow> b \<noteq> 10" and "length buf + length bs + 2 \<le> MAX_COMMAND_BYTES"
  shows "read_line_loop d buf (map CtrlByte bs @ CtrlByte 13 # CtrlByte 10 # rest) =
    (Some (from_utf8_lossy (chomp (buf @ bs @ [13, 10]))), rest)"
  using assms
proof (induction bs arbitrary: buf)
  case (Cons b bs)
  from Cons.IH [of "buf @ [b]"] Cons.prems show ?case by simp
qed simp

text \<open>A line of printable characters that fits comes through as it was typed.\<close>

lemma read_line_typed:
  assumes "printable s" and "length s + 2 \<le> MAX_COMMAND_BYTES"
  shows "read_line now (typed s @ rest) = (Some s, rest)"
proof -
  have ne: "b \<noteq> 10 \<and> b \<noteq> 13 \<and> unat b < 128" if "b \<in> set (str_bytes s)" for b
    using printable_bytes [OF assms(1) that] by auto
  then have "dropWhile (\<lambda>b. b = 10 \<or> b = 13) (rev (str_bytes s)) = rev (str_bytes s)"
    by (cases "str_bytes s" rule: rev_cases) auto
  then have "chomp (str_bytes s @ [13, 10]) = str_bytes s" by (simp add: chomp_def)
  moreover have "utf8_valid (str_bytes s)" using ne by (intro utf8_valid_ascii) (simp add: list_all_iff)
  ultimately show ?thesis
    using read_line_bytes [of "str_bytes s" "[]" _ rest] ne assms(2)
    by (simp add: read_line_def typed_def from_utf8_lossy_def utf8_lossy_valid)
qed

lemma ctrl_typed:
  assumes "printable s" and "length s + 2 \<le> MAX_COMMAND_BYTES" and "s \<noteq> []" and "\<not> stop n"
  shows "ctrl_commands clock stop n (typed s @ rest) = parse_command s # ctrl_commands clock stop (Suc n) rest"
  using assms by (subst ctrl_commands.simps) (simp add: read_line_typed)

lemma ctrl_none: "ctrl_commands clock stop n [] = []"
  by (subst ctrl_commands.simps) (simp add: read_line_def)

definition sample_input :: "ctrl_event list" where
  "sample_input = typed ''USER vita'' @ typed ''PASS pw'' @ typed ''DELE a'' @ []"

lemma sample_commands:
  "ctrl_commands (\<lambda>_. 0) (\<lambda>_. False) 0 sample_input = [User ''vita'', Pass ''pw'', Dele ''a'']"
  by (simp add: sample_input_def ctrl_typed ctrl_none sample_parse_user sample_parse_pass sample_parse_dele printable_def MAX_COMMAND_BYTES_def del: append_Nil2)

lemma sample_handle:
  "s_calls (ftp_handle sample_env sample_cfg (\<lambda>_. 0) (\<lambda>_. False) sample_input sample_session) = [CallRemove ''ux0:/data/a'']"
proof -
  have "reply sample_env 220 ''ts-ftp ready'' sample_session =
      (sample_session\<lparr>s_replies := [reply_line 220 ''ts-ftp ready'']\<rparr>, Inr ())"
    by (simp add: reply_def send_ctrl_def sample_env_def sample_session_def session_new_def)
  then show ?thesis
    by (simp add: ftp_handle_def handle_loop_is_run sample_commands sample_calls del: ftp_run.simps)
qed

text \<open>
  C35: Whatever a client sends and whatever the network and the file system answer, a session
  of a server without device paths asks for files only inside its root (but for the temporary
  file of an upload addressed to the root itself), changes nothing when the server is
  read-only, and asks for nothing at all unless the configured user name and password were
  sent in that order.
\<close>

theorem ftp_session_confined:
  assumes "\<not> cfg_allow_device_paths cfg"
  shows "(let root = trim_end_char (CHR ''/'') (cfg_root cfg);
              calls = s_calls (ftp_handle env cfg clock stop evs (session_new cfg peer i port ip w))
          in list_all (\<lambda>c. list_all (\<lambda>p. jailed root p \<or> (\<exists>j. p = partial_name root j)) (call_paths c) \<and>
                           (cfg_read_only cfg \<longrightarrow> \<not> call_mutates c)) calls \<and>
             (calls \<noteq> [] \<longrightarrow> logs_in cfg (ctrl_commands clock stop 0 evs)))"
proof -
  let ?s = "ftp_handle env cfg clock stop evs (session_new cfg peer i port ip w)"
  let ?root = "trim_end_char (CHR ''/'') (cfg_root cfg)"
  from session_new_ok [OF assms] have "session_ok ?root (cfg_read_only cfg) (None, False) (session_new cfg peer i port ip w)"
    by (simp add: vfs_new_def)
  from ftp_handle_ok [OF this] obtain k where
    k: "session_ok ?root (cfg_read_only cfg) (fold (login_step cfg) (take k (ctrl_commands clock stop 0 evs)) (None, False)) ?s"
    by blast
  have calls: "list_all (call_ok ?root (cfg_read_only cfg)) (s_calls ?s)"
    using k unfolding session_ok_def by blast
  have "s_calls ?s = [] \<or> snd (fold (login_step cfg) (take k (ctrl_commands clock stop 0 evs)) (None, False))"
    using k unfolding session_ok_def by blast
  then have "s_calls ?s \<noteq> [] \<longrightarrow> logs_in cfg (ctrl_commands clock stop 0 evs)"
    unfolding logs_in_def using logs_in_take by blast
  with calls show ?thesis unfolding Let_def call_ok_def path_allowed_def by blast
qed


theorem ftp_session_confined_witness:
  "s_calls (ftp_handle sample_env sample_cfg (\<lambda>_. 0) (\<lambda>_. False) sample_input sample_session) = [CallRemove ''ux0:/data/a''] \<and>
   (jailed ''ux0:/data'' ''ux0:/data/a'' \<or> (\<exists>j. ''ux0:/data/a'' = partial_name ''ux0:/data'' j)) \<and>
   logs_in sample_cfg [User ''vita'', Pass ''pw'', Dele ''a'']"
proof -
  have cfg: "\<not> cfg_allow_device_paths sample_cfg" by (simp add: sample_cfg_def ftp_config_default_def)
  have root: "trim_end_char (CHR ''/'') (cfg_root sample_cfg) = ''ux0:/data''"
    by (simp add: sample_cfg_def trim_end_char_def)
  show ?thesis
    using ftp_session_confined [OF cfg, of sample_env "\<lambda>_. 0" "\<lambda>_. False" sample_input "IpV4 1" 0 30000 "Some 1" sample_world]
    unfolding sample_session_def [symmetric] Let_def sample_handle sample_commands root by simp
qed

text \<open>
  How much an upload may append, whatever the client sends: the sum over the logged calls.
\<close>

definition appended :: "fs_call list \<Rightarrow> nat" where
  "appended cs = sum_list (map (\<lambda>c. case c of CallAppend _ n \<Rightarrow> n | _ \<Rightarrow> 0) cs)"

lemma appended_simps [simp]:
  "appended [] = 0" "appended (cs @ ds) = appended cs + appended ds" "appended [CallAppend p n] = n"
  "appended [CallWrite p] = 0" "appended [CallRename p q] = 0" "appended [CallRemove p] = 0"
  by (simp_all add: appended_def)

lemma calls_reply [simp]: "s_calls (fst (reply env n t s)) = s_calls s"
  by (simp add: reply_def send_ctrl_def)

lemma calls_with_fs: "with_fs c f s = (s', r) \<Longrightarrow> s_calls s' = s_calls s @ [c]"
  by (auto simp: with_fs_def split: prod.splits)

lemma calls_reply_pair: "reply env n t s = (s', r) \<Longrightarrow> s_calls s' = s_calls s"
  using calls_reply [of env n t s] by simp

lemma calls_with_data:
  assumes "\<And>d s'. s_calls s' = s_calls s \<Longrightarrow> s_max_transfer_bytes s' = s_max_transfer_bytes s \<Longrightarrow> P (s_calls (fst (f d s')))"
    and "P (s_calls s)"
  shows "P (s_calls (fst (with_data env txt f s)))"
proof (cases "s_pasv s")
  case (Some p)
  obtain s1 r where r: "reply env 150 txt (s\<lparr>s_pasv := None\<rparr>) = (s1, r)" by (cases "reply env 150 txt (s\<lparr>s_pasv := None\<rparr>)")
  then have s1: "s_calls s1 = s_calls s" "s_max_transfer_bytes s1 = s_max_transfer_bytes s"
    by (auto simp: reply_def send_ctrl_def)
  show ?thesis
  proof (cases r)
    case (Inr u)
    with Some r s1 assms show ?thesis
      by (cases "accept_timeout env (s_accepts s1)") (simp_all add: with_data_def)
  qed (use Some r s1 assms in \<open>simp add: with_data_def\<close>)
qed (use assms in \<open>simp add: with_data_def\<close>)

lemma stream_chunks_bounded:
  "mx < 2 ^ 64 - 1 \<Longrightarrow> got \<le> mx \<Longrightarrow>
   appended (s_calls (fst (stream_chunks fs p mx got rs s))) \<le> appended (s_calls s) + (mx - got)"
proof (induction fs p mx got rs s rule: stream_chunks.induct)
  case (3 fs p mx got chunk rs s)
  let ?c = "with_fs (CallAppend p (length chunk)) (fs_append fs p chunk) s"
  obtain s1 r where r: "?c = (s1, r)" by (cases ?c)
  note s1 = calls_with_fs [OF r]
  show ?case
  proof (cases "chunk = [] \<or> mx < min (got + length chunk) (2 ^ 64 - 1)")
    case False
    with 3(2) have got: "min (got + length chunk) (2 ^ 64 - 1) = got + length chunk" "got + length chunk \<le> mx" by auto
    show ?thesis
    proof (cases r)
      case (Inl e)
      with False r s1 got show ?thesis by (simp add: Let_def)
    next
      case (Inr u)
      with 3(1) [OF _ refl _ r [symmetric] Inr] False got 3(2) r s1 show ?thesis by (simp add: Let_def)
    qed
  qed (auto simp: Let_def)
qed simp_all
lemma stream_to_file_bounded:
  assumes "mx < 2 ^ 64 - 1" and "stream_to_file fs d p mx s = (s', r)"
  shows "appended (s_calls s') \<le> appended (s_calls s) + mx"
proof -
  obtain s1 q where q: "with_fs (CallWrite p) (fs_write fs p []) s = (s1, q)"
    by (cases "with_fs (CallWrite p) (fs_write fs p []) s")
  then show ?thesis
    using assms calls_with_fs [OF q] stream_chunks_bounded [of mx 0 fs p "data_reads d" s1]
    by (cases q) (auto simp: stream_to_file_def)
qed

lemma calls_fst_fs [simp]: "s_calls (fst (with_fs c f s)) = s_calls s @ [c]"
  by (simp add: with_fs_def split: prod.splits)

lemma store_upload_bounded:
  assumes "s_max_transfer_bytes s < 2 ^ 64 - 1"
  shows "appended (s_calls (fst (store_upload env real d s))) \<le> appended (s_calls s) + s_max_transfer_bytes s"
proof -
  let ?fs = "env_fs env" and ?part = "partial_name real (s_partial_seq s)"
  let ?f = "stream_to_file ?fs d ?part (s_max_transfer_bytes s) (s\<lparr>s_partial_seq := s_partial_seq s + 1\<rparr>)"
  obtain s1 r where r: "?f = (s1, r)" by (cases ?f)
  from stream_to_file_bounded [OF assms r] have s1: "appended (s_calls s1) \<le> appended (s_calls s) + s_max_transfer_bytes s" by simp
  obtain s2 q where q: "with_fs (CallRename ?part real) (fs_rename ?fs ?part real) s1 = (s2, q)"
    by (cases "with_fs (CallRename ?part real) (fs_rename ?fs ?part real) s1")
  from s1 calls_with_fs [OF q] r q show ?thesis
    by (cases r; cases q) (simp_all add: store_upload_def Let_def appended_def)
qed

text \<open>
  C36: An upload never appends more than the configured limit to its temporary file, whatever
  the client sends and however the session was used before (the limit itself must leave
  room to be exceeded in a 64-bit counter).
\<close>

theorem ftp_upload_bounded:
  fixes s :: "'w session"
  assumes "s_max_transfer_bytes s < 2 ^ 64 - 1"
  shows "appended (s_calls (fst (do_stor env arg s))) \<le> appended (s_calls s) + s_max_transfer_bytes s"
proof (cases "s_read_only s")
  case False
  have "appended (s_calls (fst (with_data env ''ready to receive'' (store_upload env real) s)))
      \<le> appended (s_calls s) + s_max_transfer_bytes s" for real
  proof (rule calls_with_data [where P = "\<lambda>cs. appended cs \<le> appended (s_calls s) + s_max_transfer_bytes s"])
    fix d and s' :: "'w session"
    assume "s_calls s' = s_calls s" "s_max_transfer_bytes s' = s_max_transfer_bytes s"
    then show "appended (s_calls (fst (store_upload env real d s'))) \<le> appended (s_calls s) + s_max_transfer_bytes s"
      using store_upload_bounded [of s' env real d] assms by simp
  qed simp
  with False show ?thesis by (auto simp: do_stor_def with_path_def split: option.splits)
qed (simp add: do_stor_def)

text \<open>An upload in progress: logged in, with a data port open.\<close>

definition sample_upload :: "mem_state session" where
  "sample_upload = sample_session\<lparr>s_authed := True, s_pasv := Some 30000, s_max_transfer_bytes := 2\<rparr>"

theorem ftp_upload_bounded_witness:
  "appended (s_calls (fst (do_stor sample_env ''b'' sample_upload))) \<le> 2"
proof -
  have "s_max_transfer_bytes sample_upload < 2 ^ 64 - 1" "s_calls sample_upload = []" "s_max_transfer_bytes sample_upload = 2"
    by (simp_all add: sample_upload_def sample_session_def session_new_def)
  then show ?thesis using ftp_upload_bounded [of sample_upload sample_env "''b''"] by simp
qed

text \<open>Calls are only added.\<close>

lemma calls_stream: "set (s_calls s) \<subseteq> set (s_calls (fst (stream_chunks fs p mx got rs s)))"
proof (induction fs p mx got rs s rule: stream_chunks.induct)
  case (3 fs p mx got chunk rs s)
  let ?c = "with_fs (CallAppend p (length chunk)) (fs_append fs p chunk) s"
  obtain s1 r where r: "?c = (s1, r)" by (cases ?c)
  from calls_with_fs [OF r] have "set (s_calls s) \<subseteq> set (s_calls s1)" by auto
  with 3 r show ?case by (cases r) (fastforce simp: Let_def)+
qed simp_all

lemma calls_store:
  "CallWrite (partial_name real (s_partial_seq s)) \<in> set (s_calls (fst (store_upload env real d s)))"
proof -
  let ?fs = "env_fs env" and ?part = "partial_name real (s_partial_seq s)"
  let ?s = "s\<lparr>s_partial_seq := s_partial_seq s + 1\<rparr>"
  obtain s0 w where w: "with_fs (CallWrite ?part) (fs_write ?fs ?part []) ?s = (s0, w)"
    by (cases "with_fs (CallWrite ?part) (fs_write ?fs ?part []) ?s")
  then have s0: "CallWrite ?part \<in> set (s_calls s0)" using calls_with_fs [OF w] by simp
  obtain s1 r where r: "stream_to_file ?fs d ?part (s_max_transfer_bytes s) ?s = (s1, r)"
    by (cases "stream_to_file ?fs d ?part (s_max_transfer_bytes s) ?s")
  with w s0 have s1: "CallWrite ?part \<in> set (s_calls s1)"
    using calls_stream [of s0 ?fs ?part "s_max_transfer_bytes s" 0 "data_reads d"]
    by (cases w) (auto simp: stream_to_file_def)
  obtain s2 q where q: "with_fs (CallRename ?part real) (fs_rename ?fs ?part real) s1 = (s2, q)"
    by (cases "with_fs (CallRename ?part real) (fs_rename ?fs ?part real) s1")
  from s1 calls_with_fs [OF q] r q show ?thesis by (cases r; cases q) (simp_all add: store_upload_def Let_def)
qed

lemma partial_root_outside: "\<not> jailed root (partial_name root i)"
  by (auto simp: jailed_def partial_name_def)






end
