(* ===== verification/Taildrop.thy ===== *)
theory Taildrop
  imports Vita_Fs Net_Addr Serve
begin

unbundle bit_operations_syntax

text \<open>
  Receiving files, \<open>crates/ts-peerapi\<close>: the checks on a name in \<open>name.rs\<close>, the reading of
  a request in \<open>http.rs\<close>, and the handler of \<open>handler.rs\<close> that streams a body into a
  temporary file and moves it to a free name. The parser of request heads is the package
  \<open>httparse\<close>, a parameter; files are the operations of \<open>vita-fs\<close>.
\<close>

section \<open>Names\<close>

datatype name_error = EmptyName | DotOrDotDot | Separator | Control | TooLong | BadEncoding

definition MAX_NAME_BYTES :: nat where "MAX_NAME_BYTES = 255"
definition MAX_COLLISION :: nat where "MAX_COLLISION = 100"

definition hex_val :: "u8 \<Rightarrow> u8 option" where
  "hex_val b =
     (if 48 \<le> b \<and> b \<le> 57 then Some (b - 48)
      else if 97 \<le> b \<and> b \<le> 102 then Some (b - 97 + 10)
      else if 65 \<le> b \<and> b \<le> 70 then Some (b - 65 + 10)
      else None)"

fun percent_decode_once :: "bytes \<Rightarrow> name_error + bytes" where
  "percent_decode_once [] = Inr []"
| "percent_decode_once (b # rest) =
     (if b = 37 then
        (case rest of
           h # l # rest' \<Rightarrow>
             and_then (ok_or (hex_val h) BadEncoding) (\<lambda>hi.
             and_then (ok_or (hex_val l) BadEncoding) (\<lambda>lo.
             and_then (percent_decode_once rest') (\<lambda>out. Inr (((push_bit 4 hi) OR lo) # out))))
         | _ \<Rightarrow> Inl BadEncoding)
      else and_then (percent_decode_once rest) (\<lambda>out. Inr (b # out)))"

fun validate_bytes :: "bytes \<Rightarrow> name_error + unit" where
  "validate_bytes [] = Inr ()"
| "validate_bytes (b # bs) =
     (if b = 47 \<or> b = 92 \<or> b = 58 then Inl Separator
      else if b \<le> 0x1F \<or> b = 0x7F then Inl Control
      else validate_bytes bs)"

definition validate_name :: "string \<Rightarrow> name_error + unit" where
  "validate_name name =
     (if name = [] then Inl EmptyName
      else if name = ''.'' \<or> name = ''..'' then Inl DotOrDotDot
      else if MAX_NAME_BYTES < length name then Inl TooLong
      else validate_bytes (str_bytes name))"

definition sanitize_filename :: "string \<Rightarrow> name_error + string" where
  "sanitize_filename raw =
     and_then (percent_decode_once (str_bytes raw)) (\<lambda>decoded.
     and_then (ok_or (from_utf8 decoded) BadEncoding) (\<lambda>name.
     and_then (validate_name name) (\<lambda>_. Inr name)))"

definition split_stem_ext :: "string \<Rightarrow> string \<times> string" where
  "split_stem_ext name =
     (case str_rfind (CHR ''.'') name of
        Some i \<Rightarrow> if 0 < i then (take i name, drop i name) else (name, [])
      | None \<Rightarrow> (name, []))"

definition numbered :: "string \<Rightarrow> nat \<Rightarrow> string" where
  "numbered base n = (case split_stem_ext base of (stem, ext) \<Rightarrow> stem @ '' ('' @ show_nat n @ '')'' @ ext)"

definition next_free_name :: "string \<Rightarrow> string list \<Rightarrow> string option" where
  "next_free_name base existing =
     (if base \<notin> set existing then Some base
      else find (\<lambda>c. c \<notin> set existing) (map (numbered base) [1..<Suc MAX_COLLISION]))"

section \<open>Requests\<close>

datatype http_error = HttpIo io_error | BadRequest string | HeadTooLarge | Incomplete

record request_head =
  rh_method :: string
  rh_path :: string
  rh_content_length :: "nat option"
  rh_leftover :: bytes

text \<open>What the head parser answers: method, target and headers, or why not.\<close>

datatype parsed =
    Complete "string option" "string option" "(string \<times> bytes) list"
  | PartialHead
  | Malformed

definition MAX_HEAD_BYTES :: nat where "MAX_HEAD_BYTES = 8 * 1024"
definition BODY_CHUNK :: nat where "BODY_CHUNK = 32 * 1024"

text \<open>
  A read of at most \<open>n\<close> bytes from a connection: what it has received is a list of pieces
  and errors, and at its end it is closed.
\<close>

type_synonym inbox = "(io_error + bytes) list"

fun read_some :: "nat \<Rightarrow> inbox \<Rightarrow> (io_error + bytes) \<times> inbox" where
  "read_some n [] = (Inr [], [])"
| "read_some n (Inl e # rs) = (Inl e, rs)"
| "read_some n (Inr bs # rs) = (if length bs \<le> n then (Inr bs, rs) else (Inr (take n bs), Inr (drop n bs) # rs))"

definition crlfcrlf :: bytes where
  "crlfcrlf = [13, 10, 13, 10]"

function read_head_loop :: "bytes \<Rightarrow> inbox \<Rightarrow> (http_error + bytes \<times> nat) \<times> inbox" where
  "read_head_loop buf rs =
     (if MAX_HEAD_BYTES \<le> length buf then (Inl HeadTooLarge, rs)
      else (case read_some 1024 rs of
              (Inl e, rs) \<Rightarrow>
                (if e = WouldBlock \<or> e = TimedOut then (Inl (BadRequest ''head read timeout''), rs)
                 else (Inl (HttpIo e), rs))
            | (Inr bs, rs) \<Rightarrow>
                if bs = [] then (Inl (BadRequest ''eof before head end''), rs)
                else
                  let buf' = buf @ bs; scan_start = length buf' - (length bs + 3)
                  in (case find_window crlfcrlf (drop scan_start buf') of
                        Some idx \<Rightarrow> (Inr (buf', scan_start + idx), rs)
                      | None \<Rightarrow> read_head_loop buf' rs)))"
  by auto
termination
  by (relation "measure (\<lambda>(buf, rs). MAX_HEAD_BYTES - length buf)") (auto intro!: diff_less_mono2)

declare read_head_loop.simps [simp del]

definition content_length_of :: "(string \<times> bytes) list \<Rightarrow> nat option" where
  "content_length_of hs =
     Option.bind (find (\<lambda>h. eq_ignore_ascii_case (fst h) ''content-length'') hs) (\<lambda>h.
     Option.bind (from_utf8 (snd h)) (\<lambda>s. parse_uint 64 (trim s)))"

definition read_head :: "(bytes \<Rightarrow> parsed) \<Rightarrow> inbox \<Rightarrow> (http_error + request_head) \<times> inbox" where
  "read_head httparse rs =
     (case read_head_loop [] rs of
        (Inl e, rs) \<Rightarrow> (Inl e, rs)
      | (Inr (buf, header_end), rs) \<Rightarrow>
          ((case httparse (take (header_end + 4) buf) of
             PartialHead \<Rightarrow> Inl (BadRequest ''incomplete head'')
           | Malformed \<Rightarrow> Inl (BadRequest ''malformed head'')
           | Complete m t hs \<Rightarrow>
               and_then (ok_or m (BadRequest ''missing method'')) (\<lambda>meth.
               and_then (ok_or t (BadRequest ''missing path'')) (\<lambda>target.
               Inr \<lparr>rh_method = meth, rh_path = split_on (CHR ''?'') target ! 0,
                    rh_content_length = content_length_of hs, rh_leftover = drop (header_end + 4) buf\<rparr>))), rs))"

text \<open>The body, piece by piece, into a sink on the state.\<close>

function stream_rest ::
  "(bytes \<Rightarrow> 'w \<Rightarrow> 'w \<times> (io_error + unit)) \<Rightarrow> nat \<Rightarrow> inbox \<Rightarrow> 'w \<Rightarrow> 'w \<times> (http_error + unit)" where
  "stream_rest sink remaining rs w =
     (if remaining = 0 then (w, Inr ())
      else (case read_some (min BODY_CHUNK remaining) rs of
              (Inl e, rs) \<Rightarrow> (w, Inl (if e = WouldBlock \<or> e = TimedOut then Incomplete else HttpIo e))
            | (Inr bs, rs) \<Rightarrow>
                if bs = [] then (w, Inl Incomplete)
                else (case sink bs w of
                        (w, Inl e) \<Rightarrow> (w, Inl (HttpIo e))
                      | (w, Inr _) \<Rightarrow> stream_rest sink (remaining - length bs) rs w)))"
  by auto
termination
  by (relation "measure (\<lambda>(sink, remaining, rs, w). remaining)") auto

declare stream_rest.simps [simp del]

definition stream_body ::
  "(bytes \<Rightarrow> 'w \<Rightarrow> 'w \<times> (io_error + unit)) \<Rightarrow> bytes \<Rightarrow> nat \<Rightarrow> inbox \<Rightarrow> 'w \<Rightarrow> 'w \<times> (http_error + nat)" where
  "stream_body sink initial content_length rs w =
     (let done = (\<lambda>(w, r). (w, and_then r (\<lambda>_. Inr content_length)))
      in if initial \<noteq> [] \<and> 0 < content_length then
           (case sink (take content_length initial) w of
              (w, Inl e) \<Rightarrow> (w, Inl (HttpIo e))
            | (w, Inr _) \<Rightarrow> done (stream_rest sink (content_length - length initial) rs w))
         else done (stream_rest sink content_length rs w))"

section \<open>The handler\<close>

record taildrop_config =
  td_enabled :: bool
  td_dir :: string
  td_port :: u16
  td_max_size :: nat

definition taildrop_config_default :: taildrop_config where
  "taildrop_config_default =
     \<lparr>td_enabled = False, td_dir = ''ux0:/data/tailscale-vita/taildrop'', td_port = 8098, td_max_size = 268435456\<rparr>"

record taildrop_report =
  rep_name :: string
  rep_size :: nat
  rep_sender :: sock_addr
  rep_status :: string

text \<open>What the connections share, and the files.\<close>

record 'w td_ctx =
  td_in_flight :: nat
  td_partial_seq :: u64
  td_reports :: "taildrop_report list"
  td_world :: 'w

definition MAX_CONNS :: nat where "MAX_CONNS = 6"

definition PUT_PREFIX :: string where "PUT_PREFIX = ''/v0/put/''"

definition path_join :: "string \<Rightarrow> string \<Rightarrow> string" where
  "path_join d n =
     (if starts_with ''/'' n \<or> d = [] then n else if ends_with ''/'' d then d @ n else d @ ''/'' @ n)"

definition report :: "sock_addr \<Rightarrow> string \<Rightarrow> nat \<Rightarrow> string \<Rightarrow> 'w td_ctx \<Rightarrow> 'w td_ctx" where
  "report peer name len status c =
     c\<lparr>td_reports := td_reports c @ [\<lparr>rep_name = name, rep_size = len, rep_sender = peer, rep_status = status\<rparr>]\<rparr>"

definition reserve_in_flight :: "taildrop_config \<Rightarrow> nat \<Rightarrow> 'w td_ctx \<Rightarrow> 'w td_ctx option" where
  "reserve_in_flight cfg n c =
     (let nxt = td_in_flight c + n
      in if 2 ^ 64 \<le> nxt \<or> td_max_size cfg < nxt then None else Some (c\<lparr>td_in_flight := nxt\<rparr>))"

definition release :: "nat \<Rightarrow> 'w td_ctx \<Rightarrow> 'w td_ctx" where
  "release n c = c\<lparr>td_in_flight := td_in_flight c - n\<rparr>"

definition dir_names :: "'w fs_ops \<Rightarrow> string \<Rightarrow> 'w \<Rightarrow> 'w \<times> string list" where
  "dir_names fs d w =
     (case fs_read_dir fs d w of (w, Inr es) \<Rightarrow> (w, map ent_name es) | (w, Inl _) \<Rightarrow> (w, []))"

definition entry_size :: "'w fs_ops \<Rightarrow> string \<Rightarrow> string \<Rightarrow> 'w \<Rightarrow> 'w \<times> nat option" where
  "entry_size fs d name w =
     (case fs_read_dir fs d w of
        (w, Inr es) \<Rightarrow> (w, map_option ent_size (find (\<lambda>e. ent_name e = name \<and> \<not> ent_is_dir e) es))
      | (w, Inl _) \<Rightarrow> (w, None))"

definition finalize :: "'w fs_ops \<Rightarrow> string \<Rightarrow> string \<Rightarrow> string \<Rightarrow> nat \<Rightarrow> 'w \<Rightarrow> 'w \<times> (io_error + string)" where
  "finalize fs d part name expect_bytes w =
     (case dir_names fs d w of
        (w, existing) \<Rightarrow>
          (case next_free_name name existing of
             None \<Rightarrow> (w, Inl AlreadyExists)
           | Some final_name \<Rightarrow>
               (case fs_rename fs part (path_join d final_name) w of
                  (w, Inl e) \<Rightarrow> (w, Inl e)
                | (w, Inr _) \<Rightarrow>
                    (case entry_size fs d final_name w of
                       (w, Some len) \<Rightarrow> if expect_bytes \<le> len then (w, Inr final_name) else (w, Inl Unspecified)
                     | (w, None) \<Rightarrow> (w, Inl Unspecified)))))"

definition partial_path :: "taildrop_config \<Rightarrow> u64 \<Rightarrow> string" where
  "partial_path cfg i = path_join (td_dir cfg) (''.taildrop-'' @ show_hex16 i @ ''.partial'')"

text \<open>Create the temporary file, stream the body into it, move it to its name.\<close>

definition receive_file ::
  "'w fs_ops \<Rightarrow> taildrop_config \<Rightarrow> sock_addr \<Rightarrow> string \<Rightarrow> nat \<Rightarrow> bytes \<Rightarrow> inbox \<Rightarrow> 'w td_ctx \<Rightarrow> 'w td_ctx \<times> nat" where
  "receive_file fs cfg peer name n leftover rs c =
     (let part = partial_path cfg (td_partial_seq c);
          at = (\<lambda>w. c\<lparr>td_partial_seq := td_partial_seq c + 1, td_world := w\<rparr>)
      in case fs_write fs part [] (td_world c) of
           (w, Inl _) \<Rightarrow> (report peer name 0 ''error: partial create'' (at w), 500)
         | (w, Inr _) \<Rightarrow>
             (case stream_body (fs_append fs part) leftover n rs w of
                (w, Inl e) \<Rightarrow>
                  let status = (case e of HttpIo _ \<Rightarrow> 500 | _ \<Rightarrow> 400)
                  in (report peer name 0 (''error: body ('' @ show_nat status @ '')'') (at (fst (fs_remove_file fs part w))), status)
              | (w, Inr written) \<Rightarrow>
                  (case finalize fs (td_dir cfg) part name written w of
                     (w, Inr final_name) \<Rightarrow> (report peer final_name written ''ok'' (at w), 200)
                   | (w, Inl _) \<Rightarrow>
                       (report peer name written ''error: finalize'' (at (fst (fs_remove_file fs part w))), 500))))"

definition name_error_text :: "name_error \<Rightarrow> string" where
  "name_error_text e =
     (case e of EmptyName \<Rightarrow> ''Empty'' | DotOrDotDot \<Rightarrow> ''DotOrDotDot'' | Separator \<Rightarrow> ''Separator''
      | Control \<Rightarrow> ''Control'' | TooLong \<Rightarrow> ''TooLong'' | BadEncoding \<Rightarrow> ''BadEncoding'')"

definition put_file ::
  "'w fs_ops \<Rightarrow> taildrop_config \<Rightarrow> sock_addr \<Rightarrow> request_head \<Rightarrow> inbox \<Rightarrow> string \<Rightarrow> 'w td_ctx \<Rightarrow> 'w td_ctx \<times> nat" where
  "put_file fs cfg peer head rs escaped c =
     (case sanitize_filename escaped of
        Inl e \<Rightarrow> (report peer escaped 0 (''rejected: '' @ name_error_text e) c, 400)
      | Inr name \<Rightarrow>
          (case rh_content_length head of
             None \<Rightarrow> (c, 411)
           | Some n \<Rightarrow>
               if td_max_size cfg < n then (report peer name n ''rejected: too_big'' c, 413)
               else (case reserve_in_flight cfg n c of
                       None \<Rightarrow> (report peer name n ''rejected: in_flight_limit'' c, 503)
                     | Some c \<Rightarrow>
                         (case receive_file fs cfg peer name n (rh_leftover head) rs c of
                            (c, status) \<Rightarrow> (release n c, status)))))"

definition taildrop_handle ::
  "(bytes \<Rightarrow> parsed) \<Rightarrow> 'w fs_ops \<Rightarrow> taildrop_config \<Rightarrow> sock_addr \<Rightarrow> inbox \<Rightarrow> 'w td_ctx \<Rightarrow> 'w td_ctx \<times> nat" where
  "taildrop_handle httparse fs cfg peer rs c =
     (case read_head httparse rs of
        (Inl _, _) \<Rightarrow> (c, 400)
      | (Inr head, rs) \<Rightarrow>
          if \<not> eq_ignore_ascii_case (rh_method head) ''PUT'' then (c, 405)
          else (case strip_prefix PUT_PREFIX (rh_path head) of
                  None \<Rightarrow> (c, 400)
                | Some escaped \<Rightarrow> put_file fs cfg peer head rs escaped c))"

definition reason_phrase :: "nat \<Rightarrow> string" where
  "reason_phrase status =
     (if status = 200 then ''OK'' else if status = 400 then ''Bad Request''
      else if status = 405 then ''Method Not Allowed'' else if status = 409 then ''Conflict''
      else if status = 411 then ''Length Required'' else if status = 413 then ''Payload Too Large''
      else if status = 500 then ''Internal Server Error'' else if status = 503 then ''Service Unavailable''
      else ''Unknown'')"

definition response_head :: "nat \<Rightarrow> string" where
  "response_head status =
     ''HTTP/1.1 '' @ show_nat status @ '' '' @ reason_phrase status @ [CHR 0x0D, CHR 0x0A] @
     ''Content-Length: 0'' @ [CHR 0x0D, CHR 0x0A] @ ''Connection: close'' @ [CHR 0x0D, CHR 0x0A, CHR 0x0D, CHR 0x0A]"

text \<open>A connection beyond the limit is answered with 503 by the loop itself.\<close>

definition td_accept_one :: "('a \<Rightarrow> bool) \<Rightarrow> 'a \<Rightarrow> bool \<Rightarrow> 'a list \<Rightarrow> 'a list \<times> nat option" where
  "td_accept_one is_done new spawned live =
     (case accept_bounded MAX_CONNS is_done new spawned live of
        (live, adm) \<Rightarrow> (live, if adm = Rejected then Some 503 else None))"

section \<open>Which names pass\<close>

definition safe_name :: "string \<Rightarrow> bool" where
  "safe_name n \<longleftrightarrow>
     n \<noteq> [] \<and> n \<noteq> ''.'' \<and> n \<noteq> ''..'' \<and> length n \<le> 255 \<and> utf8_valid (str_bytes n) \<and>
     list_all (\<lambda>b. b \<noteq> 47 \<and> b \<noteq> 92 \<and> b \<noteq> 58 \<and> 0x1F < b \<and> b \<noteq> 0x7F) (str_bytes n)"

lemma validate_bytes_iff:
  "validate_bytes bs = Inr () \<longleftrightarrow> list_all (\<lambda>b. b \<noteq> 47 \<and> b \<noteq> 92 \<and> b \<noteq> 58 \<and> 0x1F < b \<and> b \<noteq> 0x7F) bs"
  by (induction bs) (auto simp: not_le)

lemma validate_name_iff: "utf8_valid (str_bytes n) \<Longrightarrow> validate_name n = Inr () \<longleftrightarrow> safe_name n"
  by (simp add: validate_name_def safe_name_def validate_bytes_iff MAX_NAME_BYTES_def)

lemma sanitize_safe:
  assumes "sanitize_filename raw = Inr n"
  shows "safe_name n"
proof -
  from assms obtain bs where "from_utf8 bs = Some n" "validate_name n = Inr ()"
    by (auto simp: sanitize_filename_def result_iff)
  then show ?thesis using validate_name_iff [of n] by (auto simp: from_utf8_def split: if_splits)
qed

text \<open>The encoding a sender may use for any name: every byte escaped.\<close>

definition percent_encode :: "string \<Rightarrow> string" where
  "percent_encode n = concat (map (\<lambda>b. [CHR ''%'', digit_char (unat b div 16), digit_char (unat b mod 16)]) (str_bytes n))"

lemma hex_val_digit:
  assumes "d < 16"
  shows "hex_val (word_of_nat (of_char (digit_char d))) = Some (word_of_nat d)"
proof -
  from assms have "d = 0 \<or> d = 1 \<or> d = 2 \<or> d = 3 \<or> d = 4 \<or> d = 5 \<or> d = 6 \<or> d = 7 \<or> d = 8 \<or> d = 9 \<or>
    d = 10 \<or> d = 11 \<or> d = 12 \<or> d = 13 \<or> d = 14 \<or> d = 15" by presburger
  then show ?thesis by (elim disjE) (simp_all add: digit_char_def of_char_of hex_val_def)
qed

lemma nibbles: "push_bit 4 (word_of_nat (unat b div 16)) OR word_of_nat (unat b mod 16) = (b :: u8)"
proof -
  have "unat b div 16 = unat (drop_bit 4 b)" by (simp add: drop_bit_eq_div unat_div)
  then have hi: "word_of_nat (unat b div 16) = drop_bit 4 b" by simp
  have "unat b mod 16 = unat (take_bit 4 b)" by (simp add: take_bit_eq_mod unat_mod)
  then have lo: "word_of_nat (unat b mod 16) = take_bit 4 b" by simp
  show ?thesis unfolding hi lo by (rule bit_word_eqI) (auto simp: bit_simps)
qed

lemma decode_encode: "percent_decode_once (str_bytes (percent_encode n)) = Inr (str_bytes n)"
proof -
  have "percent_decode_once (str_bytes (concat (map (\<lambda>b. [CHR ''%'', digit_char (unat b div 16), digit_char (unat b mod 16)]) bs))) = Inr bs" for bs
  proof (induction bs)
    case (Cons b bs)
    have "unat b div 16 < 16" "unat b mod 16 < 16" using u8_unat_lt [of b] by auto
    note hex = hex_val_digit [OF this(1)] hex_val_digit [OF this(2)]
    from Cons hex nibbles [of b] show ?case by (simp add: str_bytes_def)
  qed (simp add: str_bytes_def)
  then show ?thesis by (simp add: percent_encode_def)
qed

text \<open>
  C40: The check of names is exact. Whatever the escaping, a name that passes is a plain file
  name: not empty, not a dot name, at most 255 bytes of valid UTF-8, without separators,
  device colons or control characters. And every such name can be sent and comes out
  unchanged.
\<close>

theorem sanitize_filename_exact:
  "(\<forall>raw n. sanitize_filename raw = Inr n \<longrightarrow> safe_name n) \<and>
   (\<forall>n. safe_name n \<longrightarrow> sanitize_filename (percent_encode n) = Inr n)"
proof (intro conjI allI impI)
  fix n
  assume n: "safe_name n"
  then have "utf8_valid (str_bytes n)" by (simp add: safe_name_def)
  with n show "sanitize_filename (percent_encode n) = Inr n"
    using validate_name_iff [of n] by (simp add: sanitize_filename_def decode_encode from_utf8_def)
qed (rule sanitize_safe)

theorem sanitize_filename_exact_witness:
  "sanitize_filename (percent_encode ''a b.txt'') = Inr ''a b.txt'' \<and> safe_name ''a b.txt''"
proof -
  have "safe_name ''a b.txt''"
    using utf8_valid_ascii [of "str_bytes ''a b.txt''"] by (simp add: safe_name_def str_bytes_def)
  then show ?thesis using sanitize_filename_exact by blast
qed

section \<open>Names and the file store\<close>


text \<open>A directory below which names join cleanly: no trailing slash, a colon last only after the device.\<close>

definition plain_dir :: "string \<Rightarrow> bool" where
  "plain_dir d \<longleftrightarrow> d \<noteq> [] \<and> last d \<noteq> CHR ''/'' \<and> (last d = CHR '':'' \<longrightarrow> CHR '':'' \<notin> set (butlast d))"

lemma str_bytes_mem: "c \<in> set n \<Longrightarrow> word_of_nat (of_char c) \<in> set (str_bytes n)"
  by (simp add: str_bytes_def)

lemma safe_entry: "safe_name n \<Longrightarrow> entry_name_ok n"
  using str_bytes_mem [of "CHR ''/''" n] str_bytes_mem [of "CHR '':''" n]
  by (auto simp: safe_name_def entry_name_ok_def list_all_iff)

lemma ends_with_last: "ends_with [c] s \<longleftrightarrow> s \<noteq> [] \<and> last s = c"
  by (cases s rule: rev_cases) (auto simp: ends_with_def)

lemma join_child:
  assumes "plain_dir d" and "entry_name_ok n"
  shows "norm (path_join d n) = child (norm d) n"
proof -
  from assms(2) obtain x n' where n: "n = x # n'" "x \<noteq> CHR ''/''" "CHR '':'' \<notin> set n"
    by (cases n) (auto simp: entry_name_ok_def)
  then have j: "path_join d n = d @ CHR ''/'' # n"
    using assms(1) by (auto simp: path_join_def starts_with_def plain_dir_def ends_with_last)
  show ?thesis
  proof (cases "CHR '':'' \<in> set d")
    case False
    then have "str_find (CHR '':'') d = None" "str_find (CHR '':'') (d @ CHR ''/'' # n) = None"
      using n(3) by (auto simp: str_find_def)
    moreover have "\<not> ends_with '':'' d" using False by (auto simp: ends_with_def suffix_def)
    ultimately show ?thesis by (simp add: norm_def child_def j)
  next
    case True
    then obtain a b where d: "d = a @ CHR '':'' # b" "CHR '':'' \<notin> set a" by (meson split_list_first)
    then have f: "str_find (CHR '':'') d = Some (length a)"
      "str_find (CHR '':'') (d @ CHR ''/'' # n) = Some (length a)" by (simp_all add: str_find_append)
    have b: "b = [] \<or> last b \<noteq> CHR '':'' \<and> last b \<noteq> CHR ''/''"
      using assms(1) d by (auto simp: plain_dir_def butlast_append split: if_splits)
    show ?thesis
    proof (cases b)
      case Nil
      then show ?thesis unfolding j using f d by (simp add: norm_def child_def nth_append ends_with_last)
    next
      case (Cons y b')
      then show ?thesis
        unfolding j using f d b by (cases "y = CHR ''/''"; cases "b' = []")
          (simp_all add: norm_def child_def nth_append ends_with_last)
    qed
  qed
qed

lemma split_stem_ext_parts:
  assumes "split_stem_ext base = (stem, ext)"
  shows "base = stem @ ext" and "ext = [] \<or> (\<exists>e. ext = CHR ''.'' # e)"
proof -
  have "base = stem @ ext \<and> (ext = [] \<or> (\<exists>e. ext = CHR ''.'' # e))"
  proof (cases "CHR ''.'' \<in> set base")
    case True
    then obtain a e where b: "base = a @ CHR ''.'' # e" "CHR ''.'' \<notin> set e" by (meson split_list_last)
    then show ?thesis using assms by (auto simp: split_stem_ext_def str_rfind_append split: if_splits)
  next
    case False
    then show ?thesis using assms by (simp add: split_stem_ext_def str_rfind_def)
  qed
  then show "base = stem @ ext" and "ext = [] \<or> (\<exists>e. ext = CHR ''.'' # e)" by simp_all
qed

lemma str_bytes_append [simp]: "str_bytes (a @ b) = str_bytes a @ str_bytes b"
  by (simp add: str_bytes_def)

lemma utf8_ascii_str: "list_all (\<lambda>c. (of_char c :: nat) < 128) s \<Longrightarrow> utf8_valid (str_bytes s)"
proof (rule utf8_valid_ascii)
  assume s: "list_all (\<lambda>c. (of_char c :: nat) < 128) s"
  have "unat (word_of_nat (of_char c) :: u8) = of_char c" for c :: char
    using of_char_lt [of c] by (simp add: unat_of_nat)
  with s show "list_all (\<lambda>b. unat b < 128) (str_bytes s)" by (simp add: str_bytes_def list_all_iff)
qed

lemma digit_val_code: "digit_val c \<noteq> None \<Longrightarrow> 48 \<le> (of_char c :: nat) \<and> (of_char c :: nat) \<le> 57"
  by (auto simp: digit_val_def Let_def split: if_splits)

lemma numbered_ok:
  assumes "entry_name_ok base"
  shows "entry_name_ok (numbered base k)"
proof -
  obtain stem ext where se: "split_stem_ext base = (stem, ext)" by (cases "split_stem_ext base")
  note parts = split_stem_ext_parts [OF se]
  let ?mid = "'' ('' @ show_nat k @ '')''"
  have num: "numbered base k = stem @ ?mid @ ext" by (simp add: numbered_def se)
  have digits: "48 \<le> (of_char c :: nat) \<and> (of_char c :: nat) \<le> 57" if "c \<in> set (show_nat k)" for c
    using show_nat_digits [OF that] by (rule digit_val_code)
  have mid: "CHR ''/'' \<notin> set ?mid" "CHR '':'' \<notin> set ?mid" using digits by fastforce+
  have "list_all (\<lambda>c. (of_char c :: nat) < 128) ?mid" using digits by (fastforce simp: list_all_iff)
  then have mv: "utf8_valid (str_bytes ?mid)" by (rule utf8_ascii_str)
  have ok: "utf8_valid (str_bytes stem @ str_bytes ext)" using assms parts(1) by (simp add: entry_name_ok_def)
  have "utf8_valid (str_bytes stem) \<and> utf8_valid (str_bytes ext)"
  proof (cases "ext = []")
    case False
    then obtain e where e: "ext = CHR ''.'' # e" using parts(2) by blast
    with ok have "utf8_valid (str_bytes stem @ word_of_nat (of_char (CHR ''.'')) # str_bytes e)"
      by (simp add: str_bytes_def)
    from utf8_valid_split [OF _ this] e show ?thesis by (simp add: str_bytes_def)
  qed (use ok in \<open>simp add: str_bytes_def utf8_valid.simps [of "[]"]\<close>)
  then have "utf8_valid (str_bytes (numbered base k))"
    unfolding num str_bytes_append using mv by (metis utf8_valid_append str_bytes_append)
  moreover have "length (numbered base k) \<ge> 3" unfolding num by simp
  ultimately show ?thesis
    using assms parts(1) mid unfolding entry_name_ok_def num by auto
qed

lemma next_free_ok:
  assumes "next_free_name base existing = Some n" and "entry_name_ok base"
  shows "entry_name_ok n \<and> n \<notin> set existing"
  using assms numbered_ok by (auto simp: next_free_name_def find_Some_iff simp del: upt_Suc split: if_splits)

section \<open>Receiving into a file store\<close>

text \<open>The bytes a connection gives before it fails or ends.\<close>

fun inbox_bytes :: "inbox \<Rightarrow> bytes" where
  "inbox_bytes [] = []"
| "inbox_bytes (Inl _ # _) = []"
| "inbox_bytes (Inr bs # rs) = (if bs = [] then [] else bs @ inbox_bytes rs)"

lemma read_some_bytes:
  assumes "read_some n rs = (Inr bs, rs')" and "bs \<noteq> []" and "0 < n"
  shows "inbox_bytes rs = bs @ inbox_bytes rs'" and "length bs \<le> n"
  using assms by (cases "(n, rs)" rule: read_some.cases; auto split: if_splits)+

context file_store
begin

lemma stream_rest_view:
  "stream_rest (fs_append fs p) n rs w = (w', r) \<Longrightarrow> view w (norm p) = Some c \<Longrightarrow>
   (\<forall>q. q \<noteq> norm p \<longrightarrow> view w' q = view w q) \<and>
   (r = Inr () \<longrightarrow> view w' (norm p) = Some (c @ take n (inbox_bytes rs)) \<and> n \<le> length (inbox_bytes rs))"
proof (induction n arbitrary: rs w c rule: less_induct)
  case (less n)
  show ?case
  proof (cases "n = 0")
    case True
    with less.prems show ?thesis by (auto simp: stream_rest.simps [of _ 0])
  next
    case n: False
    obtain q rs' where rd: "read_some (min BODY_CHUNK n) rs = (q, rs')" by (cases "read_some (min BODY_CHUNK n) rs")
    show ?thesis
    proof (cases q)
      case (Inl e)
      with less.prems n rd show ?thesis by (auto simp: stream_rest.simps [of _ n])
    next
      case (Inr bs)
      show ?thesis
      proof (cases "bs = []")
        case True
        with less.prems n rd Inr show ?thesis by (auto simp: stream_rest.simps [of _ n])
      next
        case bs: False
        have chunk: "0 < min BODY_CHUNK n" using n by (simp add: BODY_CHUNK_def)
        note got = read_some_bytes [OF rd [unfolded Inr] bs chunk]
        obtain w1 a where ap: "fs_append fs p bs w = (w1, a)" by (cases "fs_append fs p bs w")
        note frame = append_frame [OF ap]
        show ?thesis
        proof (cases a)
          case (Inl e)
          with less.prems n rd Inr bs ap frame show ?thesis by (auto simp: stream_rest.simps [of _ n])
        next
          case a: (Inr u)
          then have ap': "fs_append fs p bs w = (w1, Inr ())" using ap by simp
          from append_law [OF ap' less.prems(2)] have v1: "view w1 (norm p) = Some (c @ bs)" .
          have "stream_rest (fs_append fs p) (n - length bs) rs' w1 = (w', r)"
            using less.prems(1) n rd Inr bs ap a by (simp add: stream_rest.simps [of _ n])
          from less.IH [OF _ this v1] n bs
          have "(\<forall>q. q \<noteq> norm p \<longrightarrow> view w' q = view w1 q) \<and>
             (r = Inr () \<longrightarrow> view w' (norm p) = Some ((c @ bs) @ take (n - length bs) (inbox_bytes rs')) \<and>
                n - length bs \<le> length (inbox_bytes rs'))" by simp
          with frame got show ?thesis by auto
        qed
      qed
    qed
  qed
qed

lemma stream_body_view:
  assumes "stream_body (fs_append fs p) initial n rs w = (w', r)" and "view w (norm p) = Some []"
  shows "(\<forall>q. q \<noteq> norm p \<longrightarrow> view w' q = view w q) \<and>
    (\<forall>m. r = Inr m \<longrightarrow> m = n \<and> view w' (norm p) = Some (take n (initial @ inbox_bytes rs)) \<and>
       n \<le> length (initial @ inbox_bytes rs))"
proof (cases "initial \<noteq> [] \<and> 0 < n")
  case True
  obtain w1 a where ap: "fs_append fs p (take n initial) w = (w1, a)" by (cases "fs_append fs p (take n initial) w")
  note frame = append_frame [OF ap]
  show ?thesis
  proof (cases a)
    case (Inl e)
    with True assms ap frame show ?thesis by (auto simp: stream_body_def Let_def)
  next
    case (Inr u)
    then have ap': "fs_append fs p (take n initial) w = (w1, Inr ())" using ap by simp
    from append_law [OF ap' assms(2)] have v1: "view w1 (norm p) = Some (take n initial)" by simp
    obtain w2 b where st: "stream_rest (fs_append fs p) (n - length initial) rs w1 = (w2, b)"
      by (cases "stream_rest (fs_append fs p) (n - length initial) rs w1")
    from True assms(1) ap Inr st have "w' = w2" "r = and_then b (\<lambda>_. Inr n)" by (auto simp: stream_body_def Let_def)
    with stream_rest_view [OF st v1] frame show ?thesis by (cases b) auto
  qed
next
  case False
  obtain w2 b where st: "stream_rest (fs_append fs p) n rs w = (w2, b)" by (cases "stream_rest (fs_append fs p) n rs w")
  from False assms(1) st have "w' = w2" "r = and_then b (\<lambda>_. Inr n)" by (auto simp: stream_body_def Let_def)
  with stream_rest_view [OF st assms(2)] False show ?thesis by (cases b) auto
qed

lemma finalize_view:
  assumes "finalize fs d part name n w = (w', Inr final)"
    and d: "plain_dir d" and name: "entry_name_ok name" and listed: "\<exists>u es. fs_read_dir fs d w = (u, Inr es)"
    and part: "part = path_join d pn" "entry_name_ok pn" and body: "view w (norm part) = Some body"
  shows "(final = name \<or> (\<exists>k. final = numbered name k)) \<and> norm (path_join d final) \<noteq> norm part \<and>
    view w (norm (path_join d final)) = None \<and> view w' = (view w)(norm part := None, norm (path_join d final) \<mapsto> body)"
proof -
  from listed obtain w1 es where rd: "fs_read_dir fs d w = (w1, Inr es)" by blast
  then have v1: "view w1 = view w" by (rule read_dir_frame)
  from assms(1) rd obtain w2 where next_name: "next_free_name name (map ent_name es) = Some final"
    and rn: "fs_rename fs part (path_join d final) w1 = (w2, Inr ())" and sz: "w' = fst (entry_size fs d final w2)"
    by (auto simp: finalize_def dir_names_def split: option.splits prod.splits sum.splits if_splits)
  from next_free_ok [OF next_name name] have final: "entry_name_ok final" "final \<notin> set (map ent_name es)" by auto
  have listed': "view w (child (norm d) q) = None" if "entry_name_ok q" "q \<notin> set (map ent_name es)" for q
    using read_dir_complete [OF rd that(1)] that(2) by (cases "view w (child (norm d) q)") auto
  have none: "view w (norm (path_join d final)) = None"
    using listed' [OF final] join_child [OF d final(1)] by simp
  then have ne: "norm part \<noteq> norm (path_join d final)" using body by auto
  from rename_view [OF rn ne] v1 body have v2: "view w2 = (view w)(norm part := None, norm (path_join d final) \<mapsto> body)"
    by auto
  have "view w' = view w2"
    unfolding sz entry_size_def using read_dir_frame by (auto split: prod.splits sum.splits)
  moreover have "final = name \<or> (\<exists>k. final = numbered name k)"
    using next_name by (auto simp: next_free_name_def find_Some_iff simp del: upt_Suc split: if_splits)
  ultimately show ?thesis using v2 none ne by simp
qed

end

text \<open>Scanning only the end of a growing buffer finds the same place as scanning all of it.\<close>

lemma find_window_bound: "find_window w xs = Some i \<Longrightarrow> i + length w \<le> length xs"
  by (induction xs arbitrary: i) (auto split: if_splits dest: prefix_length_le)

lemma find_window_append:
  "find_window w xs = Some i \<Longrightarrow> find_window w (xs @ ys) = Some i"
proof (induction xs arbitrary: i)
  case Nil
  then show ?case by (cases ys) (auto split: if_splits)
next
  case (Cons x xs)
  have "find_window w xs = Some z \<Longrightarrow> Sublist.prefix w (x # xs @ ys) \<Longrightarrow> Sublist.prefix w (x # xs)" for z
    using find_window_bound [of w xs z] prefix_length_prefix [of w "x # xs @ ys" "x # xs"] by simp
  moreover have "Sublist.prefix w (x # xs) \<Longrightarrow> Sublist.prefix w (x # xs @ ys)"
    using Sublist.prefix_prefix [of w "x # xs" ys] by simp
  ultimately show ?case using Cons by (auto split: if_splits)
qed

lemma find_window_tail:
  assumes "find_window w xs = None" and "k + length w \<le> Suc (length xs)"
  shows "find_window w (xs @ ys) = map_option ((+) k) (find_window w (drop k (xs @ ys)))"
  using assms
proof (induction k arbitrary: xs)
  case (Suc k)
  show ?case
  proof (cases xs)
    case (Cons x zs)
    have "\<not> Sublist.prefix w (x # zs @ ys)"
      using Suc.prems Cons prefix_length_prefix [of w "x # zs @ ys" "x # zs"]
      by (auto split: if_splits)
    with Suc.IH [of zs] Suc.prems Cons show ?thesis
      by (auto split: if_splits simp: option.map_comp comp_def)
  qed (use Suc.prems in auto)
qed (auto simp: option.map_ident_strong)

lemma read_head_loop_ok:
  assumes "read_head_loop buf rs = (Inr (b, e), rs')" and "find_window crlfcrlf buf = None"
  shows "b @ inbox_bytes rs' = buf @ inbox_bytes rs \<and> find_window crlfcrlf b = Some e"
  using assms
proof (induction buf rs rule: read_head_loop.induct)
  case (1 buf rs)
  obtain q rs1 where rd: "read_some 1024 rs = (q, rs1)" by (cases "read_some 1024 rs")
  from "1.prems"(1) rd have len: "\<not> MAX_HEAD_BYTES \<le> length buf" and "\<exists>bs. q = Inr bs \<and> bs \<noteq> []"
    by (auto simp: read_head_loop.simps [of buf] split: if_splits sum.splits)
  then obtain bs where q: "q = Inr bs" "bs \<noteq> []" by blast
  let ?k = "length (buf @ bs) - (length bs + 3)"
  have len4: "length crlfcrlf = 4" by (simp add: crlfcrlf_def)
  have k: "find_window crlfcrlf (buf @ bs) = map_option ((+) ?k) (find_window crlfcrlf (drop ?k (buf @ bs)))"
  proof (cases "length buf < 3")
    case True
    then show ?thesis by (simp add: option.map_ident_strong)
  next
    case False
    then show ?thesis using find_window_tail [OF "1.prems"(2), of ?k bs] len4 by simp
  qed
  note got = read_some_bytes(1) [OF rd [unfolded q(1)] q(2)]
  show ?case
  proof (cases "find_window crlfcrlf (drop ?k (buf @ bs))")
    case None
    then have "read_head_loop (buf @ bs) rs1 = (Inr (b, e), rs')"
      using "1.prems"(1) len rd q by (simp add: read_head_loop.simps [of buf] Let_def)
    from "1.IH" [OF len rd [symmetric] q(1) q(2) refl refl None this] k None got show ?thesis by simp
  next
    case (Some idx)
    then have "b = buf @ bs \<and> e = ?k + idx \<and> rs' = rs1"
      using "1.prems"(1) len rd q by (auto simp: read_head_loop.simps [of buf] Let_def)
    with k Some got show ?thesis by simp
  qed
qed

lemma digit_char_code: "d < 16 \<Longrightarrow> (of_char (digit_char d) :: nat) < 128 \<and> digit_char d \<noteq> CHR ''/'' \<and> digit_char d \<noteq> CHR '':''"
proof -
  assume "d < 16"
  then have "d = 0 \<or> d = 1 \<or> d = 2 \<or> d = 3 \<or> d = 4 \<or> d = 5 \<or> d = 6 \<or> d = 7 \<or> d = 8 \<or> d = 9 \<or>
    d = 10 \<or> d = 11 \<or> d = 12 \<or> d = 13 \<or> d = 14 \<or> d = 15" by presburger
  then show ?thesis by (elim disjE) (simp_all add: digit_char_def char_of_def)
qed

lemma show_hex16_chars:
  "c \<in> set (show_hex16 i) \<Longrightarrow> (of_char c :: nat) < 128 \<and> c \<noteq> CHR ''/'' \<and> c \<noteq> CHR '':''"
proof -
  have "c \<in> set (show_base 16 n) \<Longrightarrow> (of_char c :: nat) < 128 \<and> c \<noteq> CHR ''/'' \<and> c \<noteq> CHR '':''" for n
  proof (induction n rule: less_induct)
    case (less n)
    show ?case
    proof (cases "n < 16")
      case True
      with less.prems show ?thesis using digit_char_code [of n] by (simp add: show_base.simps [of 16 n])
    next
      case False
      then have "n div 16 < n" by simp
      note IH = less.IH [OF this]
      from False less.prems have "c \<in> set (show_base 16 (n div 16)) \<or> c = digit_char (n mod 16)"
        by (simp add: show_base.simps [of 16 n] disj_commute)
      with IH show ?thesis using digit_char_code [of "n mod 16"] by auto
    qed
  qed
  then show "c \<in> set (show_hex16 i) \<Longrightarrow> ?thesis" by (auto simp: show_hex16_def pad_left_def)
qed

lemma partial_entry: "entry_name_ok (''.taildrop-'' @ show_hex16 i @ ''.partial'')"
proof -
  have "list_all (\<lambda>c. (of_char c :: nat) < 128) (''.taildrop-'' @ show_hex16 i @ ''.partial'')"
    using show_hex16_chars by (fastforce simp: list_all_iff)
  from utf8_ascii_str [OF this] show ?thesis using show_hex16_chars by (auto simp: entry_name_ok_def)
qed

context file_store
begin

text \<open>A file that was received is at a free name, holds the body, and nothing else changed.\<close>

lemma receive_file_view:
  assumes "receive_file fs cfg peer name n leftover rs c = (c', 200)"
    and d: "plain_dir (td_dir cfg)" and name: "entry_name_ok name"
    and listed: "\<And>w. \<exists>u es. fs_read_dir fs (td_dir cfg) w = (u, Inr es)"
  shows "\<exists>final. (final = name \<or> (\<exists>k. final = numbered name k)) \<and>
     view (td_world c) (norm (path_join (td_dir cfg) final)) = None \<and> n \<le> length (leftover @ inbox_bytes rs) \<and>
     view (td_world c') = (view (td_world c))(norm (partial_path cfg (td_partial_seq c)) := None,
        norm (path_join (td_dir cfg) final) \<mapsto> take n (leftover @ inbox_bytes rs)) \<and>
     td_in_flight c' = td_in_flight c"
proof -
  let ?part = "partial_path cfg (td_partial_seq c)"
  obtain w1 x where wr: "fs_write fs ?part [] (td_world c) = (w1, x)" by (cases "fs_write fs ?part [] (td_world c)")
  obtain w2 y where st: "stream_body (fs_append fs ?part) leftover n rs w1 = (w2, y)"
    by (cases "stream_body (fs_append fs ?part) leftover n rs w1")
  from assms(1) wr have x: "x = Inr ()" by (cases x) (auto simp: receive_file_def Let_def)
  from write_view [OF wr [unfolded x]] have v1: "view w1 = (view (td_world c))(norm ?part \<mapsto> [])" .
  from assms(1) wr x st obtain m where y: "y = Inr m"
    by (cases y) (auto simp: receive_file_def Let_def split: http_error.splits)
  from stream_body_view [OF st] v1 y have frame: "\<And>q. q \<noteq> norm ?part \<Longrightarrow> view w2 q = view w1 q"
    and m: "m = n" and body: "view w2 (norm ?part) = Some (take n (leftover @ inbox_bytes rs))"
    and len: "n \<le> length (leftover @ inbox_bytes rs)" by auto
  obtain w3 z where fin: "finalize fs (td_dir cfg) ?part name m w2 = (w3, z)"
    by (cases "finalize fs (td_dir cfg) ?part name m w2")
  from assms(1) wr x st y fin obtain final where z: "z = Inr final"
    by (cases z) (auto simp: receive_file_def Let_def)
  from assms(1) wr x st y fin z have c': "td_world c' = w3" "td_in_flight c' = td_in_flight c"
    by (auto simp: receive_file_def Let_def report_def)
  from finalize_view [OF fin [unfolded z] d name listed partial_path_def partial_entry body]
  have fv: "final = name \<or> (\<exists>k. final = numbered name k)" "norm (path_join (td_dir cfg) final) \<noteq> norm ?part"
    "view w2 (norm (path_join (td_dir cfg) final)) = None"
    "view w3 = (view w2)(norm ?part := None, norm (path_join (td_dir cfg) final) \<mapsto> take n (leftover @ inbox_bytes rs))"
    by blast+
  have "view w2 = (view (td_world c))(norm ?part \<mapsto> take n (leftover @ inbox_bytes rs))"
    using frame v1 body by (auto intro!: ext)
  with fv len c' show ?thesis by auto
qed

end

lemma put_file_ok:
  assumes "put_file fs cfg peer head rs escaped c = (c', 200)"
  shows "\<exists>name n c1 c2. sanitize_filename escaped = Inr name \<and> rh_content_length head = Some n \<and> n \<le> td_max_size cfg \<and>
    td_world c1 = td_world c \<and> td_partial_seq c1 = td_partial_seq c \<and> td_in_flight c1 = td_in_flight c + n \<and>
    receive_file fs cfg peer name n (rh_leftover head) rs c1 = (c2, 200) \<and> c' = release n c2"
proof -
  from assms obtain name n where nm: "sanitize_filename escaped = Inr name" "rh_content_length head = Some n" "n \<le> td_max_size cfg"
    by (auto simp: put_file_def split: sum.splits option.splits if_splits)
  with assms obtain c1 where c1: "reserve_in_flight cfg n c = Some c1"
    by (cases "reserve_in_flight cfg n c") (auto simp: put_file_def)
  obtain c2 st where rf: "receive_file fs cfg peer name n (rh_leftover head) rs c1 = (c2, st)"
    by (cases "receive_file fs cfg peer name n (rh_leftover head) rs c1")
  from assms nm c1 rf have "st = 200" "c' = release n c2" by (auto simp: put_file_def)
  moreover from c1 have "td_world c1 = td_world c" "td_partial_seq c1 = td_partial_seq c" "td_in_flight c1 = td_in_flight c + n"
    by (auto simp: reserve_in_flight_def Let_def split: if_splits)
  ultimately show ?thesis using nm rf by blast
qed

lemma read_head_ok:
  assumes "read_head httparse rs = (Inr head, rs')"
  shows "\<exists>e meth target hs. find_window crlfcrlf (inbox_bytes rs) = Some e \<and>
    httparse (take (e + 4) (inbox_bytes rs)) = Complete (Some meth) (Some target) hs \<and>
    rh_method head = meth \<and> rh_path head = split_on (CHR ''?'') target ! 0 \<and> rh_content_length head = content_length_of hs \<and>
    rh_leftover head @ inbox_bytes rs' = drop (e + 4) (inbox_bytes rs)"
proof -
  from assms obtain b e where loop: "read_head_loop [] rs = (Inr (b, e), rs')"
    by (auto simp: read_head_def split: sum.splits prod.splits)
  with assms obtain meth target hs where hp: "httparse (take (e + 4) b) = Complete (Some meth) (Some target) hs"
    and head: "rh_method head = meth" "rh_path head = split_on (CHR ''?'') target ! 0"
      "rh_content_length head = content_length_of hs" "rh_leftover head = drop (e + 4) b"
    by (auto simp: read_head_def result_iff split: parsed.splits)
  have "find_window crlfcrlf [] = None" by (simp add: crlfcrlf_def)
  from read_head_loop_ok [OF loop this] have all: "inbox_bytes rs = b @ inbox_bytes rs'" and fw: "find_window crlfcrlf b = Some e" by simp_all
  from find_window_bound [OF fw] have "e + 4 \<le> length b" by (simp add: crlfcrlf_def)
  then show ?thesis using find_window_append [OF fw] hp head by (auto simp: all)
qed


text \<open>A drop of one byte on the kernel in memory.\<close>

definition sample_drop :: inbox where
  "sample_drop = [Inr [80, 13, 10, 13], Inr [10, 9, 8]]"

definition sample_parse :: "bytes \<Rightarrow> parsed" where
  "sample_parse bs = (if bs = [80, 13, 10, 13, 10] then
     Complete (Some ''PUT'') (Some ''/v0/put/f'') [(''content-length'', [49])] else Malformed)"

definition sample_taildrop :: taildrop_config where
  "sample_taildrop = taildrop_config_default\<lparr>td_dir := ''ux0:t''\<rparr>"

definition sample_ctx :: "mem_state td_ctx" where
  "sample_ctx = \<lparr>td_in_flight = 0, td_partial_seq = 0, td_reports = [], td_world = \<lparr>mem_files = [], mem_fds = [], mem_dirs = []\<rparr>\<rparr>"

lemma sample_head:
  "read_head sample_parse sample_drop =
     (Inr \<lparr>rh_method = ''PUT'', rh_path = ''/v0/put/f'', rh_content_length = Some 1, rh_leftover = [9, 8]\<rparr>, [])"
proof -
  have "read_head_loop [] sample_drop = (Inr ([80, 13, 10, 13, 10, 9, 8], 1), [])"
    by (simp add: sample_drop_def read_head_loop.simps MAX_HEAD_BYTES_def crlfcrlf_def Let_def)
  moreover have "content_length_of [(''content-length'', [49])] = Some 1"
  proof -
    have "bytes_str [49] = ''1''" using bytes_str_bytes [of "''1''"] by (simp add: str_bytes_def)
    moreover have "trim ''1'' = ''1''" by (rule trim_ends; simp add: whitespace_def)
    moreover have "eq_ignore_ascii_case ''content-length'' ''content-length''"
      by (simp add: eq_ignore_ascii_case_def)
    moreover have "utf8_valid [49]" using utf8_valid_ascii [of "[49]"] by simp
    moreover have "parse_uint 64 ''1'' = Some 1" by (simp add: parse_uint_def digit_val_def Let_def)
    ultimately show ?thesis by (simp add: content_length_of_def from_utf8_def)
  qed
  ultimately show ?thesis by (simp add: read_head_def sample_parse_def)
qed

lemma sample_name: "sanitize_filename ''f'' = Inr ''f''"
proof -
  have "utf8_valid [102]" using utf8_valid_ascii [of "[102]"] by simp
  moreover have "bytes_str [102] = ''f''" using bytes_str_bytes [of "''f''"] by (simp add: str_bytes_def)
  ultimately show ?thesis by (simp add: sanitize_filename_def str_bytes_def from_utf8_def validate_name_def MAX_NAME_BYTES_def)
qed

lemma sample_part:
  "norm (partial_path sample_taildrop 0) = ''ux0:t/.taildrop-0000000000000000.partial''"
  "norm (path_join (td_dir sample_taildrop) ''f'') = ''ux0:t/f''" "norm (td_dir sample_taildrop) = ''ux0:t''"
proof -
  have "digit_char 0 = CHR ''0''" by code_simp
  then have "show_hex16 0 = ''0000000000000000''"
    by (simp add: show_hex16_def pad_left_def show_base.simps numeral_eq_Suc)
  then have "partial_path sample_taildrop 0 = ''ux0:t/.taildrop-0000000000000000.partial''"
    by (simp add: partial_path_def path_join_def sample_taildrop_def starts_with_def ends_with_last)
  then show "norm (partial_path sample_taildrop 0) = ''ux0:t/.taildrop-0000000000000000.partial''"
    by (simp add: norm_def str_find_def)
  show "norm (path_join (td_dir sample_taildrop) ''f'') = ''ux0:t/f''"  "norm (td_dir sample_taildrop) = ''ux0:t''"
    by (simp_all add: path_join_def sample_taildrop_def starts_with_def ends_with_last norm_def str_find_def)
qed

text \<open>The states of the kernel on the way, with what it has opened.\<close>

definition mem_at :: "(string \<times> bytes) list \<Rightarrow> (string \<times> nat) list \<Rightarrow> dirent list list \<Rightarrow> mem_state" where
  "mem_at fs hs ds = \<lparr>mem_files = fs, mem_fds = hs, mem_dirs = ds\<rparr>"

lemma sample_write:
  assumes "cstr (norm p) = Inr q"
  shows "fs_write (sce_fs mem_io mem_fuel) p [] (mem_at [] [] []) = (mem_at [(q, [])] [(q, 0)] [], Inr ())"
  by (simp add: sce_fs_def sce_write_def assms mem_io_def mem_remove_def mem_open_def mem_at_def SCE_O_WRITE_def SCE_O_RDONLY_def
      sce_write_loop.simps Let_def)

lemma sample_append:
  assumes "cstr (norm p) = Inr q"
  shows "fs_append (sce_fs mem_io mem_fuel) p [b] (mem_at [(q, [])] [(q, 0)] []) = (mem_at [(q, [b])] [(q, 0), (q, 0)] [], Inr ())"
  by (simp add: sce_fs_def sce_append_def assms mem_io_def mem_write_def mem_handle_def mem_open_def mem_at_def
      sce_write_loop.simps Let_def)

lemma sample_rename:
  assumes "cstr (norm p) = Inr q" and "cstr (norm p') = Inr q'" and "q \<noteq> q'"
  shows "fs_rename (sce_fs mem_io mem_fuel) p p' (mem_at [(q, b)] hs ds) = (mem_at [(q', b)] hs ds, Inr ())"
  using assms by (simp add: sce_fs_def sce_rename_def mem_io_def mem_remove_def mem_rename_def mem_at_def)

lemma sample_list:
  assumes "cstr (norm d) = Inr e" and "entry_name_ok n" and "q = child e n"
  shows "\<exists>ds'. fs_read_dir (sce_fs mem_io mem_fuel) d (mem_at [(q, b)] hs ds) =
    (mem_at [(q, b)] hs ds', Inr [\<lparr>ent_name = n, ent_is_dir = False, ent_size = length b\<rparr>])"
proof -
  have "mem_dirent e (q, b) = Some \<lparr>d_attr = 0, d_size = int (length b), d_name = n\<rparr>"
    using assms(2,3) by (simp add: mem_dirent_def child_def strip_prefix_def)
  moreover have "from_utf8_lossy (str_bytes n) = n"
    using assms(2) by (simp add: entry_name_ok_def from_utf8_lossy_def utf8_lossy_valid)
  ultimately show ?thesis using assms(1,2)
    by (simp add: sce_fs_def sce_read_dir_def mem_io_def mem_dopen_def mem_dread_def mem_listing_def mem_at_def mem_fuel_def
        dirent_entry_def entry_name_ok_def SCE_SO_IFDIR_def Let_def List.map_filter_simps)
qed

lemma sample_answer: "\<exists>ds. taildrop_handle sample_parse (sce_fs mem_io mem_fuel) sample_taildrop (SockV4 1 1) sample_drop sample_ctx =
  (sample_ctx\<lparr>td_partial_seq := 1, td_reports := [\<lparr>rep_name = ''f'', rep_size = 1, rep_sender = SockV4 1 1, rep_status = ''ok''\<rparr>],
     td_world := mem_at [(''ux0:t/f'', [9])] [(norm (partial_path sample_taildrop 0), 0), (norm (partial_path sample_taildrop 0), 0)] ds\<rparr>, 200)"
proof -
  let ?fs = "sce_fs mem_io mem_fuel" and ?P = "partial_path sample_taildrop 0" and ?d = "td_dir sample_taildrop"
  let ?n = "''.taildrop-'' @ show_hex16 0 @ ''.partial''"
  let ?h = "[(norm ?P, 0), (norm ?P, 0 :: nat)]"
  have dir: "?d = ''ux0:t''" by (simp add: sample_taildrop_def)
  have cstrs: "cstr (norm ?P) = Inr (norm ?P)" "cstr (norm (path_join ?d ''f'')) = Inr ''ux0:t/f''" "cstr (norm ?d) = Inr (norm ?d)"
    by (simp_all add: sample_part cstr_def)
  have ne: "norm ?P \<noteq> ''ux0:t/f''" by (simp add: sample_part)
  have plain: "plain_dir ?d" by (simp add: dir plain_dir_def)
  have child: "norm ?P = child (norm ?d) ?n" unfolding partial_path_def by (rule join_child [OF plain partial_entry])
  have f: "entry_name_ok ''f''" using sanitize_safe [OF sample_name] by (rule safe_entry)
  have fchild: "''ux0:t/f'' = child (norm ?d) ''f''" using join_child [OF plain f] by (simp add: sample_part)
  obtain ds1 where l1: "fs_read_dir ?fs ?d (mem_at [(norm ?P, [9])] ?h []) =
      (mem_at [(norm ?P, [9])] ?h ds1, Inr [\<lparr>ent_name = ?n, ent_is_dir = False, ent_size = 1\<rparr>])"
    using sample_list [OF cstrs(3) partial_entry child, of "[9]" ?h "[]"] by auto
  obtain ds2 where l2: "fs_read_dir ?fs ?d (mem_at [(''ux0:t/f'', [9])] ?h ds1) =
      (mem_at [(''ux0:t/f'', [9])] ?h ds2, Inr [\<lparr>ent_name = ''f'', ent_is_dir = False, ent_size = 1\<rparr>])"
    using sample_list [OF cstrs(3) f fchild, of "[9]" ?h ds1] by auto
  have fin: "finalize ?fs ?d ?P ''f'' 1 (mem_at [(norm ?P, [9])] ?h []) = (mem_at [(''ux0:t/f'', [9])] ?h ds2, Inr ''f'')"
    by (simp add: finalize_def dir_names_def l1 next_free_name_def sample_rename [OF cstrs(1,2) ne] entry_size_def l2)
  have st: "stream_body (fs_append ?fs ?P) [9, 8] 1 [] (mem_at [(norm ?P, [])] [(norm ?P, 0)] []) = (mem_at [(norm ?P, [9])] ?h [], Inr 1)"
    by (simp add: stream_body_def sample_append [OF cstrs(1)] stream_rest.simps)
  have "receive_file ?fs sample_taildrop (SockV4 1 1) ''f'' 1 [9, 8] [] (sample_ctx\<lparr>td_in_flight := 1\<rparr>) =
    (report (SockV4 1 1) ''f'' 1 ''ok'' (sample_ctx\<lparr>td_in_flight := 1, td_partial_seq := 1,
       td_world := mem_at [(''ux0:t/f'', [9])] ?h ds2\<rparr>), 200)"
    using sample_write [OF cstrs(1)] st fin by (simp add: receive_file_def sample_ctx_def mem_at_def Let_def)
  then have "taildrop_handle sample_parse ?fs sample_taildrop (SockV4 1 1) sample_drop sample_ctx =
    (release 1 (report (SockV4 1 1) ''f'' 1 ''ok'' (sample_ctx\<lparr>td_in_flight := 1, td_partial_seq := 1,
       td_world := mem_at [(''ux0:t/f'', [9])] ?h ds2\<rparr>)), 200)"
    by (simp add: taildrop_handle_def sample_head eq_ignore_ascii_case_def strip_prefix_def PUT_PREFIX_def put_file_def sample_name
        sample_taildrop_def taildrop_config_default_def reserve_in_flight_def sample_ctx_def Let_def)
  then show ?thesis by (auto simp: release_def report_def sample_ctx_def)
qed


end
