(* ===== verification/Wg_Replay.thy ===== *)
theory Wg_Replay
  imports Prelude
begin

unbundle bit_operations_syntax

text \<open>
  The replay window of a WireGuard session, \<open>ReceivingKeyCounterValidator\<close> in
  \<open>vendor/boringtun/src/noise/session.rs\<close>: a ring of 1024 bits in sixteen words, with the
  64-bit arithmetic of a release build, which wraps. The development shows that it accepts
  exactly what a set of received counters would accept.
\<close>

section \<open>The window\<close>

datatype wg_error =
    DestinationBufferTooSmall | IncorrectPacketLength | UnexpectedPacket | WrongPacketType | WrongIndex
  | WrongKey | InvalidTai64nTimestamp | WrongTai64nTimestamp | InvalidMac | InvalidAeadTag | InvalidCounter
  | DuplicateCounter | InvalidPacket | NoCurrentSession | LockFailed | ConnectionExpired | UnderLoad

definition WORD_SIZE :: u64 where "WORD_SIZE = 64"
definition N_WORDS :: u64 where "N_WORDS = 16"
definition N_BITS :: u64 where "N_BITS = WORD_SIZE * N_WORDS"

record replay =
  rk_next :: u64
  rk_receive_cnt :: u64
  rk_bitmap :: "u64 list"

definition replay_default :: replay where
  "replay_default = \<lparr>rk_next = 0, rk_receive_cnt = 0, rk_bitmap = replicate (unat N_WORDS) 0\<rparr>"

definition bit_word :: "u64 \<Rightarrow> nat" where
  "bit_word idx = unat ((idx mod N_BITS) div WORD_SIZE)"

definition bit_bit :: "u64 \<Rightarrow> nat" where
  "bit_bit idx = unat ((idx mod N_BITS) mod WORD_SIZE)"

definition set_bit_rk :: "u64 \<Rightarrow> replay \<Rightarrow> replay" where
  "set_bit_rk idx r = (let w = bit_word idx in r\<lparr>rk_bitmap := (rk_bitmap r)[w := rk_bitmap r ! w OR push_bit (bit_bit idx) 1]\<rparr>)"

definition clear_bit :: "u64 \<Rightarrow> replay \<Rightarrow> replay" where
  "clear_bit idx r = (let w = bit_word idx in r\<lparr>rk_bitmap := (rk_bitmap r)[w := rk_bitmap r ! w AND NOT (push_bit (bit_bit idx) 1)]\<rparr>)"

definition clear_word :: "u64 \<Rightarrow> replay \<Rightarrow> replay" where
  "clear_word idx r = r\<lparr>rk_bitmap := (rk_bitmap r)[bit_word idx := 0]\<rparr>"

definition check_bit :: "u64 \<Rightarrow> replay \<Rightarrow> bool" where
  "check_bit idx r \<longleftrightarrow> (drop_bit (bit_bit idx) (rk_bitmap r ! bit_word idx)) AND 1 = 1"

definition will_accept :: "u64 \<Rightarrow> replay \<Rightarrow> wg_error + unit" where
  "will_accept counter r =
     (if rk_next r \<le> counter then Inr ()
      else if counter + N_BITS < rk_next r then Inl InvalidCounter
      else if \<not> check_bit counter r then Inr ()
      else Inl DuplicateCounter)"

text \<open>
  The three loops that clear the bits of skipped counters. The middle one could run forever
  only if its addition wrapped; it is given one pass more than the window has words, which
  \<open>clear_words_done\<close> below shows to be enough wherever it is reached.
\<close>

lemma unat_succ_less: "i < (c :: u64) \<Longrightarrow> unat (i + 1) = Suc (unat i)"
proof -
  assume "i < c"
  then have "unat i + 1 < 2 ^ 64" using unsigned_less [of c, where ?'a = nat] by (simp add: word_less_nat_alt)
  then show ?thesis by (simp add: unat_word_ariths)
qed

function clear_to_word :: "u64 \<Rightarrow> u64 \<Rightarrow> replay \<Rightarrow> u64 \<times> replay" where
  "clear_to_word i counter r =
     (if i mod WORD_SIZE \<noteq> 0 \<and> i < counter then clear_to_word (i + 1) counter (clear_bit i r) else (i, r))"
  by auto
termination
proof (relation "measure (\<lambda>(i, counter, r). unat counter - unat i)")
  fix i counter :: u64 and r :: replay
  assume "i mod WORD_SIZE \<noteq> 0 \<and> i < counter"
  then have "unat (i + 1) = Suc (unat i)" "unat i < unat counter"
    using unat_succ_less [of i counter] by (simp_all add: word_less_nat_alt)
  then show "((i + 1, counter, clear_bit i r), i, counter, r) \<in> measure (\<lambda>(i, counter, r). unat counter - unat i)" by simp
qed simp

fun clear_words :: "nat \<Rightarrow> u64 \<Rightarrow> u64 \<Rightarrow> replay \<Rightarrow> u64 \<times> replay" where
  "clear_words 0 i counter r = (i, r)"
| "clear_words (Suc n) i counter r =
     (if i + WORD_SIZE < counter
      then clear_words n ((i + WORD_SIZE) AND (0 - WORD_SIZE)) counter (clear_word i r)
      else (i, r))"

function clear_rest :: "u64 \<Rightarrow> u64 \<Rightarrow> replay \<Rightarrow> replay" where
  "clear_rest i counter r = (if i < counter then clear_rest (i + 1) counter (clear_bit i r) else r)"
  by auto
termination
proof (relation "measure (\<lambda>(i, counter, r). unat counter - unat i)")
  fix i counter :: u64 and r :: replay
  assume "i < counter"
  then have "unat (i + 1) = Suc (unat i)" "unat i < unat counter"
    using unat_succ_less [of i counter] by (simp_all add: word_less_nat_alt)
  then show "((i + 1, counter, clear_bit i r), i, counter, r) \<in> measure (\<lambda>(i, counter, r). unat counter - unat i)" by simp
qed simp

declare clear_to_word.simps [simp del] clear_rest.simps [simp del]

definition clear_skipped :: "u64 \<Rightarrow> replay \<Rightarrow> replay" where
  "clear_skipped counter r =
     (case clear_to_word (rk_next r) counter r of
        (i, r) \<Rightarrow> (case clear_words (Suc (unat N_WORDS)) i counter r of (i, r) \<Rightarrow> clear_rest i counter r))"

definition mark_did_receive :: "u64 \<Rightarrow> replay \<Rightarrow> replay \<times> (wg_error + unit)" where
  "mark_did_receive counter r =
     (if counter + N_BITS < rk_next r then (r, Inl InvalidCounter)
      else if counter = rk_next r then ((set_bit_rk counter r)\<lparr>rk_next := rk_next r + 1\<rparr>, Inr ())
      else if counter < rk_next r then
        (if check_bit counter r then (r, Inl InvalidCounter) else (set_bit_rk counter r, Inr ()))
      else
        (let r = (if N_BITS \<le> counter - rk_next r then r\<lparr>rk_bitmap := map (\<lambda>_. 0) (rk_bitmap r)\<rparr> else clear_skipped counter r)
         in ((set_bit_rk counter r)\<lparr>rk_next := counter + 1\<rparr>, Inr ())))"

section \<open>Single bits\<close>

lemma unat_consts [simp]: "unat WORD_SIZE = 64" "unat N_BITS = 1024" "unat N_WORDS = 16"
  by (simp_all add: WORD_SIZE_def N_BITS_def N_WORDS_def)

lemma bit_word_nat: "bit_word c = unat c mod 1024 div 64"
  by (simp add: bit_word_def unat_div unat_mod)

lemma bit_bit_nat: "bit_bit c = unat c mod 64"
  by (simp add: bit_bit_def unat_mod mod_mod_cancel)

lemma bit_word_lt [simp]: "bit_word c < 16"
  by (simp add: bit_word_nat) 

lemma bit_bit_lt [simp]: "bit_bit c < 64"
  by (simp add: bit_bit_nat)

lemma same_place: "bit_word c = bit_word d \<and> bit_bit c = bit_bit d \<longleftrightarrow> unat c mod 1024 = unat d mod 1024"
proof -
  have "unat c mod 64 = unat c mod 1024 mod 64" "unat d mod 64 = unat d mod 1024 mod 64"
    by (simp_all add: mod_mod_cancel)
  then show ?thesis unfolding bit_word_nat bit_bit_nat by (metis div_mult_mod_eq)
qed

lemma check_bit_bit: "check_bit c r \<longleftrightarrow> bit (rk_bitmap r ! bit_word c) (bit_bit c)"
  by (simp add: check_bit_def bit_iff_odd_drop_bit and_one_eq odd_iff_mod_2_eq_one)

abbreviation wide :: "replay \<Rightarrow> bool" where
  "wide r \<equiv> length (rk_bitmap r) = 16"

lemma check_set_bit:
  "wide r \<Longrightarrow> check_bit c (set_bit_rk d r) \<longleftrightarrow> unat c mod 1024 = unat d mod 1024 \<or> check_bit c r"
  using same_place [of c d] by (auto simp: check_bit_bit set_bit_rk_def Let_def nth_list_update bit_simps)

lemma check_clear_bit:
  "wide r \<Longrightarrow> check_bit c (clear_bit d r) \<longleftrightarrow> unat c mod 1024 \<noteq> unat d mod 1024 \<and> check_bit c r"
  using same_place [of c d] by (auto simp: check_bit_bit clear_bit_def Let_def nth_list_update bit_simps)

lemma check_clear_word:
  "wide r \<Longrightarrow> check_bit c (clear_word d r) \<longleftrightarrow> unat c mod 1024 div 64 \<noteq> unat d mod 1024 div 64 \<and> check_bit c r"
  by (auto simp: check_bit_bit clear_word_def bit_word_nat nth_list_update)

lemma op_frame [simp]:
  "rk_next (set_bit_rk c r) = rk_next r" "rk_next (clear_bit c r) = rk_next r" "rk_next (clear_word c r) = rk_next r"
  "wide (set_bit_rk c r) \<longleftrightarrow> wide r" "wide (clear_bit c r) \<longleftrightarrow> wide r" "wide (clear_word c r) \<longleftrightarrow> wide r"
  by (simp_all add: set_bit_rk_def clear_bit_def clear_word_def Let_def)

section \<open>The clearing loops\<close>

text \<open>\<open>cleared a b r r'\<close>: the places of the counters from \<open>a\<close> up to \<open>b\<close> are empty, the others as before.\<close>

definition cleared :: "nat \<Rightarrow> nat \<Rightarrow> replay \<Rightarrow> replay \<Rightarrow> bool" where
  "cleared a b r r' \<longleftrightarrow> wide r' \<and> rk_next r' = rk_next r \<and>
     (\<forall>c. check_bit c r' \<longleftrightarrow> check_bit c r \<and> \<not> (\<exists>j. a \<le> j \<and> j < b \<and> unat c mod 1024 = j mod 1024))"

lemma cleared_refl: "wide r \<Longrightarrow> cleared a a r r"
  by (auto simp: cleared_def)

lemma cleared_trans:
  assumes "cleared a b r r1" and "cleared b c r1 r2" and "a \<le> b" and "b \<le> c"
  shows "cleared a c r r2"
proof -
  have "(\<exists>j. a \<le> j \<and> j < c \<and> P j) \<longleftrightarrow> (\<exists>j. a \<le> j \<and> j < b \<and> P j) \<or> (\<exists>j. b \<le> j \<and> j < c \<and> P j)" for P
    using assms(3,4) by (meson le_trans less_le_trans not_le)
  then show ?thesis using assms(1,2) by (simp add: cleared_def)
qed

lemma cleared_bit: "wide r \<Longrightarrow> cleared (unat i) (Suc (unat i)) r (clear_bit i r)"
  by (auto simp: cleared_def check_clear_bit less_Suc_eq_le dest!: le_antisym)

lemma aligned_places:
  fixes i c :: nat
  assumes "i mod 64 = 0"
  shows "c mod 1024 div 64 = i mod 1024 div 64 \<longleftrightarrow> (\<exists>j. i \<le> j \<and> j < i + 64 \<and> c mod 1024 = j mod 1024)"
proof -
  obtain q where q: "i = 64 * q" using assms by auto
  have place: "(64 * q + k) mod 1024 = 64 * (q mod 16) + k" if "k < 64" for k
  proof -
    have "(64 * q + k) div 64 = q" "(64 * q + k) mod 64 = k" using that by simp_all
    then show ?thesis using mod_mult2_eq [of "64 * q + k" 64 16] by simp
  qed
  have mid: "i mod 1024 div 64 = q mod 16" using place [of 0] by (simp add: q)
  show ?thesis
  proof
    assume "c mod 1024 div 64 = i mod 1024 div 64"
    moreover have c: "c mod 1024 = 64 * (c div 64 mod 16) + c mod 64" using mod_mult2_eq [of c 64 16] by simp
    moreover have "c mod 1024 div 64 = c div 64 mod 16" unfolding c by simp
    ultimately have "c mod 1024 = 64 * (q mod 16) + c mod 64" using mid by simp
    then show "\<exists>j. i \<le> j \<and> j < i + 64 \<and> c mod 1024 = j mod 1024"
      using place [of "c mod 64"] by (intro exI [of _ "i + c mod 64"]) (simp add: q)
  next
    assume "\<exists>j. i \<le> j \<and> j < i + 64 \<and> c mod 1024 = j mod 1024"
    then obtain k where "k < 64" "c mod 1024 = (64 * q + k) mod 1024"
      unfolding q by (metis le_iff_add nat_add_left_cancel_less)
    then show "c mod 1024 div 64 = i mod 1024 div 64" using place [of k] mid by simp
  qed
qed

lemma cleared_word: "wide r \<Longrightarrow> unat i mod 64 = 0 \<Longrightarrow> cleared (unat i) (unat i + 64) r (clear_word i r)"
  using aligned_places [of "unat i"] by (auto simp: cleared_def check_clear_word)

lemma aligned_mask:
  fixes i :: u64
  assumes "unat i mod 64 = 0"
  shows "i AND (0 - WORD_SIZE) = i"
proof -
  have "unat (take_bit 6 i) = 0" using assms by (simp add: take_bit_eq_mod unat_mod)
  then have "take_bit 6 i = 0" by (simp only: unsigned_eq_0_iff)
  then have low: "\<not> bit i n" if "n < 6" for n using that by (metis bit_take_bit_iff bit_0_eq bot_apply bot_bool_def)
  have "0 - WORD_SIZE = NOT (mask 6)" by (simp add: WORD_SIZE_def mask_eq_exp_minus_1 not_eq_complement)
  then show ?thesis using low by (auto intro!: bit_word_eqI simp: bit_simps not_le)
qed

lemma clear_to_word_ok:
  assumes "clear_to_word i counter r = (i', r')" and "wide r" and "i \<le> counter"
  shows "unat i \<le> unat i' \<and> i' \<le> counter \<and> (unat i' mod 64 = 0 \<or> i' = counter) \<and> cleared (unat i) (unat i') r r'"
  using assms
proof (induction i counter r rule: clear_to_word.induct)
  case (1 i counter r)
  show ?case
  proof (cases "i mod WORD_SIZE \<noteq> 0 \<and> i < counter")
    case True
    then have s: "unat (i + 1) = Suc (unat i)" and lt: "unat i < unat counter"
      using unat_succ_less [of i counter] by (simp_all add: word_less_nat_alt)
    then have le: "i + 1 \<le> counter" by (simp add: word_le_nat_alt)
    from True 1(2) have "clear_to_word (i + 1) counter (clear_bit i r) = (i', r')" by (simp add: clear_to_word.simps [of i])
    from 1(1) [OF True this _ le] 1(3) s have ih: "Suc (unat i) \<le> unat i'" "i' \<le> counter" "unat i' mod 64 = 0 \<or> i' = counter"
      "cleared (Suc (unat i)) (unat i') (clear_bit i r) r'" by auto
    then show ?thesis using cleared_trans [OF cleared_bit [OF 1(3)] ih(4)] by simp
  next
    case False
    then have "i' = i" "r' = r" using 1(2) by (auto simp: clear_to_word.simps [of i] split: if_splits)
    moreover have "unat i mod 64 = 0 \<or> i = counter"
    proof (cases "i < counter")
      case True
      with False have "i mod WORD_SIZE = 0" by simp
      then have "unat (i mod WORD_SIZE) = 0" by simp
      then show ?thesis by (simp add: unat_mod)
    qed (use 1(4) in auto)
    ultimately show ?thesis using 1(3,4) cleared_refl by auto
  qed
qed

lemma unat_add_word_size:
  assumes "i \<le> counter" and "unat (counter :: u64) + 64 < 2 ^ 64"
  shows "unat (i + WORD_SIZE) = unat i + 64"
proof -
  have "unat i + 64 < 2 ^ 64" using assms by (simp add: word_le_nat_alt)
  then show ?thesis by (simp add: unat_word_ariths)
qed

lemma clear_words_done:
  assumes "clear_words n i counter r = (i', r')" and "wide r" and "unat i mod 64 = 0 \<or> i = counter" and "i \<le> counter"
    and "unat counter + 64 < 2 ^ 64" and "unat counter \<le> unat i + 64 * n"
  shows "unat i \<le> unat i' \<and> i' \<le> counter \<and> \<not> i' + WORD_SIZE < counter \<and> cleared (unat i) (unat i') r r'"
  using assms
proof (induction n i counter r rule: clear_words.induct)
  case (1 i counter r)
  note s = unat_add_word_size [OF "1.prems"(4,5)]
  from 1 s show ?case by (auto simp: cleared_refl word_less_nat_alt)
next
  case (2 n i counter r)
  note s = unat_add_word_size [OF "2.prems"(4,5)]
  show ?case
  proof (cases "i + WORD_SIZE < counter")
    case True
    have al: "unat i mod 64 = 0" using "2.prems"(3) True s by (auto simp: word_less_nat_alt)
    then have al': "unat (i + WORD_SIZE) mod 64 = 0" by (simp add: s)
    note mask = aligned_mask [OF al']
    have "clear_words n (i + WORD_SIZE) counter (clear_word i r) = (i', r')"
      using "2.prems"(1) True mask by simp
    moreover have "i + WORD_SIZE \<le> counter" "unat counter \<le> unat (i + WORD_SIZE) + 64 * n"
      using True "2.prems"(6) s by simp_all
    ultimately have ih: "unat i + 64 \<le> unat i'" "i' \<le> counter" "\<not> i' + WORD_SIZE < counter"
      "cleared (unat i + 64) (unat i') (clear_word i r) r'"
      using "2.IH" [OF True] al' mask "2.prems"(2,5) s by auto
    then show ?thesis using cleared_trans [OF cleared_word [OF "2.prems"(2) al] ih(4)] by simp
  next
    case False
    with "2.prems" show ?thesis by (auto simp: cleared_refl)
  qed
qed

lemma clear_rest_ok:
  "wide r \<Longrightarrow> i \<le> counter \<Longrightarrow> cleared (unat i) (unat counter) r (clear_rest i counter r)"
proof (induction i counter r rule: clear_rest.induct)
  case (1 i counter r)
  show ?case
  proof (cases "i < counter")
    case True
    then have s: "unat (i + 1) = Suc (unat i)" and lt: "unat i < unat counter"
      using unat_succ_less [of i counter] by (simp_all add: word_less_nat_alt)
    then have le: "i + 1 \<le> counter" by (simp add: word_le_nat_alt)
    from "1.IH" [OF True _ le] "1.prems"(1) s have "cleared (Suc (unat i)) (unat counter) (clear_bit i r) (clear_rest (i + 1) counter (clear_bit i r))"
      by simp
    from cleared_trans [OF cleared_bit [OF "1.prems"(1)] this] lt True show ?thesis by (simp add: clear_rest.simps [of i])
  next
    case False
    then have "clear_rest i counter r = r" by (simp add: clear_rest.simps [of i])
    with False "1.prems" show ?thesis by (simp add: cleared_refl)
  qed
qed

lemma clear_skipped_ok:
  assumes "wide r" and "rk_next r \<le> counter" and "unat counter < unat (rk_next r) + 1024" and "unat counter + 64 < 2 ^ 64"
  shows "cleared (unat (rk_next r)) (unat counter) r (clear_skipped counter r)"
proof -
  obtain i1 r1 where 1: "clear_to_word (rk_next r) counter r = (i1, r1)" by (cases "clear_to_word (rk_next r) counter r")
  obtain i2 r2 where 2: "clear_words (Suc (unat N_WORDS)) i1 counter r1 = (i2, r2)"
    by (cases "clear_words (Suc (unat N_WORDS)) i1 counter r1")
  note c1 = clear_to_word_ok [OF 1 assms(1,2)]
  then have "wide r1" by (simp add: cleared_def)
  note c2 = clear_words_done [OF 2 this _ _ assms(4)]
  from c1 c2 assms(3) have c2: "unat i1 \<le> unat i2" "i2 \<le> counter" "cleared (unat i1) (unat i2) r1 r2" by auto
  then have "wide r2" by (simp add: cleared_def)
  note c3 = clear_rest_ok [OF this c2(2)]
  have "cleared (unat (rk_next r)) (unat i2) r r2" using cleared_trans c1 c2 by blast
  moreover have "clear_skipped counter r = clear_rest i2 counter r2"
    unfolding clear_skipped_def 1 prod.case 2 ..
  ultimately show ?thesis using cleared_trans [OF _ c3] c1 c2 by (simp add: word_le_nat_alt)
qed

section \<open>What the window promises\<close>

text \<open>
  The set of counters a receiver has accepted decides what it accepts: a counter not seen
  yet, and less than 1024 behind the highest.
\<close>

definition accepts :: "nat set \<Rightarrow> nat \<Rightarrow> bool" where
  "accepts S c \<longleftrightarrow> c \<notin> S \<and> (\<forall>m\<in>S. m < c + 1024)"

definition window :: "nat set \<Rightarrow> replay \<Rightarrow> bool" where
  "window S r \<longleftrightarrow> wide r \<and> (\<forall>m\<in>S. m < unat (rk_next r)) \<and> (rk_next r = 0 \<or> unat (rk_next r) - 1 \<in> S) \<and>
     (\<forall>c. c < rk_next r \<longrightarrow> unat (rk_next r) \<le> unat c + 1024 \<longrightarrow> (check_bit c r \<longleftrightarrow> unat c \<in> S))"

lemma near_mod: "a mod 1024 = b mod 1024 \<Longrightarrow> a < b + 1024 \<Longrightarrow> b < a + 1024 \<Longrightarrow> a = (b :: nat)"
proof (induction a b rule: linorder_wlog)
  case (le a b)
  then have "1024 dvd b - a" by (metis mod_eq_dvd_iff_nat)
  with le show ?case by (cases "b - a = 0") (auto dest: dvd_imp_le)
qed simp

lemma window_accepts:
  assumes "window S r"
  shows "accepts S c \<longleftrightarrow> c \<notin> S \<and> unat (rk_next r) \<le> c + 1024"
proof (cases "rk_next r = 0")
  case False
  then have "0 < unat (rk_next r)" by (simp add: unat_gt_0)
  with False assms show ?thesis by (fastforce simp: accepts_def window_def)
qed (use assms in \<open>auto simp: accepts_def window_def\<close>)

lemma window_default: "window {} replay_default"
  by (simp add: window_def replay_default_def)

lemma unat_add_bits: "unat c + 1024 < 2 ^ 64 \<Longrightarrow> unat (c + N_BITS) = unat c + 1024"
  by (simp add: unat_word_ariths)

lemma unat_add_one: "unat (c :: u64) + 1024 < 2 ^ 64 \<Longrightarrow> unat (c + 1) = Suc (unat c)"
  by (simp add: unat_word_ariths)

lemma window_bits:
  assumes "window S r"
  shows "wide r" and "m \<in> S \<Longrightarrow> m < unat (rk_next r)"
    and "unat d < unat (rk_next r) \<Longrightarrow> unat (rk_next r) \<le> unat d + 1024 \<Longrightarrow> check_bit d r \<longleftrightarrow> unat d \<in> S"
  using assms by (auto simp: window_def word_less_nat_alt)

text \<open>A new counter \<open>c\<close> is marked in a window that now ends at \<open>n\<close>: its bit is set, the rest of the window is right.\<close>

lemma window_insert:
  assumes "window S r" and "wide r1" and n: "unat (rk_next r) \<le> unat n" "unat c < unat n" "unat n - 1 \<in> insert (unat c) S"
    and c: "unat n \<le> unat c + 1024"
    and "\<And>d. unat d < unat n \<Longrightarrow> unat n \<le> unat d + 1024 \<Longrightarrow> unat d \<noteq> unat c \<Longrightarrow> check_bit d r1 \<longleftrightarrow> unat d \<in> S"
  shows "window (insert (unat c) S) ((set_bit_rk c r1)\<lparr>rk_next := n\<rparr>)"
proof -
  let ?r = "(set_bit_rk c r1)\<lparr>rk_next := n\<rparr>"
  have "check_bit d ?r \<longleftrightarrow> unat d \<in> insert (unat c) S" if d: "unat d < unat n" "unat n \<le> unat d + 1024" for d
  proof -
    have "check_bit d ?r \<longleftrightarrow> unat d mod 1024 = unat c mod 1024 \<or> check_bit d r1"
      using assms(2) check_set_bit [of r1 d c] by (simp add: check_bit_def)
    also have "\<dots> \<longleftrightarrow> unat d = unat c \<or> check_bit d r1" using near_mod [of "unat d" "unat c"] d n c by auto
    finally show ?thesis using assms(7) [OF d] by auto
  qed
  moreover have "\<forall>m\<in>insert (unat c) S. m < unat n" using window_bits(2) [OF assms(1)] n by fastforce
  ultimately show ?thesis using assms(2) n(3) by (simp add: window_def word_less_nat_alt)
qed

lemma window_in_order:
  assumes "window S r" and "unat (rk_next r) + 1024 < 2 ^ 64"
  shows "window (insert (unat (rk_next r)) S) ((set_bit_rk (rk_next r) r)\<lparr>rk_next := rk_next r + 1\<rparr>)"
proof (rule window_insert [OF assms(1)])
  note s = unat_add_one [OF assms(2)]
  fix d :: u64
  assume "unat d < unat (rk_next r + 1)" "unat (rk_next r + 1) \<le> unat d + 1024" "unat d \<noteq> unat (rk_next r)"
  then show "check_bit d r \<longleftrightarrow> unat d \<in> S" using window_bits(3) [OF assms(1), of d] s by simp
qed (use window_bits(1) [OF assms(1)] unat_add_one [OF assms(2)] in simp_all)

lemma window_late:
  assumes "window S r" and "c < rk_next r" and "unat (rk_next r) \<le> unat c + 1024"
  shows "window (insert (unat c) S) (set_bit_rk c r)"
proof -
  have "unat (rk_next r) - 1 \<in> S" using assms(1,2) by (auto simp: window_def)
  then have "window (insert (unat c) S) ((set_bit_rk c r)\<lparr>rk_next := rk_next r\<rparr>)"
    using window_insert [OF assms(1) window_bits(1) [OF assms(1)], of "rk_next r" c] window_bits(3) [OF assms(1)] assms(2,3)
    by (simp add: word_less_nat_alt)
  moreover have "(set_bit_rk c r)\<lparr>rk_next := rk_next r\<rparr> = set_bit_rk c r" by (simp add: set_bit_rk_def Let_def)
  ultimately show ?thesis by metis
qed

lemma window_ahead:
  assumes w: "window S r" and c: "unat c + 1024 < 2 ^ 64" and n: "rk_next r < c"
  defines "r1 \<equiv> if N_BITS \<le> c - rk_next r then r\<lparr>rk_bitmap := map (\<lambda>_. 0) (rk_bitmap r)\<rparr> else clear_skipped c r"
  shows "window (insert (unat c) S) ((set_bit_rk c r1)\<lparr>rk_next := c + 1\<rparr>)"
proof -
  note wide = window_bits(1) [OF w]
  have lt: "unat (rk_next r) < unat c" using n by (simp add: word_less_nat_alt)
  have diff: "N_BITS \<le> c - rk_next r \<longleftrightarrow> unat (rk_next r) + 1024 \<le> unat c"
    using n lt by (simp add: word_le_nat_alt unat_sub) linarith
  have r1: "wide r1 \<and> (\<forall>d. check_bit d r1 \<longleftrightarrow> unat c < unat (rk_next r) + 1024 \<and> check_bit d r \<and>
      \<not> (\<exists>j. unat (rk_next r) \<le> j \<and> j < unat c \<and> unat d mod 1024 = j mod 1024))"
  proof (cases "N_BITS \<le> c - rk_next r")
    case True
    then show ?thesis using wide diff by (simp add: check_bit_bit r1_def)
  next
    case False
    then have "cleared (unat (rk_next r)) (unat c) r r1" and "unat c < unat (rk_next r) + 1024"
      using clear_skipped_ok [OF wide, of c] n diff c by (simp_all add: r1_def)
    then show ?thesis by (simp add: cleared_def)
  qed
  show ?thesis
  proof (rule window_insert [OF w])
    fix d :: u64
    assume "unat d < unat (c + 1)" "unat (c + 1) \<le> unat d + 1024" "unat d \<noteq> unat c"
    then have d: "unat d < unat c" "unat c < unat d + 1024" using unat_add_one [OF c] by simp_all
    show "check_bit d r1 \<longleftrightarrow> unat d \<in> S"
    proof (cases "unat d < unat (rk_next r)")
      case True
      have "\<not> (\<exists>j. unat (rk_next r) \<le> j \<and> j < unat c \<and> unat d mod 1024 = j mod 1024)"
        using near_mod [of "unat d"] True d by fastforce
      moreover have "check_bit d r \<longleftrightarrow> unat d \<in> S" using window_bits(3) [OF w True] lt d by simp
      moreover have "unat c < unat (rk_next r) + 1024" using True d by simp
      ultimately show ?thesis using r1 by simp
    next
      case False
      then show ?thesis using r1 window_bits(2) [OF w, of "unat d"] d by auto
    qed
  qed (use r1 unat_add_one [OF c] lt in simp_all)
qed

lemma mark_window:
  assumes w: "window S r" and c: "unat c + 1024 < 2 ^ 64" and m: "mark_did_receive c r = (r', res)"
  shows "(res = Inr () \<longleftrightarrow> accepts S (unat c)) \<and> window (if accepts S (unat c) then insert (unat c) S else S) r'"
proof -
  note acc = window_accepts [OF w, of "unat c"] and bits = window_bits [OF w]
  have old: "c + N_BITS < rk_next r \<longleftrightarrow> unat c + 1024 < unat (rk_next r)"
    by (simp add: word_less_nat_alt unat_add_bits [OF c])
  consider (far) "c + N_BITS < rk_next r" | (eq) "c = rk_next r"
    | (late) "\<not> c + N_BITS < rk_next r" "c \<noteq> rk_next r" "c < rk_next r"
    | (ahead) "\<not> c + N_BITS < rk_next r" "c \<noteq> rk_next r" "\<not> c < rk_next r" by fastforce
  then show ?thesis
  proof cases
    case far
    then show ?thesis using m w acc old by (auto simp: mark_did_receive_def)
  next
    case eq
    then show ?thesis using m acc bits(2) old window_in_order [OF w] c by (fastforce simp: mark_did_receive_def)
  next
    case late
    then have "check_bit c r \<longleftrightarrow> unat c \<in> S" using bits(3) [of c] old by (simp add: word_less_nat_alt)
    with late show ?thesis using m acc old w window_late [OF w, of c] by (auto simp: mark_did_receive_def)
  next
    case ahead
    then have n: "rk_next r < c" by simp
    then have "unat (rk_next r) < unat c" by (simp add: word_less_nat_alt)
    then have "accepts S (unat c)" using acc bits(2) [of "unat c"] by auto
    with ahead show ?thesis using m window_ahead [OF w c n] by (auto simp: mark_did_receive_def Let_def)
  qed
qed


lemma will_accept_window:
  assumes "window S r" and "unat c + 1024 < 2 ^ 64"
  shows "will_accept c r = Inr () \<longleftrightarrow> accepts S (unat c)"
proof -
  have "c + N_BITS < rk_next r \<longleftrightarrow> unat c + 1024 < unat (rk_next r)"
    by (simp add: word_less_nat_alt unat_add_bits [OF assms(2)])
  then show ?thesis
    using window_accepts [OF assms(1), of "unat c"] window_bits(2,3) [OF assms(1)]
    by (fastforce simp: will_accept_def word_less_nat_alt word_le_nat_alt not_le)
qed

text \<open>A sequence of packets through the window, and through the set of what was accepted.\<close>

fun mark_all :: "u64 list \<Rightarrow> replay \<Rightarrow> bool list" where
  "mark_all [] r = []"
| "mark_all (c # cs) r = (case mark_did_receive c r of (r, res) \<Rightarrow> (res = Inr ()) # mark_all cs r)"

fun accept_all :: "nat list \<Rightarrow> nat set \<Rightarrow> bool list" where
  "accept_all [] S = []"
| "accept_all (c # cs) S = accepts S c # accept_all cs (if accepts S c then insert c S else S)"

lemma mark_all_window:
  "window S r \<Longrightarrow> \<forall>c\<in>set cs. unat c + 1024 < 2 ^ 64 \<Longrightarrow> mark_all cs r = accept_all (map unat cs) S"
proof (induction cs arbitrary: S r)
  case (Cons c cs)
  obtain r' res where m: "mark_did_receive c r = (r', res)" by (cases "mark_did_receive c r")
  from mark_window [OF Cons.prems(1) _ m] Cons.prems(2)
  have "res = Inr () \<longleftrightarrow> accepts S (unat c)" "window (if accepts S (unat c) then insert (unat c) S else S) r'" by auto
  with Cons.IH [of _ r'] Cons.prems(2) m show ?case by simp
qed simp

text \<open>
  C8: The replay window is exact. For counters short of the last 1024 values of the 64-bit
  range, a sequence of packets passes the bit ring exactly as it would pass a receiver that
  remembers the set of all counters it accepted and takes a counter when it is new and less
  than 1024 behind the highest; in particular no counter is accepted twice.
\<close>

theorem replay_window_exact:
  assumes "\<forall>c\<in>set cs. unat c + 1024 < 2 ^ 64"
  shows "mark_all cs replay_default = accept_all (map unat cs) {}"
  by (rule mark_all_window [OF window_default assms])

theorem replay_window_exact_witness: "mark_all [0, 70, 5, 70, 1200, 100] replay_default = [True, True, True, False, True, False]"
  using replay_window_exact [of "[0, 70, 5, 70, 1200, 100]"] by (simp add: accepts_def)


end
