(* ===== verification/Wg_Noise.thy ===== *)
theory Wg_Noise
  imports Wg_Replay
begin

unbundle bit_operations_syntax

text \<open>
  The handshake and the sessions of the vendored WireGuard implementation:
  \<open>vendor/boringtun/src/noise/handshake.rs\<close> and \<open>session.rs\<close>. Hashing, key agreement and
  authenticated encryption come from other packages and are a parameter, a record of
  functions, with what they document as a hypothesis. Readings of the clock and random keys
  come from the platform, one after the other.
\<close>

section \<open>64-bit integers on the wire\<close>

definition u64_to_le_bytes :: "u64 \<Rightarrow> bytes" where
  "u64_to_le_bytes w = map (\<lambda>i. ucast (drop_bit (8 * i) w)) [0..<8]"

definition u64_to_be_bytes :: "u64 \<Rightarrow> bytes" where
  "u64_to_be_bytes w = rev (u64_to_le_bytes w)"

fun u64_from_le_bytes :: "bytes \<Rightarrow> u64" where
  "u64_from_le_bytes [] = 0"
| "u64_from_le_bytes (b # bs) = ucast b OR push_bit 8 (u64_from_le_bytes bs)"

definition u64_from_be_bytes :: "bytes \<Rightarrow> u64" where
  "u64_from_be_bytes bs = u64_from_le_bytes (rev bs)"

definition u32_le_bytes :: "bytes \<Rightarrow> u32" where
  "u32_le_bytes bs = u32_from_le_bytes (bs ! 0) (bs ! 1) (bs ! 2) (bs ! 3)"

section \<open>What other packages provide\<close>

record crypto =
  blake2s :: "bytes \<Rightarrow> bytes"
  hmac_blake2s :: "bytes \<Rightarrow> bytes \<Rightarrow> bytes"
  keyed_mac_16 :: "bytes \<Rightarrow> bytes \<Rightarrow> bytes"
  keyed_mac_24 :: "bytes \<Rightarrow> bytes \<Rightarrow> bytes"
  diffie_hellman :: "bytes \<Rightarrow> bytes \<Rightarrow> bytes"
  public_key :: "bytes \<Rightarrow> bytes"
  aead_seal :: "bytes \<Rightarrow> bytes \<Rightarrow> bytes \<Rightarrow> bytes \<Rightarrow> bytes"
  aead_open :: "bytes \<Rightarrow> bytes \<Rightarrow> bytes \<Rightarrow> bytes \<Rightarrow> bytes option"
  xaead_seal :: "bytes \<Rightarrow> bytes \<Rightarrow> bytes \<Rightarrow> bytes \<Rightarrow> bytes"
  xaead_open :: "bytes \<Rightarrow> bytes \<Rightarrow> bytes \<Rightarrow> bytes \<Rightarrow> bytes option"

text \<open>
  What the code relies on: both sides of a key agreement get the same secret, opening gives
  back what was sealed, a seal is sixteen bytes longer than its text, and keys and tags have
  their sizes.
\<close>

definition crypto_ok :: "crypto \<Rightarrow> bool" where
  "crypto_ok C \<longleftrightarrow>
     (\<forall>a b. diffie_hellman C a (public_key C b) = diffie_hellman C b (public_key C a)) \<and>
     (\<forall>k n ad p. aead_open C k n ad (aead_seal C k n ad p) = Some p \<and> length (aead_seal C k n ad p) = length p + 16) \<and>
     (\<forall>a. length (public_key C a) = 32) \<and> (\<forall>k d. length (keyed_mac_16 C k d) = 16)"

text \<open>The platform: readings of the monotonic clock, and random keys, in the order they are asked for.\<close>

record platform =
  clock :: "nat \<Rightarrow> instant"
  clock_reads :: nat
  rng :: "nat \<Rightarrow> bytes"
  rng_reads :: nat

definition instant_now :: "platform \<Rightarrow> instant \<times> platform" where
  "instant_now pl = (clock pl (clock_reads pl), pl\<lparr>clock_reads := Suc (clock_reads pl)\<rparr>)"

definition random_secret :: "platform \<Rightarrow> bytes \<times> platform" where
  "random_secret pl = (rng pl (rng_reads pl), pl\<lparr>rng_reads := Suc (rng_reads pl)\<rparr>)"

section \<open>Hashes and sealed fields\<close>

definition b2s_hash :: "crypto \<Rightarrow> bytes \<Rightarrow> bytes \<Rightarrow> bytes" where
  "b2s_hash C d1 d2 = blake2s C (d1 @ d2)"

definition b2s_hmac :: "crypto \<Rightarrow> bytes \<Rightarrow> bytes \<Rightarrow> bytes" where
  "b2s_hmac C key d1 = hmac_blake2s C key d1"

definition b2s_hmac2 :: "crypto \<Rightarrow> bytes \<Rightarrow> bytes \<Rightarrow> bytes \<Rightarrow> bytes" where
  "b2s_hmac2 C key d1 d2 = hmac_blake2s C key (d1 @ d2)"

definition b2s_keyed_mac_16 :: "crypto \<Rightarrow> bytes \<Rightarrow> bytes \<Rightarrow> bytes" where
  "b2s_keyed_mac_16 C key d1 = keyed_mac_16 C key d1"

definition b2s_keyed_mac_16_2 :: "crypto \<Rightarrow> bytes \<Rightarrow> bytes \<Rightarrow> bytes \<Rightarrow> bytes" where
  "b2s_keyed_mac_16_2 C key d1 d2 = keyed_mac_16 C key (d1 @ d2)"

definition b2s_mac_24 :: "crypto \<Rightarrow> bytes \<Rightarrow> bytes \<Rightarrow> bytes" where
  "b2s_mac_24 C key d1 = keyed_mac_24 C key d1"

definition counter_nonce :: "u64 \<Rightarrow> bytes" where
  "counter_nonce counter = [0, 0, 0, 0] @ u64_to_le_bytes counter"

definition aead_chacha20_seal :: "crypto \<Rightarrow> bytes \<Rightarrow> u64 \<Rightarrow> bytes \<Rightarrow> bytes \<Rightarrow> bytes" where
  "aead_chacha20_seal C key counter data aad = aead_seal C key (counter_nonce counter) aad data"

definition aead_chacha20_open :: "crypto \<Rightarrow> bytes \<Rightarrow> u64 \<Rightarrow> bytes \<Rightarrow> bytes \<Rightarrow> wg_error + bytes" where
  "aead_chacha20_open C key counter data aad = ok_or (aead_open C key (counter_nonce counter) aad data) InvalidAeadTag"

section \<open>Timestamps\<close>

record tai64n =
  tai_secs :: u64
  tai_nano :: u32

definition tai64n_zero :: tai64n where
  "tai64n_zero = \<lparr>tai_secs = 0, tai_nano = 0\<rparr>"

definition tai64n_parse :: "bytes \<Rightarrow> wg_error + tai64n" where
  "tai64n_parse buf =
     (if length buf < 12 then Inl InvalidTai64nTimestamp
      else Inr \<lparr>tai_secs = u64_from_be_bytes (take 8 buf),
                tai_nano = u32_from_be_bytes (buf ! 8) (buf ! 9) (buf ! 10) (buf ! 11)\<rparr>)"

definition tai64n_after :: "tai64n \<Rightarrow> tai64n \<Rightarrow> bool" where
  "tai64n_after a b \<longleftrightarrow> tai_secs b < tai_secs a \<or> tai_secs a = tai_secs b \<and> tai_nano b < tai_nano a"

record time_stamper =
  duration_at_start :: duration
  instant_at_start :: instant

definition TAI64_BASE :: u64 where
  "TAI64_BASE = push_bit 62 1 + 37"

definition stamp :: "time_stamper \<Rightarrow> platform \<Rightarrow> bytes \<times> platform" where
  "stamp st pl =
     (case instant_now pl of
        (now, pl) \<Rightarrow>
          (let d = duration_since now (instant_at_start st) + duration_at_start st
           in (u64_to_be_bytes (word_of_nat (d div 1000000000) + TAI64_BASE) @
               u32_to_be_bytes (word_of_nat (d mod 1000000000)), pl)))"

section \<open>Handshake state\<close>

definition LABEL_MAC1 :: bytes where "LABEL_MAC1 = [109, 97, 99, 49, 45, 45, 45, 45]"
definition LABEL_COOKIE :: bytes where "LABEL_COOKIE = [99, 111, 111, 107, 105, 101, 45, 45]"

definition INITIAL_CHAIN_KEY :: bytes where
  "INITIAL_CHAIN_KEY =
     [96, 226, 109, 174, 243, 39, 239, 192, 46, 195, 53, 226, 160, 37, 210, 208, 22, 235, 66, 6, 248,
      114, 119, 245, 45, 56, 209, 152, 139, 120, 205, 54]"

definition INITIAL_CHAIN_HASH :: bytes where
  "INITIAL_CHAIN_HASH =
     [34, 17, 179, 97, 8, 26, 197, 102, 105, 18, 67, 219, 69, 138, 213, 50, 45, 156, 108, 102, 34,
      147, 232, 183, 14, 225, 156, 101, 186, 7, 158, 243]"

record noise_params =
  static_public :: bytes
  static_private :: bytes
  peer_static_public :: bytes
  static_shared :: bytes
  sending_mac1_key :: bytes
  preshared_key :: "bytes option"

definition noise_params_new :: "crypto \<Rightarrow> bytes \<Rightarrow> bytes \<Rightarrow> bytes \<Rightarrow> bytes option \<Rightarrow> noise_params" where
  "noise_params_new C priv pub peer psk =
     \<lparr>static_public = pub, static_private = priv, peer_static_public = peer,
      static_shared = diffie_hellman C priv peer, sending_mac1_key = b2s_hash C LABEL_MAC1 peer,
      preshared_key = psk\<rparr>"

record init_sent =
  is_local_index :: u32
  is_hash :: bytes
  is_chaining_key :: bytes
  is_ephemeral_private :: bytes
  is_time_sent :: instant

datatype handshake_state =
    HsNone
  | InitSent init_sent
  | InitReceived (ir_hash: bytes) (ir_chaining_key: bytes) (ir_peer_ephemeral_public: bytes) (ir_peer_index: u32)
  | HsExpired

record cookies =
  last_mac1 :: "bytes option"
  cookie_index :: u32
  write_cookie :: "bytes option"

record handshake =
  hs_params :: noise_params
  next_index :: u32
  previous :: handshake_state
  hs_state :: handshake_state
  hs_cookies :: cookies
  last_handshake_timestamp :: tai64n
  stamper :: time_stamper
  last_rtt :: "u32 option"

definition handshake_new ::
  "crypto \<Rightarrow> bytes \<Rightarrow> bytes \<Rightarrow> bytes \<Rightarrow> u32 \<Rightarrow> bytes option \<Rightarrow> time_stamper \<Rightarrow> handshake" where
  "handshake_new C priv pub peer global_idx psk st =
     \<lparr>hs_params = noise_params_new C priv pub peer psk, next_index = global_idx, previous = HsNone, hs_state = HsNone,
      hs_cookies = \<lparr>last_mac1 = None, cookie_index = 0, write_cookie = None\<rparr>,
      last_handshake_timestamp = tai64n_zero, stamper = st, last_rtt = None\<rparr>"

definition is_in_progress :: "handshake \<Rightarrow> bool" where
  "is_in_progress h \<longleftrightarrow> hs_state h \<noteq> HsNone \<and> hs_state h \<noteq> HsExpired"

definition hs_timer :: "handshake \<Rightarrow> instant option" where
  "hs_timer h = (case hs_state h of InitSent s \<Rightarrow> Some (is_time_sent s) | _ \<Rightarrow> None)"

definition set_expired :: "handshake \<Rightarrow> handshake" where
  "set_expired h = h\<lparr>previous := HsExpired, hs_state := HsExpired\<rparr>"

definition is_expired :: "handshake \<Rightarrow> bool" where
  "is_expired h \<longleftrightarrow> hs_state h = HsExpired"

definition has_cookie :: "handshake \<Rightarrow> bool" where
  "has_cookie h \<longleftrightarrow> write_cookie (hs_cookies h) \<noteq> None"

definition clear_cookie :: "handshake \<Rightarrow> handshake" where
  "clear_cookie h = h\<lparr>hs_cookies := (hs_cookies h)\<lparr>write_cookie := None\<rparr>\<rparr>"

definition inc_index :: "handshake \<Rightarrow> u32 \<times> handshake" where
  "inc_index h =
     (let index = next_index h; idx8 = (ucast index :: u8); nxt = (index AND NOT 0xff) OR ucast (idx8 + 1)
      in (nxt, h\<lparr>next_index := nxt\<rparr>))"

text \<open>A private key and its public key that do not belong together are a panic.\<close>

definition set_static_private :: "crypto \<Rightarrow> bytes \<Rightarrow> bytes \<Rightarrow> handshake \<Rightarrow> handshake option" where
  "set_static_private C priv pub h =
     (if public_key C priv \<noteq> pub then None
      else Some (h\<lparr>hs_params := (hs_params h)\<lparr>static_private := priv, static_public := pub,
             static_shared := diffie_hellman C priv (peer_static_public (hs_params h))\<rparr>\<rparr>))"

section \<open>Messages\<close>

record handshake_init =
  hi_sender_idx :: u32
  hi_unencrypted_ephemeral :: bytes
  hi_encrypted_static :: bytes
  hi_encrypted_timestamp :: bytes

record handshake_response =
  hr_sender_idx :: u32
  hr_receiver_idx :: u32
  hr_unencrypted_ephemeral :: bytes
  hr_encrypted_nothing :: bytes

record cookie_reply =
  cr_receiver_idx :: u32
  cr_nonce :: bytes
  cr_encrypted_cookie :: bytes

record packet_data =
  pd_receiver_idx :: u32
  pd_counter :: u64
  pd_encrypted :: bytes

datatype packet =
    PHandshakeInit handshake_init
  | PHandshakeResponse handshake_response
  | PCookieReply cookie_reply
  | PData packet_data

definition HANDSHAKE_INIT_SZ :: nat where "HANDSHAKE_INIT_SZ = 148"
definition HANDSHAKE_RESP_SZ :: nat where "HANDSHAKE_RESP_SZ = 92"
definition COOKIE_REPLY_SZ :: nat where "COOKIE_REPLY_SZ = 64"
definition DATA_OVERHEAD_SZ :: nat where "DATA_OVERHEAD_SZ = 32"

definition parse_incoming_packet :: "bytes \<Rightarrow> wg_error + packet" where
  "parse_incoming_packet src =
     (if length src < 4 then Inl InvalidPacket
      else
        let packet_type = u32_le_bytes (take 4 src)
        in if packet_type = 1 \<and> length src = HANDSHAKE_INIT_SZ then
             Inr (PHandshakeInit \<lparr>hi_sender_idx = u32_le_bytes (byte_range 4 8 src),
               hi_unencrypted_ephemeral = byte_range 8 40 src,
               hi_encrypted_static = byte_range 40 88 src, hi_encrypted_timestamp = byte_range 88 116 src\<rparr>)
           else if packet_type = 2 \<and> length src = HANDSHAKE_RESP_SZ then
             Inr (PHandshakeResponse \<lparr>hr_sender_idx = u32_le_bytes (byte_range 4 8 src),
               hr_receiver_idx = u32_le_bytes (byte_range 8 12 src),
               hr_unencrypted_ephemeral = byte_range 12 44 src, hr_encrypted_nothing = byte_range 44 60 src\<rparr>)
           else if packet_type = 3 \<and> length src = COOKIE_REPLY_SZ then
             Inr (PCookieReply \<lparr>cr_receiver_idx = u32_le_bytes (byte_range 4 8 src),
               cr_nonce = byte_range 8 32 src, cr_encrypted_cookie = byte_range 32 64 src\<rparr>)
           else if packet_type = 4 \<and> DATA_OVERHEAD_SZ \<le> length src then
             Inr (PData \<lparr>pd_receiver_idx = u32_le_bytes (byte_range 4 8 src),
               pd_counter = u64_from_le_bytes (byte_range 8 16 src), pd_encrypted = drop 16 src\<rparr>)
           else Inl InvalidPacket)"

section \<open>Sessions\<close>

record wg_session =
  receiving_index :: u32
  sending_index :: u32
  s_receiver :: bytes
  s_sender :: bytes
  sending_key_counter :: u64
  receiving_key_counter :: replay

datatype wg_fault = WgErr wg_error | WgPanic

definition wg_session_new :: "u32 \<Rightarrow> u32 \<Rightarrow> bytes \<Rightarrow> bytes \<Rightarrow> wg_session" where
  "wg_session_new local_index peer_index receiving_key sending_key =
     \<lparr>receiving_index = local_index, sending_index = peer_index, s_receiver = receiving_key, s_sender = sending_key,
      sending_key_counter = 0, receiving_key_counter = replay_default\<rparr>"

definition receiving_counter_mark :: "u64 \<Rightarrow> wg_session \<Rightarrow> wg_session \<times> (wg_error + unit)" where
  "receiving_counter_mark counter s =
     (case mark_did_receive counter (receiving_key_counter s) of
        (r, ret) \<Rightarrow>
          (s\<lparr>receiving_key_counter := (if ret = Inr () then r\<lparr>rk_receive_cnt := rk_receive_cnt r + 1\<rparr> else r)\<rparr>, ret))"

text \<open>A destination that is too small is a panic.\<close>

definition format_packet_data :: "crypto \<Rightarrow> nat \<Rightarrow> bytes \<Rightarrow> wg_session \<Rightarrow> (wg_session \<times> bytes) option" where
  "format_packet_data C dst_len src s =
     (if dst_len < length src + DATA_OVERHEAD_SZ then None
      else
        let counter = sending_key_counter s
        in Some (s\<lparr>sending_key_counter := counter + 1\<rparr>,
             u32_to_le_bytes 4 @ u32_to_le_bytes (sending_index s) @ u64_to_le_bytes counter @
             aead_seal C (s_sender s) (counter_nonce counter) [] src))"

definition receive_packet_data ::
  "crypto \<Rightarrow> nat \<Rightarrow> packet_data \<Rightarrow> wg_session \<Rightarrow> wg_session \<times> (wg_fault + bytes)" where
  "receive_packet_data C dst_len p s =
     (if dst_len < length (pd_encrypted p) then (s, Inl WgPanic)
      else if pd_receiver_idx p \<noteq> receiving_index s then (s, Inl (WgErr WrongIndex))
      else
        case will_accept (pd_counter p) (receiving_key_counter s) of
          Inl e \<Rightarrow> (s, Inl (WgErr e))
        | Inr _ \<Rightarrow>
            (case aead_open C (s_receiver s) (counter_nonce (pd_counter p)) [] (pd_encrypted p) of
               None \<Rightarrow> (s, Inl (WgErr InvalidAeadTag))
             | Some plain \<Rightarrow>
                 (case receiving_counter_mark (pd_counter p) s of
                    (s, Inl e) \<Rightarrow> (s, Inl (WgErr e))
                  | (s, Inr _) \<Rightarrow> (s, Inr plain))))"

section \<open>The handshake\<close>

text \<open>What the first message carries, up to the initiator's static key, which both readers of it compute.\<close>

definition init_prologue :: "crypto \<Rightarrow> bytes \<Rightarrow> bytes \<Rightarrow> bytes \<Rightarrow> bytes \<times> bytes \<times> bytes" where
  "init_prologue C responder_public ephemeral_public shared =
     (let hash = b2s_hash C INITIAL_CHAIN_HASH responder_public;
          hash = b2s_hash C hash ephemeral_public;
          chaining_key = b2s_hmac C (b2s_hmac C INITIAL_CHAIN_KEY ephemeral_public) [1];
          temp = b2s_hmac C chaining_key shared;
          chaining_key = b2s_hmac C temp [1];
          key = b2s_hmac2 C temp chaining_key [2]
      in (hash, chaining_key, key))"

record half_handshake =
  hh_peer_index :: u32
  hh_peer_static_public :: bytes

definition parse_handshake_anon :: "crypto \<Rightarrow> bytes \<Rightarrow> bytes \<Rightarrow> handshake_init \<Rightarrow> wg_error + half_handshake" where
  "parse_handshake_anon C priv pub p =
     (case init_prologue C pub (hi_unencrypted_ephemeral p) (diffie_hellman C priv (hi_unencrypted_ephemeral p)) of
        (hash, chaining_key, key) \<Rightarrow>
          and_then (aead_chacha20_open C key 0 (hi_encrypted_static p) hash) (\<lambda>peer.
          Inr \<lparr>hh_peer_index = hi_sender_idx p, hh_peer_static_public = peer\<rparr>))"

definition append_mac1_and_mac2 :: "crypto \<Rightarrow> u32 \<Rightarrow> bytes \<Rightarrow> handshake \<Rightarrow> handshake \<times> bytes" where
  "append_mac1_and_mac2 C local_index msg h =
     (let msg_mac1 = b2s_keyed_mac_16 C (sending_mac1_key (hs_params h)) msg;
          msg_mac2 = (case write_cookie (hs_cookies h) of
                        Some cookie \<Rightarrow> b2s_keyed_mac_16 C cookie (msg @ msg_mac1)
                      | None \<Rightarrow> replicate 16 0)
      in (h\<lparr>hs_cookies := (hs_cookies h)\<lparr>cookie_index := local_index, last_mac1 := Some msg_mac1\<rparr>\<rparr>,
          msg @ msg_mac1 @ msg_mac2))"

definition format_handshake_initiation ::
  "crypto \<Rightarrow> nat \<Rightarrow> platform \<Rightarrow> handshake \<Rightarrow> handshake \<times> platform \<times> (wg_error + bytes)" where
  "format_handshake_initiation C dst_len pl h =
     (if dst_len < HANDSHAKE_INIT_SZ then (h, pl, Inl DestinationBufferTooSmall)
      else
        case inc_index h of (local_index, h) \<Rightarrow>
        (case random_secret pl of (ephemeral_private, pl) \<Rightarrow>
        (let ps = hs_params h;
             ephemeral = public_key C ephemeral_private;
             (hash, chaining_key, key) =
               init_prologue C (peer_static_public ps) ephemeral (diffie_hellman C ephemeral_private (peer_static_public ps));
             encrypted_static = aead_chacha20_seal C key 0 (static_public ps) hash;
             hash = b2s_hash C hash encrypted_static;
             temp = b2s_hmac C chaining_key (static_shared ps);
             chaining_key = b2s_hmac C temp [1];
             key = b2s_hmac2 C temp chaining_key [2]
         in case stamp (stamper h) pl of (timestamp, pl) \<Rightarrow>
         (let encrypted_timestamp = aead_chacha20_seal C key 0 timestamp hash;
              hash = b2s_hash C hash encrypted_timestamp
          in case instant_now pl of (time_now, pl) \<Rightarrow>
          (let h = h\<lparr>previous := hs_state h,
                 hs_state := InitSent \<lparr>is_local_index = local_index, is_hash = hash, is_chaining_key = chaining_key,
                               is_ephemeral_private = ephemeral_private, is_time_sent = time_now\<rparr>\<rparr>
           in case append_mac1_and_mac2 C local_index
                (u32_to_le_bytes 1 @ u32_to_le_bytes local_index @ ephemeral @ encrypted_static @ encrypted_timestamp) h of
                (h, packet) \<Rightarrow> (h, pl, Inr packet))))))"

text \<open>The derivation of the second message's keys, from the three agreements and the preshared key.\<close>

definition response_keys ::
  "crypto \<Rightarrow> bytes \<Rightarrow> bytes \<Rightarrow> bytes \<Rightarrow> bytes \<Rightarrow> bytes \<Rightarrow> bytes option \<Rightarrow> bytes \<times> bytes \<times> bytes" where
  "response_keys C hash chaining_key ephemeral ee es psk =
     (let hash = b2s_hash C hash ephemeral;
          temp = b2s_hmac C chaining_key ephemeral;
          chaining_key = b2s_hmac C temp [1];
          temp = b2s_hmac C chaining_key ee;
          chaining_key = b2s_hmac C temp [1];
          temp = b2s_hmac C chaining_key es;
          chaining_key = b2s_hmac C temp [1];
          temp = b2s_hmac C chaining_key (case psk of Some k \<Rightarrow> k | None \<Rightarrow> replicate 32 0);
          chaining_key = b2s_hmac C temp [1];
          temp2 = b2s_hmac2 C temp chaining_key [2];
          key = b2s_hmac2 C temp temp2 [3];
          hash = b2s_hash C hash temp2
      in (hash, chaining_key, key))"

definition transport_keys :: "crypto \<Rightarrow> bytes \<Rightarrow> bytes \<times> bytes" where
  "transport_keys C chaining_key =
     (let temp1 = b2s_hmac C chaining_key [];
          temp2 = b2s_hmac C temp1 [1];
          temp3 = b2s_hmac2 C temp1 temp2 [2]
      in (temp2, temp3))"

definition format_handshake_response ::
  "crypto \<Rightarrow> nat \<Rightarrow> platform \<Rightarrow> handshake \<Rightarrow> handshake \<times> platform \<times> (wg_fault + bytes \<times> wg_session)" where
  "format_handshake_response C dst_len pl h =
     (if dst_len < HANDSHAKE_RESP_SZ then (h, pl, Inl (WgErr DestinationBufferTooSmall))
      else
        case hs_state h of
          InitReceived hash chaining_key peer_ephemeral_public peer_index \<Rightarrow>
            (let h = h\<lparr>hs_state := HsNone\<rparr>
             in case random_secret pl of (ephemeral_private, pl) \<Rightarrow>
                (case inc_index h of (local_index, h) \<Rightarrow>
                (let ps = hs_params h;
                     ephemeral = public_key C ephemeral_private;
                     (hash, chaining_key, key) =
                       response_keys C hash chaining_key ephemeral (diffie_hellman C ephemeral_private peer_ephemeral_public)
                         (diffie_hellman C ephemeral_private (peer_static_public ps)) (preshared_key ps);
                     encrypted_nothing = aead_chacha20_seal C key 0 [] hash;
                     (temp2, temp3) = transport_keys C chaining_key
                 in case append_mac1_and_mac2 C local_index
                      (u32_to_le_bytes 2 @ u32_to_le_bytes local_index @ u32_to_le_bytes peer_index @ ephemeral @ encrypted_nothing) h of
                      (h, packet) \<Rightarrow> (h, pl, Inr (packet, wg_session_new local_index peer_index temp2 temp3)))))
        | _ \<Rightarrow> (h\<lparr>hs_state := HsNone\<rparr>, pl, Inl WgPanic))"

definition receive_handshake_initialization ::
  "crypto \<Rightarrow> nat \<Rightarrow> handshake_init \<Rightarrow> platform \<Rightarrow> handshake \<Rightarrow> handshake \<times> platform \<times> (wg_fault + bytes \<times> wg_session)" where
  "receive_handshake_initialization C dst_len p pl h =
     (let ps = hs_params h; ephemeral = hi_unencrypted_ephemeral p
      in case init_prologue C (static_public ps) ephemeral (diffie_hellman C (static_private ps) ephemeral) of
           (hash, chaining_key, key) \<Rightarrow>
             (case aead_chacha20_open C key 0 (hi_encrypted_static p) hash of
                Inl e \<Rightarrow> (h, pl, Inl (WgErr e))
              | Inr peer \<Rightarrow>
                  if peer \<noteq> peer_static_public ps then (h, pl, Inl (WgErr WrongKey))
                  else
                    (let hash = b2s_hash C hash (hi_encrypted_static p);
                         temp = b2s_hmac C chaining_key (static_shared ps);
                         chaining_key = b2s_hmac C temp [1];
                         key = b2s_hmac2 C temp chaining_key [2]
                     in case and_then (aead_chacha20_open C key 0 (hi_encrypted_timestamp p) hash) tai64n_parse of
                          Inl e \<Rightarrow> (h, pl, Inl (WgErr e))
                        | Inr timestamp \<Rightarrow>
                            if \<not> tai64n_after timestamp (last_handshake_timestamp h)
                            then (h, pl, Inl (WgErr WrongTai64nTimestamp))
                            else
                              (let hash = b2s_hash C hash (hi_encrypted_timestamp p)
                               in format_handshake_response C dst_len pl
                                    (h\<lparr>last_handshake_timestamp := timestamp, previous := hs_state h,
                                       hs_state := InitReceived hash chaining_key ephemeral (hi_sender_idx p)\<rparr>)))))"

text \<open>Which of the two handshakes in flight a response answers, and whether it is the older one.\<close>

definition answered :: "handshake \<Rightarrow> u32 \<Rightarrow> (init_sent \<times> bool) option" where
  "answered h idx =
     (case hs_state h of
        InitSent s \<Rightarrow>
          if is_local_index s = idx then Some (s, False)
          else (case previous h of InitSent s' \<Rightarrow> if is_local_index s' = idx then Some (s', True) else None | _ \<Rightarrow> None)
      | _ \<Rightarrow> (case previous h of InitSent s' \<Rightarrow> if is_local_index s' = idx then Some (s', True) else None | _ \<Rightarrow> None))"

definition receive_handshake_response ::
  "crypto \<Rightarrow> handshake_response \<Rightarrow> platform \<Rightarrow> handshake \<Rightarrow> handshake \<times> platform \<times> (wg_error + wg_session)" where
  "receive_handshake_response C p pl h =
     (case answered h (hr_receiver_idx p) of
        None \<Rightarrow> (h, pl, Inl UnexpectedPacket)
      | Some (st, is_previous) \<Rightarrow>
          (let ps = hs_params h; ephemeral = hr_unencrypted_ephemeral p;
               (hash, chaining_key, key) =
                 response_keys C (is_hash st) (is_chaining_key st) ephemeral
                   (diffie_hellman C (is_ephemeral_private st) ephemeral)
                   (diffie_hellman C (static_private ps) ephemeral) (preshared_key ps)
           in case aead_chacha20_open C key 0 (hr_encrypted_nothing p) hash of
                Inl e \<Rightarrow> (h, pl, Inl e)
              | Inr _ \<Rightarrow>
                  (case transport_keys C chaining_key of (temp2, temp3) \<Rightarrow>
                   (case instant_now pl of (now, pl) \<Rightarrow>
                    (let h = h\<lparr>last_rtt := Some (word_of_nat (duration_since now (is_time_sent st) div 1000000))\<rparr>;
                         h = (if is_previous then h\<lparr>previous := HsNone\<rparr> else h\<lparr>hs_state := HsNone\<rparr>)
                     in (h, pl, Inr (wg_session_new (is_local_index st) (hr_sender_idx p) temp3 temp2)))))))"

definition receive_cookie_reply :: "crypto \<Rightarrow> cookie_reply \<Rightarrow> handshake \<Rightarrow> handshake \<times> (wg_error + unit)" where
  "receive_cookie_reply C p h =
     (case last_mac1 (hs_cookies h) of
        None \<Rightarrow> (h, Inl UnexpectedPacket)
      | Some mac1 \<Rightarrow>
          if cr_receiver_idx p \<noteq> cookie_index (hs_cookies h) then (h, Inl WrongIndex)
          else
            (case xaead_open C (b2s_hash C LABEL_COOKIE (peer_static_public (hs_params h))) (cr_nonce p) mac1
                    (cr_encrypted_cookie p) of
               None \<Rightarrow> (h, Inl InvalidAeadTag)
             | Some cookie \<Rightarrow>
                 if length cookie \<noteq> 16 then (h, Inl InvalidPacket)
                 else (h\<lparr>hs_cookies := (hs_cookies h)\<lparr>write_cookie := Some cookie\<rparr>\<rparr>, Inr ())))"

section \<open>Layouts\<close>

lemma length_u64_bytes [simp]: "length (u64_to_le_bytes w) = 8" "length (u64_to_be_bytes w) = 8"
  by (simp_all add: u64_to_le_bytes_def u64_to_be_bytes_def)

lemma u64_from_to_le [simp]: "u64_from_le_bytes (u64_to_le_bytes w) = w"
proof -
  have step: "ucast (ucast v :: u8) OR push_bit 8 (drop_bit 8 v) = v" for v :: u64
  proof (rule bit_word_eqI)
    fix n assume "n < LENGTH(64)"
    then show "bit (ucast (ucast v :: u8) OR push_bit 8 (drop_bit 8 v)) n = bit v n"
      by (cases "n < 8") (auto simp: bit_simps)
  qed
  have "u64_from_le_bytes (map (\<lambda>i. ucast (drop_bit (8 * i) w)) [k..<k + n]) = drop_bit (8 * k) w" if "64 \<le> 8 * (k + n)" for k n
    using that
  proof (induction n arbitrary: k)
    case 0
    then show ?case by (auto intro!: bit_word_eqI simp: bit_simps)
  next
    case (Suc n)
    then have "u64_from_le_bytes (map (\<lambda>i. ucast (drop_bit (8 * i) w)) [Suc k..<Suc k + n]) = drop_bit (8 * Suc k) w"
      using Suc.IH [of "Suc k"] by simp
    moreover have "drop_bit (8 * Suc k) w = drop_bit 8 (drop_bit (8 * k) w)" by (simp add: add.commute)
    moreover have "[k..<k + Suc n] = k # [Suc k..<Suc k + n]" by (simp add: upt_conv_Cons del: upt_Suc)
    ultimately show ?case using step [of "drop_bit (8 * k) w"] by (simp del: upt_Suc)
  qed
  from this [of 0 8] show ?thesis by (simp add: u64_to_le_bytes_def)
qed

lemma u64_from_to_be [simp]: "u64_from_be_bytes (u64_to_be_bytes w) = w"
  by (simp add: u64_from_be_bytes_def u64_to_be_bytes_def)

lemma u32_le_bytes_round [simp]: "u32_le_bytes (u32_to_le_bytes w) = w"
  by (simp add: u32_le_bytes_def u32_to_le_bytes_def u32_to_be_bytes_def u32_from_le_bytes_def)

lemma byte_range_skip: "length xs \<le> a \<Longrightarrow> byte_range a b (xs @ ys) = byte_range (a - length xs) (b - length xs) ys"
  by (simp add: byte_range_def)

lemma byte_range_all: "b = length xs \<Longrightarrow> byte_range 0 b xs = xs"
  by (simp add: byte_range_def)

lemmas layout_simps = byte_range_skip byte_range_all HANDSHAKE_INIT_SZ_def HANDSHAKE_RESP_SZ_def COOKIE_REPLY_SZ_def
  DATA_OVERHEAD_SZ_def parse_incoming_packet_def Let_def

lemma parse_init [simp]:
  assumes "length e = 32" "length s = 48" "length t = 28" "length m1 = 16" "length m2 = 16"
  shows "parse_incoming_packet (u32_to_le_bytes 1 @ u32_to_le_bytes idx @ e @ s @ t @ m1 @ m2) =
    Inr (PHandshakeInit \<lparr>hi_sender_idx = idx, hi_unencrypted_ephemeral = e, hi_encrypted_static = s, hi_encrypted_timestamp = t\<rparr>)"
  using assms by (simp add: layout_simps)

lemma parse_resp [simp]:
  assumes "length e = 32" "length n = 16" "length m1 = 16" "length m2 = 16"
  shows "parse_incoming_packet (u32_to_le_bytes 2 @ u32_to_le_bytes idx @ u32_to_le_bytes ridx @ e @ n @ m1 @ m2) =
    Inr (PHandshakeResponse \<lparr>hr_sender_idx = idx, hr_receiver_idx = ridx, hr_unencrypted_ephemeral = e, hr_encrypted_nothing = n\<rparr>)"
  using assms by (simp add: layout_simps)

lemma parse_data [simp]:
  assumes "16 \<le> length d"
  shows "parse_incoming_packet (u32_to_le_bytes 4 @ u32_to_le_bytes idx @ u64_to_le_bytes c @ d) =
    Inr (PData \<lparr>pd_receiver_idx = idx, pd_counter = c, pd_encrypted = d\<rparr>)"
  using assms by (simp add: layout_simps)

section \<open>Two sides agree\<close>

definition keys_ok :: "crypto \<Rightarrow> noise_params \<Rightarrow> bool" where
  "keys_ok C p \<longleftrightarrow> static_public p = public_key C (static_private p) \<and>
     static_shared p = diffie_hellman C (static_private p) (peer_static_public p) \<and>
     sending_mac1_key p = b2s_hash C LABEL_MAC1 (peer_static_public p)"

definition paired :: "crypto \<Rightarrow> noise_params \<Rightarrow> noise_params \<Rightarrow> bool" where
  "paired C a b \<longleftrightarrow> keys_ok C a \<and> keys_ok C b \<and> peer_static_public a = static_public b \<and>
     peer_static_public b = static_public a \<and> preshared_key a = preshared_key b"

definition stamped :: "time_stamper \<Rightarrow> platform \<Rightarrow> tai64n" where
  "stamped st pl =
     (let d = duration_since (clock pl (clock_reads pl)) (instant_at_start st) + duration_at_start st
      in \<lparr>tai_secs = word_of_nat (d div 1000000000) + TAI64_BASE, tai_nano = word_of_nat (d mod 1000000000)\<rparr>)"

lemma crypto_okD:
  assumes "crypto_ok C"
  shows "diffie_hellman C a (public_key C b) = diffie_hellman C b (public_key C a)"
    and "aead_open C k n ad (aead_seal C k n ad p) = Some p" and "length (aead_seal C k n ad p) = length p + 16"
    and "length (public_key C a) = 32" and "length (keyed_mac_16 C k d) = 16"
  using assms unfolding crypto_ok_def by blast+

lemma parse_stamp: "tai64n_parse (fst (stamp st pl)) = Inr (stamped st pl)"
proof -
  have "(xs @ u32_to_be_bytes w) ! 8 = ucast (drop_bit 24 w)" "(xs @ u32_to_be_bytes w) ! 9 = ucast (drop_bit 16 w)"
    "(xs @ u32_to_be_bytes w) ! 10 = ucast (drop_bit 8 w)" "(xs @ u32_to_be_bytes w) ! 11 = ucast w"
    if "length xs = 8" for xs w using that by (simp_all add: nth_append u32_to_be_bytes_def)
  then show ?thesis by (simp add: tai64n_parse_def stamp_def stamped_def instant_now_def Let_def)
qed

lemma length_stamp: "length (fst (stamp st pl)) = 12"
  by (simp add: stamp_def instant_now_def Let_def)

lemma stamp_random [simp]: "stamped st (snd (random_secret pl)) = stamped st pl"
  by (simp add: stamped_def random_secret_def)

lemma inc_index_frame [simp]:
  "inc_index h = (idx, h') \<Longrightarrow> hs_params h' = hs_params h \<and> hs_state h' = hs_state h \<and> previous h' = previous h \<and>
     stamper h' = stamper h \<and> hs_cookies h' = hs_cookies h \<and> last_handshake_timestamp h' = last_handshake_timestamp h"
  by (auto simp: inc_index_def Let_def)

lemma append_mac_layout:
  assumes "append_mac1_and_mac2 C idx msg h = (h', packet)" and "crypto_ok C"
  obtains m1 m2 where "packet = msg @ m1 @ m2" "length m1 = 16" "length m2 = 16" "m1 = b2s_keyed_mac_16 C (sending_mac1_key (hs_params h)) msg"
    "hs_params h' = hs_params h" "hs_state h' = hs_state h" "previous h' = previous h"
  using assms crypto_okD(5) [OF assms(2)]
  by (fastforce simp: append_mac1_and_mac2_def Let_def b2s_keyed_mac_16_def split: option.splits)

text \<open>The first message: who it is meant for accepts it and arrives at the same hash and key.\<close>

lemma init_accepted:
  assumes fmt: "format_handshake_initiation C n pl h = (h', pl', Inr packet)" and C: "crypto_ok C"
    and pair: "paired C (hs_params h) (hs_params g)"
    and new: "tai64n_after (stamped (stamper h) pl) (last_handshake_timestamp g)"
  obtains st p msg m2 where "hs_state h' = InitSent st" "previous h' = hs_state h" "hs_params h' = hs_params h"
    "packet = msg @ b2s_keyed_mac_16 C (b2s_hash C LABEL_MAC1 (static_public (hs_params g))) msg @ m2"
    "length msg = 116" "length m2 = 16" "parse_incoming_packet packet = Inr (PHandshakeInit p)"
    "\<And>m qpl. receive_handshake_initialization C m p qpl g = format_handshake_response C m qpl
       (g\<lparr>last_handshake_timestamp := stamped (stamper h) pl, previous := hs_state g,
          hs_state := InitReceived (is_hash st) (is_chaining_key st) (public_key C (is_ephemeral_private st)) (is_local_index st)\<rparr>)"
proof -
  obtain idx h1 where inc: "inc_index h = (idx, h1)" by (cases "inc_index h")
  obtain e pl1 where rnd: "random_secret pl = (e, pl1)" by (cases "random_secret pl")
  let ?ps = "hs_params h" and ?E = "public_key C e"
  obtain hash0 ck0 key0 where pro: "init_prologue C (peer_static_public ?ps) ?E (diffie_hellman C e (peer_static_public ?ps)) = (hash0, ck0, key0)"
    by (metis prod_cases3)
  let ?S = "aead_chacha20_seal C key0 0 (static_public ?ps) hash0"
  let ?hash1 = "b2s_hash C hash0 ?S" and ?temp = "b2s_hmac C ck0 (static_shared ?ps)"
  let ?ck1 = "b2s_hmac C ?temp [1]"
  let ?key1 = "b2s_hmac2 C ?temp ?ck1 [2]"
  obtain ts pl2 where ts: "stamp (stamper h) pl1 = (ts, pl2)" by (cases "stamp (stamper h) pl1")
  let ?T = "aead_chacha20_seal C ?key1 0 ts ?hash1"
  obtain now pl3 where now: "instant_now pl2 = (now, pl3)" by (cases "instant_now pl2")
  let ?st = "\<lparr>is_local_index = idx, is_hash = b2s_hash C ?hash1 ?T, is_chaining_key = ?ck1, is_ephemeral_private = e, is_time_sent = now\<rparr>"
  let ?h2 = "h1\<lparr>previous := hs_state h1, hs_state := InitSent ?st\<rparr>"
  let ?msg = "u32_to_le_bytes 1 @ u32_to_le_bytes idx @ ?E @ ?S @ ?T"
  note frame = inc_index_frame [OF inc]
  obtain h3 pk where mac: "append_mac1_and_mac2 C idx ?msg ?h2 = (h3, pk)" by (cases "append_mac1_and_mac2 C idx ?msg ?h2")
  have res: "h' = h3" "packet = pk"
    using fmt inc rnd pro ts now mac frame by (auto simp: format_handshake_initiation_def Let_def split: if_splits)
  obtain m1 m2 where m: "pk = ?msg @ m1 @ m2" "length m1 = 16" "length m2 = 16"
    "m1 = b2s_keyed_mac_16 C (sending_mac1_key (hs_params ?h2)) ?msg"
    "hs_params h3 = hs_params ?h2" "hs_state h3 = hs_state ?h2" "previous h3 = previous ?h2"
    by (rule append_mac_layout [OF mac C])
  have tsv: "tai64n_parse ts = Inr (stamped (stamper h) pl)" "length ts = 12"
    using parse_stamp [of "stamper h" pl1] length_stamp [of "stamper h" pl1] ts stamp_random [of "stamper h" pl] rnd by simp_all
  have keys: "static_public ?ps = public_key C (static_private ?ps)" "static_public (hs_params g) = public_key C (static_private (hs_params g))"
    "peer_static_public ?ps = static_public (hs_params g)" "peer_static_public (hs_params g) = static_public ?ps"
    "sending_mac1_key ?ps = b2s_hash C LABEL_MAC1 (static_public (hs_params g))" using pair by (auto simp: paired_def keys_ok_def)
  have shared: "static_shared (hs_params g) = static_shared ?ps"
    using pair crypto_okD(1) [OF C, of "static_private ?ps" "static_private (hs_params g)"] by (simp add: paired_def keys_ok_def)
  have pro': "init_prologue C (static_public (hs_params g)) ?E (diffie_hellman C (static_private (hs_params g)) ?E) = (hash0, ck0, key0)"
    using pro keys crypto_okD(1) [OF C, of e "static_private (hs_params g)"] by simp
  have len: "length ?E = 32" "length ?S = 48" "length ?T = 28"
    using crypto_okD(3,4) [OF C] tsv keys(1) by (simp_all add: aead_chacha20_seal_def)
  let ?p = "\<lparr>hi_sender_idx = idx, hi_unencrypted_ephemeral = ?E, hi_encrypted_static = ?S, hi_encrypted_timestamp = ?T\<rparr>"
  show thesis
  proof (rule that)
    show "hs_state h' = InitSent ?st" "previous h' = hs_state h" "hs_params h' = hs_params h" using res m frame by simp_all
    show "packet = ?msg @ b2s_keyed_mac_16 C (b2s_hash C LABEL_MAC1 (static_public (hs_params g))) ?msg @ m2"
      using res m frame keys(5) by simp
    show "length ?msg = 116" "length m2 = 16" using len m by simp_all
    show "parse_incoming_packet packet = Inr (PHandshakeInit ?p)" using len m res by simp
    show "receive_handshake_initialization C k ?p qpl g = format_handshake_response C k qpl
       (g\<lparr>last_handshake_timestamp := stamped (stamper h) pl, previous := hs_state g,
          hs_state := InitReceived (is_hash ?st) (is_chaining_key ?st) (public_key C (is_ephemeral_private ?st)) (is_local_index ?st)\<rparr>)" for k qpl
      using pro' shared keys(4) tsv new crypto_okD(2) [OF C]
      by (simp add: receive_handshake_initialization_def Let_def aead_chacha20_open_def aead_chacha20_seal_def)
  qed
qed

text \<open>The second message: who sent the first accepts it, and the two sessions are each other's mirror.\<close>

definition mirror :: "wg_session \<Rightarrow> wg_session \<Rightarrow> bool" where
  "mirror a b \<longleftrightarrow> s_sender a = s_receiver b \<and> s_receiver a = s_sender b \<and> sending_index a = receiving_index b \<and>
     receiving_index a = sending_index b"

lemma response_accepted:
  assumes fmt: "format_handshake_response C n pl g = (g', pl', r)" and n: "92 \<le> n" and C: "crypto_ok C"
    and pair: "paired C (hs_params h) (hs_params g)"
    and st: "hs_state h = InitSent st"
    and g: "hs_state g = InitReceived (is_hash st) (is_chaining_key st) (public_key C (is_ephemeral_private st)) (is_local_index st)"
  obtains packet sr q msg m2 si where "r = Inr (packet, sr)" "sr = wg_session_new (receiving_index sr) (is_local_index st) (s_receiver sr) (s_sender sr)"
    "packet = msg @ b2s_keyed_mac_16 C (b2s_hash C LABEL_MAC1 (static_public (hs_params h))) msg @ m2"
    "length msg = 60" "length m2 = 16" "parse_incoming_packet packet = Inr (PHandshakeResponse q)" "hs_params g' = hs_params g"
    "hs_state g' = HsNone" "previous g' = previous g"
    "si = wg_session_new (is_local_index st) (receiving_index sr) (s_sender sr) (s_receiver sr)" "mirror si sr"
    "\<And>qpl. \<exists>h' qpl'. receive_handshake_response C q qpl h = (h', qpl', Inr si) \<and> hs_params h' = hs_params h \<and> hs_state h' = HsNone \<and>
       previous h' = previous h"
proof -
  obtain e pl1 where rnd: "random_secret pl = (e, pl1)" by (cases "random_secret pl")
  let ?g = "g\<lparr>hs_state := HsNone\<rparr>"
  obtain idx g1 where inc: "inc_index ?g = (idx, g1)" by (cases "inc_index ?g")
  note frame = inc_index_frame [OF inc]
  let ?ps = "hs_params g" and ?E = "public_key C e" and ?e0 = "is_ephemeral_private st"
  obtain hash ck key where rk: "response_keys C (is_hash st) (is_chaining_key st) ?E (diffie_hellman C e (public_key C ?e0))
      (diffie_hellman C e (peer_static_public ?ps)) (preshared_key ?ps) = (hash, ck, key)" by (metis prod_cases3)
  obtain t2 t3 where tk: "transport_keys C ck = (t2, t3)" by (cases "transport_keys C ck")
  let ?N = "aead_chacha20_seal C key 0 [] hash"
  let ?msg = "u32_to_le_bytes 2 @ u32_to_le_bytes idx @ u32_to_le_bytes (is_local_index st) @ ?E @ ?N"
  obtain g2 pk where mac: "append_mac1_and_mac2 C idx ?msg g1 = (g2, pk)" by (cases "append_mac1_and_mac2 C idx ?msg g1")
  let ?sr = "wg_session_new idx (is_local_index st) t2 t3" and ?si = "wg_session_new (is_local_index st) idx t3 t2"
  have res: "g' = g2" "r = Inr (pk, ?sr)"
    using fmt n g rnd inc rk tk mac frame by (auto simp: format_handshake_response_def HANDSHAKE_RESP_SZ_def Let_def)
  obtain m1 m2 where m: "pk = ?msg @ m1 @ m2" "length m1 = 16" "length m2 = 16"
    "m1 = b2s_keyed_mac_16 C (sending_mac1_key (hs_params g1)) ?msg"
    "hs_params g2 = hs_params g1" "hs_state g2 = hs_state g1" "previous g2 = previous g1"
    by (rule append_mac_layout [OF mac C])
  have keys: "static_public (hs_params h) = public_key C (static_private (hs_params h))" "peer_static_public ?ps = static_public (hs_params h)"
    "preshared_key (hs_params h) = preshared_key ?ps" "sending_mac1_key ?ps = b2s_hash C LABEL_MAC1 (static_public (hs_params h))"
    using pair by (auto simp: paired_def keys_ok_def)
  have rk': "response_keys C (is_hash st) (is_chaining_key st) ?E (diffie_hellman C ?e0 ?E)
      (diffie_hellman C (static_private (hs_params h)) ?E) (preshared_key (hs_params h)) = (hash, ck, key)"
    using rk keys crypto_okD(1) [OF C, of e] by simp
  have len: "length ?E = 32" "length ?N = 16" using crypto_okD(3,4) [OF C] by (simp_all add: aead_chacha20_seal_def)
  let ?q = "\<lparr>hr_sender_idx = idx, hr_receiver_idx = is_local_index st, hr_unencrypted_ephemeral = ?E, hr_encrypted_nothing = ?N\<rparr>"
  show thesis
  proof (rule that)
    show "r = Inr (pk, ?sr)" by (rule res(2))
    show "parse_incoming_packet pk = Inr (PHandshakeResponse ?q)" using len m by simp
    show "pk = ?msg @ b2s_keyed_mac_16 C (b2s_hash C LABEL_MAC1 (static_public (hs_params h))) ?msg @ m2"
      using m frame keys(4) by simp
    show "length ?msg = 60" "length m2 = 16" using len m by simp_all
    show "hs_params g' = hs_params g" "hs_state g' = HsNone" "previous g' = previous g" using res m frame by simp_all
    show "?sr = wg_session_new (receiving_index ?sr) (is_local_index st) (s_receiver ?sr) (s_sender ?sr)"
      "?si = wg_session_new (is_local_index st) (receiving_index ?sr) (s_sender ?sr) (s_receiver ?sr)" "mirror ?si ?sr"
      by (simp_all add: wg_session_new_def mirror_def)
    show "\<exists>h' qpl'. receive_handshake_response C ?q qpl h = (h', qpl', Inr ?si) \<and> hs_params h' = hs_params h \<and> hs_state h' = HsNone \<and>
       previous h' = previous h" for qpl
      using st rk' tk crypto_okD(2) [OF C]
      by (simp add: receive_handshake_response_def answered_def Let_def aead_chacha20_open_def aead_chacha20_seal_def split: prod.splits)
  qed
qed

text \<open>What a session sends its mirror receives, once.\<close>

lemma data_received:
  assumes "format_packet_data C n src s = Some (s', packet)" and C: "crypto_ok C" and "mirror s r"
    and "will_accept (sending_key_counter s) (receiving_key_counter r) = Inr ()"
    and "mark_did_receive (sending_key_counter s) (receiving_key_counter r) = (rk, Inr ())" and "length src + 16 \<le> m"
  obtains p where "parse_incoming_packet packet = Inr (PData p)" "pd_receiver_idx p = receiving_index r"
    "receive_packet_data C m p r = (r\<lparr>receiving_key_counter := rk\<lparr>rk_receive_cnt := rk_receive_cnt rk + 1\<rparr>\<rparr>, Inr src)"
proof -
  let ?c = "sending_key_counter s"
  let ?d = "aead_seal C (s_sender s) (counter_nonce ?c) [] src"
  have pk: "packet = u32_to_le_bytes 4 @ u32_to_le_bytes (sending_index s) @ u64_to_le_bytes ?c @ ?d"
    using assms(1) by (auto simp: format_packet_data_def Let_def split: if_splits)
  have len: "length ?d = length src + 16" by (rule crypto_okD(3) [OF C])
  let ?p = "\<lparr>pd_receiver_idx = sending_index s, pd_counter = ?c, pd_encrypted = ?d\<rparr>"
  show thesis
  proof (rule that)
    show "parse_incoming_packet packet = Inr (PData ?p)" unfolding pk by (rule parse_data) (simp add: len)
    show "pd_receiver_idx ?p = receiving_index r" using assms(3) by (simp add: mirror_def)
    show "receive_packet_data C m ?p r = (r\<lparr>receiving_key_counter := rk\<lparr>rk_receive_cnt := rk_receive_cnt rk + 1\<rparr>\<rparr>, Inr src)"
      using assms(3-6) crypto_okD(2) [OF C] len by (simp add: receive_packet_data_def receiving_counter_mark_def mirror_def)
  qed
qed

end
