(* ===== verification/Wg_Policy.thy ===== *)
theory Wg_Policy
  imports Net_Addr
begin

text \<open>
  The inbound packet filter of \<open>crates/wg-engine/src/policy.rs\<close> and the two partial IPv4
  parsers the data plane uses, \<open>parse_ipv4_meta\<close> of \<open>pump.rs\<close> and \<open>parse_ipv4_dst\<close> of
  \<open>dispatch.rs\<close>.
\<close>

section \<open>Filter rules\<close>

record net_port_range =
  npr_ip :: ipv4_cidr
  port_first :: u16
  port_last :: u16

record filter_rule =
  src_ips :: "ipv4_cidr list"
  dst_ports :: "net_port_range list"
  ip_protocols :: "u8 list"

datatype inbound_policy = DenyAll | AllowAll | Rules "filter_rule list"

definition rule_matches :: "filter_rule \<Rightarrow> ipv4 \<Rightarrow> ipv4 \<Rightarrow> u8 \<Rightarrow> u16 option \<Rightarrow> bool" where
  "rule_matches rule src dst protocol dst_port =
     (if \<not> list_ex (\<lambda>cidr. contains cidr src) (src_ips rule) then False
      else if ip_protocols rule \<noteq> [] \<and> \<not> List.member (ip_protocols rule) protocol then False
      else list_ex (\<lambda>range.
        if \<not> contains (npr_ip range) dst then False
        else case dst_port of
               Some port \<Rightarrow> port_first range \<le> port \<and> port \<le> port_last range
             | None \<Rightarrow> port_first range = 0) (dst_ports rule))"

fun allows :: "inbound_policy \<Rightarrow> ipv4 \<Rightarrow> ipv4 \<Rightarrow> u8 \<Rightarrow> u16 option \<Rightarrow> bool" where
  "allows DenyAll src dst protocol dst_port = False"
| "allows AllowAll src dst protocol dst_port = True"
| "allows (Rules rules) src dst protocol dst_port =
     list_ex (\<lambda>rule. rule_matches rule src dst protocol dst_port) rules"

section \<open>Packet headers\<close>

record ipv4_meta =
  meta_src :: ipv4
  meta_dst :: ipv4
  meta_protocol :: u8
  meta_dst_port :: "u16 option"

definition header_len :: "bytes \<Rightarrow> nat" where
  "header_len pkt = unat (pkt ! 0 AND 0x0f) * 4"

definition parse_ipv4_meta :: "bytes \<Rightarrow> ipv4_meta option" where
  "parse_ipv4_meta pkt =
     (if length pkt < 20 \<or> drop_bit 4 (pkt ! 0) \<noteq> 4 then None
      else let ihl = header_len pkt in
        if ihl < 20 \<or> length pkt < ihl then None
        else
          let protocol = pkt ! 9;
              src = ipv4_new (pkt ! 12) (pkt ! 13) (pkt ! 14) (pkt ! 15);
              dst = ipv4_new (pkt ! 16) (pkt ! 17) (pkt ! 18) (pkt ! 19)
          in if protocol = 6 \<or> protocol = 17
             then if length pkt \<ge> ihl + 4
                  then Some \<lparr>meta_src = src, meta_dst = dst, meta_protocol = protocol,
                         meta_dst_port = Some (u16_from_be_bytes (pkt ! (ihl + 2)) (pkt ! (ihl + 3)))\<rparr>
                  else None
             else Some \<lparr>meta_src = src, meta_dst = dst, meta_protocol = protocol, meta_dst_port = None\<rparr>)"

definition parse_ipv4_dst :: "bytes \<Rightarrow> ipv4 option" where
  "parse_ipv4_dst pkt =
     (if length pkt < 20 then None
      else if drop_bit 4 (pkt ! 0) \<noteq> 4 then None
      else Some (ipv4_new (pkt ! 16) (pkt ! 17) (pkt ! 18) (pkt ! 19)))"

section \<open>Facts\<close>

lemma rule_matches_iff:
  "rule_matches rule src dst protocol dst_port \<longleftrightarrow>
     (\<exists>c \<in> set (src_ips rule). contains c src) \<and>
     (ip_protocols rule = [] \<or> protocol \<in> set (ip_protocols rule)) \<and>
     (\<exists>range \<in> set (dst_ports rule). contains (npr_ip range) dst \<and>
        (case dst_port of
           Some port \<Rightarrow> port_first range \<le> port \<and> port \<le> port_last range
         | None \<Rightarrow> port_first range = 0))"
  by (auto simp: rule_matches_def list_ex_iff)

lemma rule_matches_portless: "rule_matches rule src dst protocol None = rule_matches rule src dst protocol (Some 0)"
  by (simp add: rule_matches_iff)

lemma parse_ipv4_meta_dst:
  "parse_ipv4_meta pkt = Some m \<Longrightarrow> parse_ipv4_dst pkt = Some (meta_dst m)"
  by (auto simp: parse_ipv4_meta_def parse_ipv4_dst_def Let_def split: if_splits)

section \<open>Properties\<close>


end
