(* ===== verification/Wg_Peers.thy ===== *)
theory Wg_Peers
  imports Wg_Policy
begin

text \<open>
  Peers and their three indices: \<open>peer.rs\<close>, \<open>indices.rs\<close> and \<open>dispatch.rs\<close> of
  \<open>crates/wg-engine/src\<close>, and the engine's peer management in \<open>lib.rs\<close>. The tables of the code
  share each peer through an \<open>Arc\<close>; here a peer lives in a heap and the tables hold its
  position, so that an update through one table is seen through the others. The WireGuard
  state machine of BoringTun is the type parameter \<open>'t\<close>.
\<close>

section \<open>Peers\<close>

datatype transport_addr = Udp sock_addr | Derp u16 key32

record peer_stats =
  handshakes_started :: u64
  handshakes_completed :: u64
  rx_bytes :: u64
  tx_bytes :: u64
  last_rx :: "instant option"
  last_handshake :: "instant option"

definition peer_stats_default :: peer_stats where
  "peer_stats_default =
     \<lparr>handshakes_started = 0, handshakes_completed = 0, rx_bytes = 0, tx_bytes = 0,
      last_rx = None, last_handshake = None\<rparr>"

record 't peer =
  pubkey :: key32
  our_index :: u32
  allowed_ips :: "ipv4_cidr list"
  transport_addr :: "transport_addr option"
  auth_src :: "(transport_addr \<times> instant) option"
  tunn :: 't
  stats :: peer_stats

definition AUTH_SRC_TRUST :: duration where "AUTH_SRC_TRUST = millis 6500"

definition set_transport_addr :: "transport_addr \<Rightarrow> 't peer \<Rightarrow> 't peer" where
  "set_transport_addr a p = p\<lparr>transport_addr := Some a\<rparr>"

definition auth_src_load :: "'t peer \<Rightarrow> transport_addr option" where
  "auth_src_load p = map_option fst (auth_src p)"

definition auth_src_fresh :: "instant \<Rightarrow> 't peer \<Rightarrow> transport_addr option" where
  "auth_src_fresh now p =
     (case auth_src p of
        Some (a, at) \<Rightarrow> if duration_since now at < AUTH_SRC_TRUST then Some a else None
      | None \<Rightarrow> None)"

definition set_auth_src :: "instant \<Rightarrow> transport_addr \<Rightarrow> 't peer \<Rightarrow> 't peer" where
  "set_auth_src now a p = p\<lparr>auth_src := Some (a, now)\<rparr>"

section \<open>Indices\<close>

type_synonym peer_id = nat

record 't indices =
  heap :: "'t peer list"
  by_pubkey :: "(key32 \<times> peer_id) list"
  by_idx :: "(u32 \<times> peer_id) list"
  by_ip :: "(ipv4_cidr \<times> peer_id) list"

definition indices_new :: "'t indices" where
  "indices_new = \<lparr>heap = [], by_pubkey = [], by_idx = [], by_ip = []\<rparr>"

abbreviation peer_at :: "'t indices \<Rightarrow> peer_id \<Rightarrow> 't peer" where
  "peer_at ix i \<equiv> heap ix ! i"

definition modify_peer :: "peer_id \<Rightarrow> ('t peer \<Rightarrow> 't peer) \<Rightarrow> 't indices \<Rightarrow> 't indices" where
  "modify_peer i f ix = ix\<lparr>heap := (heap ix)[i := f (peer_at ix i)]\<rparr>"

text \<open>Descending by prefix length; the sort is stable.\<close>

definition sort_by_prefix :: "(ipv4_cidr \<times> peer_id) list \<Rightarrow> (ipv4_cidr \<times> peer_id) list" where
  "sort_by_prefix = sort_key (\<lambda>(c, _). 255 - unat (prefix c))"

definition allowed_insert_peer ::
  "'t peer \<Rightarrow> peer_id \<Rightarrow> (ipv4_cidr \<times> peer_id) list \<Rightarrow> (ipv4_cidr \<times> peer_id) list" where
  "allowed_insert_peer p i entries = sort_by_prefix (entries @ map (\<lambda>c. (c, i)) (allowed_ips p))"

definition allowed_remove_peer ::
  "'t indices \<Rightarrow> 't peer \<Rightarrow> (ipv4_cidr \<times> peer_id) list \<Rightarrow> (ipv4_cidr \<times> peer_id) list" where
  "allowed_remove_peer ix p entries =
     (let target = pubkey p in filter (\<lambda>(_, j). pubkey (peer_at ix j) \<noteq> target) entries)"

definition allowed_lookup :: "(ipv4_cidr \<times> peer_id) list \<Rightarrow> ipv4 \<Rightarrow> peer_id option" where
  "allowed_lookup entries ip = map_option snd (find (\<lambda>(c, _). contains c ip) entries)"

definition indices_insert :: "'t peer \<Rightarrow> 't indices \<Rightarrow> 't indices" where
  "indices_insert p ix =
     (let i = length (heap ix)
      in ix\<lparr>heap := heap ix @ [p],
            by_pubkey := AList.update (pubkey p) i (by_pubkey ix),
            by_idx := AList.update (our_index p) i (by_idx ix),
            by_ip := allowed_insert_peer p i (by_ip ix)\<rparr>)"

definition indices_remove :: "key32 \<Rightarrow> 't indices \<Rightarrow> 't indices" where
  "indices_remove k ix =
     (case map_of (by_pubkey ix) k of
        None \<Rightarrow> ix
      | Some i \<Rightarrow>
          let p = peer_at ix i
          in ix\<lparr>by_pubkey := AList.delete k (by_pubkey ix),
                by_idx := AList.delete (our_index p) (by_idx ix),
                by_ip := allowed_remove_peer ix p (by_ip ix)\<rparr>)"

definition indices_count :: "'t indices \<Rightarrow> nat" where
  "indices_count ix = length (by_pubkey ix)"

section \<open>Dispatch\<close>

datatype inbound_route = SinglePeer peer_id | Broadcast | Junk

definition u32_le_at :: "bytes \<Rightarrow> nat \<Rightarrow> u32" where
  "u32_le_at d n = u32_from_le_bytes (d ! n) (d ! (n + 1)) (d ! (n + 2)) (d ! (n + 3))"

definition route_inbound :: "'t indices \<Rightarrow> bytes \<Rightarrow> inbound_route" where
  "route_inbound ix datagram =
     (if length datagram < 4 then Junk
      else let msg_type = u32_le_at datagram 0 in
        if msg_type = 1 then Broadcast
        else if msg_type = 2 \<or> msg_type = 3 \<or> msg_type = 4 then
          let recv_idx_offset = (if msg_type = 2 then 8 else 4) in
          if length datagram < recv_idx_offset + 4 then Junk
          else let peer_idx = drop_bit 8 (u32_le_at datagram recv_idx_offset) in
            (case map_of (by_idx ix) peer_idx of Some i \<Rightarrow> SinglePeer i | None \<Rightarrow> Junk)
        else Junk)"

definition peer_for_ip :: "'t indices \<Rightarrow> ipv4 \<Rightarrow> peer_id option" where
  "peer_for_ip ix dst = allowed_lookup (by_ip ix) dst"

section \<open>The engine's peer table\<close>

record peer_config =
  cfg_pubkey :: key32
  cfg_preshared_key :: "key32 option"
  cfg_keepalive :: "u16 option"
  cfg_allowed_ips :: "ipv4_cidr list"
  cfg_endpoint :: "transport_addr option"

record 't engine =
  indices :: "'t indices"
  inbound_policy :: inbound_policy
  next_idx :: u32

text \<open>
  \<open>Tunn::new\<close> with the engine's own secret: the peer's key, the preshared key, the
  keepalive interval and the index.
\<close>

type_synonym 't tunn_new = "key32 \<Rightarrow> key32 option \<Rightarrow> u16 option \<Rightarrow> u32 \<Rightarrow> 't"

definition upsert_peer :: "'t tunn_new \<Rightarrow> peer_config \<Rightarrow> 't engine \<Rightarrow> 't engine" where
  "upsert_peer tunn_new cfg e =
     (let rebuild =
        (let ix = indices_remove (cfg_pubkey cfg) (indices e);
             idx = next_idx e;
             p = \<lparr>pubkey = cfg_pubkey cfg, our_index = idx, allowed_ips = cfg_allowed_ips cfg,
                  transport_addr = cfg_endpoint cfg, auth_src = None,
                  tunn = tunn_new (cfg_pubkey cfg) (cfg_preshared_key cfg) (cfg_keepalive cfg) idx,
                  stats = peer_stats_default\<rparr>
         in e\<lparr>indices := indices_insert p ix, next_idx := idx + 1\<rparr>)
      in case map_of (by_pubkey (indices e)) (cfg_pubkey cfg) of
           None \<Rightarrow> rebuild
         | Some i \<Rightarrow>
             if allowed_ips (peer_at (indices e) i) = cfg_allowed_ips cfg
             then (case cfg_endpoint cfg of
                     Some ep \<Rightarrow> e\<lparr>indices := modify_peer i (set_transport_addr ep) (indices e)\<rparr>
                   | None \<Rightarrow> e)
             else rebuild)"

definition remove_peer :: "key32 \<Rightarrow> 't engine \<Rightarrow> 't engine" where
  "remove_peer k e = e\<lparr>indices := indices_remove k (indices e)\<rparr>"

definition set_inbound_policy :: "inbound_policy \<Rightarrow> 't engine \<Rightarrow> 't engine" where
  "set_inbound_policy pol e = e\<lparr>inbound_policy := pol\<rparr>"

definition set_endpoint :: "key32 \<Rightarrow> transport_addr \<Rightarrow> 't engine \<Rightarrow> 't engine" where
  "set_endpoint k ep e =
     (case map_of (by_pubkey (indices e)) k of
        Some i \<Rightarrow> e\<lparr>indices := modify_peer i (set_transport_addr ep) (indices e)\<rparr>
      | None \<Rightarrow> e)"

definition peer_stats_of :: "key32 \<Rightarrow> 't engine \<Rightarrow> peer_stats option" where
  "peer_stats_of k e = map_option (\<lambda>i. stats (peer_at (indices e) i)) (map_of (by_pubkey (indices e)) k)"

definition peer_count :: "'t engine \<Rightarrow> nat" where
  "peer_count e = length (by_pubkey (indices e))"

definition engine_new :: "'t tunn_new \<Rightarrow> peer_config list \<Rightarrow> 't engine" where
  "engine_new tunn_new peers =
     fold (upsert_peer tunn_new) peers
       \<lparr>indices = indices_new, inbound_policy = DenyAll, next_idx = 1\<rparr>"

section \<open>Invariant\<close>

text \<open>The peers the table currently holds, and what a key stands for.\<close>

definition live :: "'t indices \<Rightarrow> peer_id set" where
  "live ix = snd ` set (by_pubkey ix)"

definition view :: "'t indices \<Rightarrow> key32 \<Rightarrow> 't peer option" where
  "view ix k = map_option (peer_at ix) (map_of (by_pubkey ix) k)"

abbreviation prefix_rank :: "ipv4_cidr \<times> peer_id \<Rightarrow> nat" where
  "prefix_rank \<equiv> (\<lambda>(c, _). 255 - unat (prefix c))"

definition ix_ok :: "'t indices \<Rightarrow> bool" where
  "ix_ok ix \<longleftrightarrow>
     distinct (map fst (by_pubkey ix)) \<and>
     (\<forall>k i. map_of (by_pubkey ix) k = Some i \<longrightarrow> i < length (heap ix) \<and> pubkey (peer_at ix i) = k) \<and>
     (\<forall>n i. map_of (by_idx ix) n = Some i \<longleftrightarrow> i \<in> live ix \<and> our_index (peer_at ix i) = n) \<and>
     (\<forall>c i. (c, i) \<in> set (by_ip ix) \<longleftrightarrow> i \<in> live ix \<and> c \<in> set (allowed_ips (peer_at ix i))) \<and>
     sorted (map prefix_rank (by_ip ix))"

definition engine_ok :: "'t engine \<Rightarrow> bool" where
  "engine_ok e \<longleftrightarrow> ix_ok (indices e) \<and>
     next_idx e = word_of_nat (length (heap (indices e)) + 1) \<and>
     (\<forall>i < length (heap (indices e)). our_index (peer_at (indices e) i) = word_of_nat (i + 1))"

lemma ix_okD:
  assumes "ix_ok ix"
  shows "distinct (map fst (by_pubkey ix))"
    and "map_of (by_pubkey ix) k = Some i \<Longrightarrow> i < length (heap ix) \<and> pubkey (peer_at ix i) = k"
    and "map_of (by_idx ix) n = Some i \<longleftrightarrow> i \<in> live ix \<and> our_index (peer_at ix i) = n"
    and "(c, i) \<in> set (by_ip ix) \<longleftrightarrow> i \<in> live ix \<and> c \<in> set (allowed_ips (peer_at ix i))"
    and "sorted (map prefix_rank (by_ip ix))"
  using assms by (auto simp: ix_ok_def)

lemma live_iff:
  assumes "ix_ok ix"
  shows "i \<in> live ix \<longleftrightarrow> map_of (by_pubkey ix) (pubkey (peer_at ix i)) = Some i"
proof -
  note d = ix_okD(1) [OF assms]
  have "i \<in> live ix \<longleftrightarrow> (\<exists>k. map_of (by_pubkey ix) k = Some i)"
    using d by (force simp: live_def dest: map_of_SomeD)
  then show ?thesis using ix_okD(2) [OF assms] by metis
qed

lemma live_lt: "ix_ok ix \<Longrightarrow> i \<in> live ix \<Longrightarrow> i < length (heap ix)"
  using live_iff ix_okD(2) by metis

text \<open>Changes to the mutable fields of a peer leave the tables in order.\<close>

lemma modify_peer_simps [simp]:
  "by_pubkey (modify_peer i f ix) = by_pubkey ix"
  "by_idx (modify_peer i f ix) = by_idx ix"
  "by_ip (modify_peer i f ix) = by_ip ix"
  "length (heap (modify_peer i f ix)) = length (heap ix)"
  "live (modify_peer i f ix) = live ix"
  by (simp_all add: modify_peer_def live_def)

lemma peer_at_modify:
  "j < length (heap ix) \<Longrightarrow> peer_at (modify_peer i f ix) j = (if j = i then f (peer_at ix j) else peer_at ix j)"
  by (auto simp: modify_peer_def)

definition keeps_identity :: "('t peer \<Rightarrow> 't peer) \<Rightarrow> bool" where
  "keeps_identity f \<longleftrightarrow>
     (\<forall>p. pubkey (f p) = pubkey p \<and> our_index (f p) = our_index p \<and> allowed_ips (f p) = allowed_ips p)"

lemma modify_peer_ok:
  assumes "ix_ok ix" and "keeps_identity f"
  shows "ix_ok (modify_peer i f ix)"
proof -
  have eq: "pubkey (peer_at (modify_peer i f ix) j) = pubkey (peer_at ix j)"
      "our_index (peer_at (modify_peer i f ix) j) = our_index (peer_at ix j)"
      "allowed_ips (peer_at (modify_peer i f ix) j) = allowed_ips (peer_at ix j)"
    if "j < length (heap ix)" for j
    using that assms(2) by (simp_all add: peer_at_modify keeps_identity_def)
  then show ?thesis
    using assms(1) live_lt [OF assms(1)] unfolding ix_ok_def by (simp cong: conj_cong)
qed

lemma keeps_identity_set [simp]:
  "keeps_identity (set_transport_addr a)" "keeps_identity (set_auth_src now a)"
  by (simp_all add: keeps_identity_def set_transport_addr_def set_auth_src_def)

lemma indices_remove_Some:
  assumes "ix_ok ix" and "map_of (by_pubkey ix) k = Some i"
  shows "heap (indices_remove k ix) = heap ix"
    and "map_of (by_pubkey (indices_remove k ix)) = (map_of (by_pubkey ix))(k := None)"
    and "map_of (by_idx (indices_remove k ix)) = (map_of (by_idx ix))(our_index (peer_at ix i) := None)"
    and "by_ip (indices_remove k ix) = filter (\<lambda>(_, j). pubkey (peer_at ix j) \<noteq> k) (by_ip ix)"
  using assms(2) ix_okD(2) [OF assms]
  by (auto simp: indices_remove_def Let_def delete_conv' allowed_remove_peer_def)

lemma live_eq: "distinct (map fst (by_pubkey ix)) \<Longrightarrow> live ix = ran (map_of (by_pubkey ix))"
  by (simp add: live_def ran_map_of_zip ran_distinct)

lemma sorted_map_filter: "sorted (map f xs) \<Longrightarrow> sorted (map f (filter P xs))"
  by (induction xs) auto

lemma indices_remove_ok:
  assumes "ix_ok ix"
  shows "ix_ok (indices_remove k ix)"
proof (cases "map_of (by_pubkey ix) k")
  case None
  then show ?thesis using assms by (simp add: indices_remove_def)
next
  case (Some i)
  let ?ix = "indices_remove k ix"
  note r = indices_remove_Some [OF assms Some]
  have d: "distinct (map fst (by_pubkey ?ix))"
    using ix_okD(1) [OF assms] Some by (simp add: indices_remove_def Let_def distinct_delete)
  have pk: "pubkey (peer_at ix i) = k" using ix_okD(2) [OF assms Some] by simp
  have live: "j \<in> live ?ix \<longleftrightarrow> j \<in> live ix \<and> pubkey (peer_at ix j) \<noteq> k" for j
    using live_iff [OF assms, of j] ix_okD(2) [OF assms, of _ j]
    by (auto simp: live_eq [OF d] r(2) ran_def)
  have idx: "map_of (by_idx ?ix) n = Some j \<longleftrightarrow> j \<in> live ?ix \<and> our_index (peer_at ix j) = n" for n j
  proof -
    have i: "map_of (by_idx ix) (our_index (peer_at ix i)) = Some i"
      using Some pk by (simp add: ix_okD(3) [OF assms] live_iff [OF assms])
    have same: "j = i" if "j \<in> live ix" "pubkey (peer_at ix j) = k"
      using that Some live_iff [OF assms, of j] by simp
    show ?thesis
    proof (cases "n = our_index (peer_at ix i)")
      case True
      have "j = i" if "j \<in> live ix" "our_index (peer_at ix j) = n"
        using that True i ix_okD(3) [OF assms, of n j] by simp
      then show ?thesis using True pk by (auto simp: r(3) live)
    next
      case False
      then show ?thesis using same ix_okD(3) [OF assms, of n j] by (auto simp: r(3) live)
    qed
  qed
  show ?thesis
    unfolding ix_ok_def
  proof (intro conjI allI impI)
    fix k' j
    assume "map_of (by_pubkey ?ix) k' = Some j"
    then show "j < length (heap ?ix)" "pubkey (peer_at ?ix j) = k'"
      using ix_okD(2) [OF assms] by (auto simp: r split: if_splits)
  qed (use d in \<open>auto simp: r(1) idx r(4) live ix_okD(4) [OF assms]
      intro!: sorted_map_filter ix_okD(5) [OF assms]\<close>)
qed

lemma indices_remove_gone: "ix_ok ix \<Longrightarrow> map_of (by_pubkey (indices_remove k ix)) k = None"
  by (cases "map_of (by_pubkey ix) k") (simp add: indices_remove_def, simp add: indices_remove_Some)

lemma indices_remove_heap [simp]: "heap (indices_remove k ix) = heap ix"
  by (simp add: indices_remove_def Let_def split: option.splits)

lemma set_sort_by_prefix [simp]: "set (sort_by_prefix xs) = set xs"
  by (simp add: sort_by_prefix_def)

lemma indices_insert_ok:
  assumes "ix_ok ix" and "map_of (by_pubkey ix) (pubkey p) = None"
    and "\<And>i. i \<in> live ix \<Longrightarrow> our_index (peer_at ix i) \<noteq> our_index p"
  shows "ix_ok (indices_insert p ix)"
proof -
  let ?ix = "indices_insert p ix" and ?n = "length (heap ix)"
  have at: "peer_at ?ix j = (if j = ?n then p else peer_at ix j)" if "j \<le> ?n" for j
    using that by (auto simp: indices_insert_def Let_def nth_append)
  have m: "map_of (by_pubkey ?ix) = (map_of (by_pubkey ix))(pubkey p \<mapsto> ?n)"
      "map_of (by_idx ?ix) = (map_of (by_idx ix))(our_index p \<mapsto> ?n)"
    by (simp_all add: indices_insert_def Let_def update_conv')
  have d: "distinct (map fst (by_pubkey ?ix))"
    using ix_okD(1) [OF assms(1)] by (simp add: indices_insert_def Let_def distinct_update)
  have "ran (map_of (by_pubkey ?ix)) = insert ?n (ran (map_of (by_pubkey ix)))"
    using assms(2) by (simp add: m)
  then have live: "live ?ix = insert ?n (live ix)"
    by (simp add: live_eq [OF d] live_eq [OF ix_okD(1) [OF assms(1)]])
  have lt: "j < ?n" if "j \<in> live ix" for j using live_lt [OF assms(1) that] .
  have len: "length (heap ?ix) = Suc ?n" and srt: "sorted (map prefix_rank (by_ip ?ix))"
    by (simp_all add: indices_insert_def Let_def allowed_insert_peer_def sort_by_prefix_def)
  have idx: "map_of (by_idx ?ix) n = Some j \<longleftrightarrow> j \<in> live ?ix \<and> our_index (peer_at ?ix j) = n" for n j
  proof (cases "j = ?n")
    case True
    then show ?thesis using lt [of ?n] by (auto simp: m live at ix_okD(3) [OF assms(1)])
  next
    case False
    then show ?thesis
      using assms(3) [of j] lt [of j] by (auto simp: m live at ix_okD(3) [OF assms(1)])
  qed
  have ip: "(c, j) \<in> set (by_ip ?ix) \<longleftrightarrow> j \<in> live ?ix \<and> c \<in> set (allowed_ips (peer_at ?ix j))" for c j
  proof -
    have "(c, j) \<in> set (by_ip ?ix) \<longleftrightarrow>
        (c, j) \<in> set (by_ip ix) \<or> j = ?n \<and> c \<in> set (allowed_ips p)"
      by (auto simp: indices_insert_def allowed_insert_peer_def Let_def)
    then show ?thesis
      using lt [of j] by (cases "j = ?n") (auto simp: live at ix_okD(4) [OF assms(1)])
  qed
  show ?thesis
    unfolding ix_ok_def
  proof (intro conjI allI impI)
    fix k j
    assume *: "map_of (by_pubkey ?ix) k = Some j"
    then have j: "j = ?n \<and> k = pubkey p \<or> j < ?n \<and> pubkey (peer_at ix j) = k"
      using ix_okD(2) [OF assms(1), of k j] by (auto simp: m split: if_splits)
    then show "j < length (heap ?ix)" by (auto simp: len)
    from j show "pubkey (peer_at ?ix j) = k" by (auto simp: at)
  qed (simp_all add: d idx ip srt)
qed

section \<open>Engine operations keep the invariant\<close>

lemma engine_index_fresh:
  assumes "engine_ok e" and "length (heap (indices e)) + 1 < 2 ^ 32" and "i < length (heap (indices e))"
  shows "our_index (peer_at (indices e) i) \<noteq> next_idx e"
proof -
  have "our_index (peer_at (indices e) i) = word_of_nat (i + 1)"
    and "next_idx e = word_of_nat (length (heap (indices e)) + 1)"
    using assms(1,3) unfolding engine_ok_def by blast+
  then have "unat (our_index (peer_at (indices e) i)) = i + 1"
    and "unat (next_idx e) = length (heap (indices e)) + 1"
    using assms(2,3) u32_of_nat_round [of "i + 1"] u32_of_nat_round [of "length (heap (indices e)) + 1"]
    by auto
  then show ?thesis using assms(3) by auto
qed

definition fresh_peer :: "'t tunn_new \<Rightarrow> peer_config \<Rightarrow> u32 \<Rightarrow> 't peer" where
  "fresh_peer tunn_new cfg idx =
     \<lparr>pubkey = cfg_pubkey cfg, our_index = idx, allowed_ips = cfg_allowed_ips cfg,
      transport_addr = cfg_endpoint cfg, auth_src = None,
      tunn = tunn_new (cfg_pubkey cfg) (cfg_preshared_key cfg) (cfg_keepalive cfg) idx,
      stats = peer_stats_default\<rparr>"

abbreviation rebuilt :: "'t tunn_new \<Rightarrow> peer_config \<Rightarrow> 't engine \<Rightarrow> 't engine" where
  "rebuilt tunn_new cfg e \<equiv>
     e\<lparr>indices := indices_insert (fresh_peer tunn_new cfg (next_idx e)) (indices_remove (cfg_pubkey cfg) (indices e)),
       next_idx := next_idx e + 1\<rparr>"

lemma upsert_peer_cases:
  "upsert_peer tunn_new cfg e =
     (case map_of (by_pubkey (indices e)) (cfg_pubkey cfg) of
        None \<Rightarrow> rebuilt tunn_new cfg e
      | Some i \<Rightarrow>
          if allowed_ips (peer_at (indices e) i) = cfg_allowed_ips cfg
          then (case cfg_endpoint cfg of
                  Some ep \<Rightarrow> e\<lparr>indices := modify_peer i (set_transport_addr ep) (indices e)\<rparr>
                | None \<Rightarrow> e)
          else rebuilt tunn_new cfg e)"
  by (simp add: upsert_peer_def fresh_peer_def Let_def split: option.split)

lemma rebuilt_ok:
  assumes "engine_ok e" and "length (heap (indices e)) + 1 < 2 ^ 32"
  shows "engine_ok (rebuilt tunn_new cfg e)"
proof -
  let ?ix = "indices_remove (cfg_pubkey cfg) (indices e)"
  let ?p = "fresh_peer tunn_new cfg (next_idx e)"
  have ok: "ix_ok ?ix" using assms(1) by (simp add: engine_ok_def indices_remove_ok)
  have "ix_ok (indices_insert ?p ?ix)"
  proof (rule indices_insert_ok [OF ok])
    show "map_of (by_pubkey ?ix) (pubkey ?p) = None"
      using assms(1) by (simp add: fresh_peer_def engine_ok_def indices_remove_gone)
    fix i assume "i \<in> live ?ix"
    then have "i < length (heap (indices e))" using live_lt [OF ok] by simp
    then show "our_index (peer_at ?ix i) \<noteq> our_index ?p"
      using engine_index_fresh [OF assms] by (simp add: fresh_peer_def)
  qed
  then show ?thesis
    using assms(1)
    by (auto simp: engine_ok_def indices_insert_def Let_def nth_append fresh_peer_def add.commute
        less_Suc_eq)
qed

lemma modify_engine_ok:
  "engine_ok e \<Longrightarrow> keeps_identity f \<Longrightarrow> engine_ok (e\<lparr>indices := modify_peer i f (indices e)\<rparr>)"
  by (auto simp: engine_ok_def modify_peer_ok peer_at_modify keeps_identity_def)

lemma upsert_peer_ok:
  assumes "engine_ok e" and "length (heap (indices e)) + 1 < 2 ^ 32"
  shows "engine_ok (upsert_peer tunn_new cfg e)"
  using assms rebuilt_ok [OF assms]
  by (simp add: upsert_peer_cases modify_engine_ok split: option.splits)

lemma remove_peer_ok: "engine_ok e \<Longrightarrow> engine_ok (remove_peer k e)"
  by (simp add: engine_ok_def remove_peer_def indices_remove_ok)

lemma set_endpoint_ok: "engine_ok e \<Longrightarrow> engine_ok (set_endpoint k ep e)"
  by (simp add: set_endpoint_def modify_engine_ok split: option.splits)

lemma set_inbound_policy_ok: "engine_ok e \<Longrightarrow> engine_ok (set_inbound_policy pol e)"
  by (simp add: set_inbound_policy_def engine_ok_def)

text \<open>The calls the control plane makes, in any order.\<close>

datatype engine_call =
    Upsert peer_config | Remove key32 | SetEndpoint key32 transport_addr | SetPolicy inbound_policy

fun engine_apply :: "'t tunn_new \<Rightarrow> engine_call \<Rightarrow> 't engine \<Rightarrow> 't engine" where
  "engine_apply tn (Upsert cfg) e = upsert_peer tn cfg e"
| "engine_apply tn (Remove k) e = remove_peer k e"
| "engine_apply tn (SetEndpoint k a) e = set_endpoint k a e"
| "engine_apply tn (SetPolicy pol) e = set_inbound_policy pol e"

lemma engine_apply_heap: "length (heap (indices (engine_apply tn c e))) \<le> length (heap (indices e)) + 1"
  by (cases c)
    (auto simp: upsert_peer_cases indices_insert_def remove_peer_def set_endpoint_def
      set_inbound_policy_def Let_def split: option.splits)

lemma engine_run_ok:
  assumes "engine_ok e" and "length (heap (indices e)) + length calls < 2 ^ 32"
  shows "engine_ok (fold (engine_apply tn) calls e)"
  using assms
proof (induction calls arbitrary: e)
  case Nil
  then show ?case by simp
next
  case (Cons c calls)
  have "engine_ok (engine_apply tn c e)"
    using Cons.prems
    by (cases c) (simp_all add: upsert_peer_ok remove_peer_ok set_endpoint_ok set_inbound_policy_ok)
  moreover have "length (heap (indices (engine_apply tn c e))) + length calls < 2 ^ 32"
    using Cons.prems engine_apply_heap [of tn c e] by simp
  ultimately show ?case using Cons.IH by simp
qed

lemma engine_new_calls:
  "engine_new tn peers = fold (engine_apply tn) (map Upsert peers) \<lparr>indices = indices_new, inbound_policy = DenyAll, next_idx = 1\<rparr>"
proof -
  have "fold (upsert_peer tn) peers e = fold (engine_apply tn) (map Upsert peers) e" for e
    by (induction peers arbitrary: e) auto
  then show ?thesis by (simp add: engine_new_def)
qed

lemma empty_engine_ok: "engine_ok \<lparr>indices = indices_new, inbound_policy = pol, next_idx = 1\<rparr>"
  by (simp add: engine_ok_def ix_ok_def indices_new_def live_def)

section \<open>Longest prefix match\<close>

lemma find_sorted_best:
  assumes "sorted (map f xs)" and "find P xs = Some x"
  shows "x \<in> set xs \<and> P x \<and> (\<forall>y \<in> set xs. P y \<longrightarrow> f x \<le> f y)"
  using assms
proof (induction xs)
  case Nil
  then show ?case by simp
next
  case (Cons a xs)
  then show ?case by (cases "P a") auto
qed

lemma prefix_rank_le: "255 - unat (c :: u8) \<le> 255 - unat d \<longleftrightarrow> d \<le> c"
  using u8_unat_lt [of c] u8_unat_lt [of d] by (auto simp: word_le_nat_alt)

lemma peer_for_ip_None:
  assumes "ix_ok ix"
  shows "peer_for_ip ix ip = None \<longleftrightarrow>
    (\<forall>i \<in> live ix. \<forall>c \<in> set (allowed_ips (peer_at ix i)). \<not> contains c ip)"
  using ix_okD(4) [OF assms] by (force simp: peer_for_ip_def allowed_lookup_def find_None_iff)

lemma peer_for_ip_Some:
  assumes "ix_ok ix" and "peer_for_ip ix ip = Some i"
  shows "i \<in> live ix \<and> (\<exists>c \<in> set (allowed_ips (peer_at ix i)). contains c ip \<and>
    (\<forall>j \<in> live ix. \<forall>d \<in> set (allowed_ips (peer_at ix j)). contains d ip \<longrightarrow> prefix d \<le> prefix c))"
proof -
  from assms(2) obtain c where f: "find (\<lambda>(c, _). contains c ip) (by_ip ix) = Some (c, i)"
    by (auto simp: peer_for_ip_def allowed_lookup_def)
  note best = find_sorted_best [OF ix_okD(5) [OF assms(1)] f]
  from best have ci: "i \<in> live ix" "c \<in> set (allowed_ips (peer_at ix i))" "contains c ip"
    using ix_okD(4) [OF assms(1)] by auto
  have "prefix d \<le> prefix c"
    if "j \<in> live ix" "d \<in> set (allowed_ips (peer_at ix j))" "contains d ip" for j d
  proof -
    have "(d, j) \<in> set (by_ip ix)" using that ix_okD(4) [OF assms(1)] by simp
    with best that(3) have "prefix_rank (c, i) \<le> prefix_rank (d, j)" by blast
    then show ?thesis by (simp add: prefix_rank_le)
  qed
  with ci show ?thesis by blast
qed

section \<open>Properties\<close>

text \<open>
  C2: Outbound routing is longest-prefix match over the current peers. After any sequence
  of fewer than \<open>2^32\<close> control-plane calls, a destination is routed to a peer that is in
  the table and owns a range containing it, with no longer matching prefix at any peer,
  and it is unroutable only when no peer owns a matching range.
\<close>

theorem engine_routes_longest_prefix:
  assumes "length calls < 2 ^ 32"
    and "ix = indices (fold (engine_apply tn) calls (engine_new tn []))"
  shows "case peer_for_ip ix ip of
      Some i \<Rightarrow> i \<in> live ix \<and> (\<exists>c \<in> set (allowed_ips (peer_at ix i)). contains c ip \<and>
        (\<forall>j \<in> live ix. \<forall>d \<in> set (allowed_ips (peer_at ix j)). contains d ip \<longrightarrow> prefix d \<le> prefix c))
    | None \<Rightarrow> \<forall>i \<in> live ix. \<forall>c \<in> set (allowed_ips (peer_at ix i)). \<not> contains c ip"
proof -
  have "engine_ok (fold (engine_apply tn) calls (engine_new tn []))"
    using assms(1) by (intro engine_run_ok) (simp_all add: engine_new_def empty_engine_ok, simp add: indices_new_def)
  then have ok: "ix_ok ix" using assms(2) by (simp add: engine_ok_def)
  show ?thesis
  proof (cases "peer_for_ip ix ip")
    case None
    then show ?thesis using peer_for_ip_None [OF ok, of ip] by simp
  next
    case (Some i)
    then show ?thesis using peer_for_ip_Some [OF ok Some] by simp
  qed
qed

definition sample_cfg :: "u8 \<Rightarrow> ipv4_cidr list \<Rightarrow> peer_config" where
  "sample_cfg b ips = \<lparr>cfg_pubkey = replicate 32 b, cfg_preshared_key = None, cfg_keepalive = None,
     cfg_allowed_ips = ips, cfg_endpoint = None\<rparr>"

definition any_route :: ipv4_cidr where "any_route = \<lparr>addr = 0, prefix = 0\<rparr>"
definition host_route :: ipv4_cidr where "host_route = \<lparr>addr = 5, prefix = 32\<rparr>"

theorem engine_routes_longest_prefix_witness:
  "\<exists>ix. ix = indices (fold (engine_apply (\<lambda>_ _ _ _. ()))
       [Upsert (sample_cfg 1 [any_route]), Upsert (sample_cfg 2 [host_route])]
       (engine_new (\<lambda>_ _ _ _. ()) [])) \<and>
     peer_for_ip ix 5 = Some 1 \<and> 1 \<in> live ix \<and> (\<exists>c \<in> set (allowed_ips (peer_at ix 1)). contains c 5)"
proof -
  let ?tn = "\<lambda>_ _ _ _. ()"
  let ?calls = "[Upsert (sample_cfg 1 [any_route]), Upsert (sample_cfg 2 [host_route])]"
  let ?ix = "indices (fold (engine_apply ?tn) ?calls (engine_new ?tn []))"
  have "by_ip ?ix = [(host_route, 1), (any_route, 0)]"
    by (simp add: engine_new_def upsert_peer_cases indices_new_def indices_insert_def indices_remove_def
        allowed_insert_peer_def sort_by_prefix_def fresh_peer_def sample_cfg_def any_route_def host_route_def
        Let_def)
  then have "peer_for_ip ?ix 5 = Some 1"
    by (simp add: peer_for_ip_def allowed_lookup_def host_route_def contains_self contains_32_iff)
  with engine_routes_longest_prefix [of ?calls ?ix ?tn 5] show ?thesis
    by (intro exI [of _ ?ix]) auto
qed

text \<open>
  C13: An update of a peer touches that peer only. When the allowed ranges are the same, the
  peer keeps its WireGuard session, its index, its authenticated source and its counters,
  and only a given endpoint is stored; otherwise it is rebuilt with a fresh session and a
  new index. Every other key stands for exactly the peer it stood for before.
\<close>

theorem upsert_peer_effect:
  assumes "engine_ok e"
  shows "view (indices (upsert_peer tn cfg e)) = (view (indices e))(cfg_pubkey cfg \<mapsto>
    (case view (indices e) (cfg_pubkey cfg) of
       Some p \<Rightarrow>
         if allowed_ips p = cfg_allowed_ips cfg
         then (case cfg_endpoint cfg of Some ep \<Rightarrow> p\<lparr>transport_addr := Some ep\<rparr> | None \<Rightarrow> p)
         else fresh_peer tn cfg (next_idx e)
     | None \<Rightarrow> fresh_peer tn cfg (next_idx e)))"
proof -
  let ?ix = "indices e" and ?k = "cfg_pubkey cfg"
  have ok: "ix_ok ?ix" using assms by (simp add: engine_ok_def)
  note key = ix_okD(2) [OF ok]
  have rebuilt: "view (indices (rebuilt tn cfg e)) = (view ?ix)(?k \<mapsto> fresh_peer tn cfg (next_idx e))"
  proof
    fix k
    have "map_of (by_pubkey (indices_remove ?k ?ix)) k = (if k = ?k then None else map_of (by_pubkey ?ix) k)"
      by (cases "map_of (by_pubkey ?ix) ?k")
        (auto simp: indices_remove_gone [OF ok] indices_remove_Some [OF ok], simp add: indices_remove_def)
    then show "view (indices (rebuilt tn cfg e)) k = ((view ?ix)(?k \<mapsto> fresh_peer tn cfg (next_idx e))) k"
      using key [of k]
      by (cases "map_of (by_pubkey ?ix) k")
        (auto simp: view_def indices_insert_def update_conv' fresh_peer_def nth_append Let_def)
  qed
  have endpoint: "view (modify_peer i (set_transport_addr ep) ?ix) =
      (view ?ix)(?k \<mapsto> (peer_at ?ix i)\<lparr>transport_addr := Some ep\<rparr>)"
    if "map_of (by_pubkey ?ix) ?k = Some i" for i ep
  proof
    fix k
    show "view (modify_peer i (set_transport_addr ep) ?ix) k =
      ((view ?ix)(?k \<mapsto> (peer_at ?ix i)\<lparr>transport_addr := Some ep\<rparr>)) k"
    proof (cases "map_of (by_pubkey ?ix) k")
      case None
      then show ?thesis using that by (auto simp: view_def)
    next
      case (Some j)
      then show ?thesis
        using that key [OF Some] key [OF that]
        by (auto simp: view_def peer_at_modify set_transport_addr_def)
    qed
  qed
  show ?thesis
    using rebuilt endpoint
    by (auto simp: upsert_peer_cases view_def fun_upd_idem split: option.split)
qed

theorem upsert_peer_effect_witness:
  "view (indices (upsert_peer (\<lambda>_ _ _ _. ()) (sample_cfg 1 [any_route]) (engine_new (\<lambda>_ _ _ _. ()) [])))
     (replicate 32 1) = Some (fresh_peer (\<lambda>_ _ _ _. ()) (sample_cfg 1 [any_route]) 1)"
proof -
  have "engine_ok (engine_new (\<lambda>_ _ _ _. ()) [])" by (simp add: engine_new_def empty_engine_ok)
  from upsert_peer_effect [OF this] show ?thesis
    by (simp add: sample_cfg_def view_def engine_new_def indices_new_def)
qed

lemma session_index:
  assumes "unat w < 2 ^ 24" and "sid < 256"
  shows "drop_bit 8 (push_bit 8 w OR word_of_nat sid) = (w :: u32)"
proof (rule bit_word_eqI)
  fix n
  assume "n < LENGTH(32)"
  have "unat (take_bit 24 w) = unat w"
    using assms(1) by (simp add: unsigned_take_bit_eq take_bit_nat_eq_self_iff)
  then have "take_bit 24 w = w" by (rule unsigned_word_eqI)
  then have w: "bit w n \<Longrightarrow> n < 24" by (metis bit_take_bit_iff)
  have "take_bit 8 sid = sid" using assms(2) by (simp add: take_bit_nat_eq_self_iff)
  then have "\<not> bit sid (n + 8)" by (metis bit_take_bit_iff not_add_less2)
  then show "bit (drop_bit 8 (push_bit 8 w OR word_of_nat sid)) n = bit w n"
    using w by (auto simp: bit_simps add.commute)
qed

lemma u32_le_at_append:
  "u32_le_at (u32_to_le_bytes w @ rest) 0 = w"
  "length pre = n \<Longrightarrow> u32_le_at (pre @ u32_to_le_bytes w @ rest) n = w"
  by (simp_all add: u32_le_at_def u32_to_le_bytes_def u32_to_be_bytes_def u32_from_le_bytes_def nth_append)

text \<open>
  C14: Inbound routing finds the peer a session belongs to. A data, cookie or handshake
  response datagram whose receiver index was derived from the index of a peer in the table,
  shifted by eight with any session number in the low byte, is routed to that peer as long as
  fewer than \<open>2^24\<close> peers have been set up, the range the shift leaves for indices.
\<close>

theorem route_inbound_finds_peer:
  assumes "engine_ok e" and "length (heap (indices e)) < 2 ^ 24"
    and "view (indices e) k = Some p"
    and "msg_type \<in> {2, 3, 4}"
    and "sid < 256"
    and "datagram = u32_to_le_bytes msg_type @ (if msg_type = 2 then sender else [])
           @ u32_to_le_bytes (push_bit 8 (our_index p) OR word_of_nat sid) @ rest"
    and "length sender = 4"
  shows "\<exists>i. route_inbound (indices e) datagram = SinglePeer i \<and> peer_at (indices e) i = p"
proof -
  let ?ix = "indices e"
  let ?r = "push_bit 8 (our_index p) OR word_of_nat sid :: u32"
  have ok: "ix_ok ?ix" using assms(1) by (simp add: engine_ok_def)
  from assms(3) obtain i where i: "map_of (by_pubkey ?ix) k = Some i" "p = peer_at ?ix i"
    by (auto simp: view_def)
  then have lt: "i < length (heap ?ix)" and l: "i \<in> live ?ix"
    using ix_okD(2) [OF ok] live_iff [OF ok] by auto
  have "our_index p = word_of_nat (i + 1)" using assms(1) lt i by (simp add: engine_ok_def)
  then have "unat (our_index p) < 2 ^ 24"
    using lt assms(2) u32_of_nat_round [of "i + 1"] by simp
  then have idx: "drop_bit 8 ?r = our_index p" using assms(5) by (rule session_index)
  have m: "map_of (by_idx ?ix) (our_index p) = Some i" using l i by (simp add: ix_okD(3) [OF ok])
  have "u32_le_at datagram 0 = msg_type"
    unfolding assms(6) by (rule u32_le_at_append)
  moreover have "u32_le_at datagram (if msg_type = 2 then 8 else 4) = ?r"
    unfolding assms(6) using assms(7) u32_le_at_append(2) [of "u32_to_le_bytes msg_type @ sender" 8]
      u32_le_at_append(2) [of "u32_to_le_bytes msg_type" 4] by auto
  moreover have "(if msg_type = 2 then 8 else 4) + 4 \<le> length datagram"
    unfolding assms(6) using assms(7) by simp
  ultimately have "route_inbound ?ix datagram = SinglePeer i"
    using assms(4) idx m by (auto simp: route_inbound_def Let_def)
  then show ?thesis using i by blast
qed

theorem route_inbound_finds_peer_witness:
  "\<exists>i. route_inbound (indices (upsert_peer (\<lambda>_ _ _ _. ()) (sample_cfg 1 [any_route]) (engine_new (\<lambda>_ _ _ _. ()) [])))
     [4, 0, 0, 0, 7, 1, 0, 0, 9] = SinglePeer i"
proof -
  let ?empty = "engine_new (\<lambda>_ _ _ _. ()) []"
  let ?e = "upsert_peer (\<lambda>_ _ _ _. ()) (sample_cfg 1 [any_route]) ?empty"
  have e0: "engine_ok ?empty" by (simp add: engine_new_def empty_engine_ok)
  have "length (heap (indices ?empty)) + 1 < 2 ^ 32" by (simp add: engine_new_def indices_new_def)
  with e0 have ok: "engine_ok ?e" by (rule upsert_peer_ok)
  have v: "view (indices ?e) (replicate 32 1) = Some (fresh_peer (\<lambda>_ _ _ _. ()) (sample_cfg 1 [any_route]) 1)"
    by (simp add: upsert_peer_cases engine_new_def indices_new_def indices_remove_def indices_insert_def
        view_def fresh_peer_def sample_cfg_def Let_def)
  have h: "length (heap (indices ?e)) < 2 ^ 24"
    by (simp add: upsert_peer_cases engine_new_def indices_new_def indices_remove_def indices_insert_def Let_def)
  have d: "[4, 0, 0, 0, 7, 1, 0, 0, 9] = u32_to_le_bytes 4 @ (if (4 :: u32) = 2 then [0, 0, 0, 0] else [])
           @ u32_to_le_bytes (push_bit 8 (our_index (fresh_peer (\<lambda>_ _ _ _. ()) (sample_cfg 1 [any_route]) 1)) OR word_of_nat 7) @ [9]"
    by (simp add: u32_to_le_bytes_def u32_to_be_bytes_def fresh_peer_def)
  from route_inbound_finds_peer [OF ok h v _ _ d] show ?thesis by auto
qed

end
