(* ===== verification/Wg_Pump.thy ===== *)
theory Wg_Pump
  imports Wg_Peers
begin

text \<open>
  The data-plane pump of \<open>crates/wg-engine/src/pump.rs\<close>: choosing the address for a peer,
  handling one inbound datagram, one outbound packet and the timer tick, and one pass of
  the loop. BoringTun's \<open>Tunn\<close> is a parameter: three operations on its state. A handler
  returns \<open>None\<close> when the pump thread would not come back from it, because a drain never
  ends or a panic is not caught.
\<close>

section \<open>Calls into the tunnel\<close>

datatype tunn_result =
    TunnDone | TunnErr | WriteToNetwork bytes | WriteToTunnelV4 bytes | WriteToTunnelV6 | TunnPanic

datatype outcome = Done | Network bytes | TunnelV4 bytes | TunnelV6

record 't tunn_ops =
  decapsulate :: "bytes \<Rightarrow> 't \<Rightarrow> 't \<times> tunn_result"
  encapsulate :: "bytes \<Rightarrow> 't \<Rightarrow> 't \<times> tunn_result"
  update_timers :: "'t \<Rightarrow> 't \<times> tunn_result"

text \<open>\<open>call_tunn\<close>: an error and a caught panic both count as nothing to do.\<close>

fun outcome_of :: "tunn_result \<Rightarrow> outcome" where
  "outcome_of TunnDone = Done"
| "outcome_of TunnErr = Done"
| "outcome_of (WriteToNetwork b) = Network b"
| "outcome_of (WriteToTunnelV4 b) = TunnelV4 b"
| "outcome_of WriteToTunnelV6 = TunnelV6"
| "outcome_of TunnPanic = Done"

definition call_tunn ::
  "('t \<Rightarrow> 't \<times> tunn_result) \<Rightarrow> peer_id \<Rightarrow> 't indices \<Rightarrow> 't indices \<times> outcome" where
  "call_tunn op i ix =
     (case op (tunn (peer_at ix i)) of
        (t, r) \<Rightarrow> (modify_peer i (\<lambda>p. p\<lparr>tunn := t\<rparr>) ix, outcome_of r))"

section \<open>State of the pump\<close>

text \<open>The lines of the path-selection log, by the data they format.\<close>

datatype sel_line =
    SelReply key32 u32 transport_addr nat
  | SelData ipv4 key32 u32 "transport_addr option" "transport_addr option" "sock_addr option"
      "transport_addr option" nat
  | SelTimer key32 u32 transport_addr "transport_addr option" "sock_addr option"
      "transport_addr option" nat

definition SEL_CAP :: nat where "SEL_CAP = 96"

record 't pump =
  ps_ix :: "'t indices"
  ps_policy :: inbound_policy
  tun_rx :: "bytes list"
  tun_tx :: "bytes list"
  rx_notify :: bool
  net_sent :: "(transport_addr \<times> bytes) list"
  sel_log :: "sel_line list"

definition sel_record :: "sel_line \<Rightarrow> 't pump \<Rightarrow> 't pump" where
  "sel_record line s = s\<lparr>sel_log := ring_push SEL_CAP line (sel_log s)\<rparr>"

text \<open>
  A failed send is only logged, so the pump's view of the network is the list of datagrams
  it handed over.
\<close>

definition send_outbound :: "transport_addr \<Rightarrow> bytes \<Rightarrow> 't pump \<Rightarrow> 't pump" where
  "send_outbound a bs s = s\<lparr>net_sent := net_sent s @ [(a, bs)]\<rparr>"

abbreviation modify_in :: "peer_id \<Rightarrow> ('t peer \<Rightarrow> 't peer) \<Rightarrow> 't pump \<Rightarrow> 't pump" where
  "modify_in i f s \<equiv> s\<lparr>ps_ix := modify_peer i f (ps_ix s)\<rparr>"

section \<open>Choosing an address\<close>

type_synonym path_hint = "(key32 \<Rightarrow> sock_addr option) option"

definition hint_endpoint :: "path_hint \<Rightarrow> key32 \<Rightarrow> sock_addr option" where
  "hint_endpoint hint k = (case hint of Some h \<Rightarrow> h k | None \<Rightarrow> None)"

definition pick_addr :: "instant \<Rightarrow> path_hint \<Rightarrow> 't peer \<Rightarrow> transport_addr option" where
  "pick_addr now hint p =
     (case auth_src_fresh now p of
        Some auth \<Rightarrow> Some auth
      | None \<Rightarrow>
          (case hint of
             Some h \<Rightarrow> (case h (pubkey p) of Some udp \<Rightarrow> Some (Udp udp) | None \<Rightarrow> transport_addr p)
           | None \<Rightarrow> transport_addr p))"

section \<open>Inbound\<close>

text \<open>The first call consumes the datagram; only a network output asks for a drain.\<close>

partial_function (option) drain_tunn ::
  "'t tunn_ops \<Rightarrow> peer_id \<Rightarrow> 't indices \<Rightarrow> bytes list \<Rightarrow> bytes list
     \<Rightarrow> ('t indices \<times> bytes list \<times> bytes list) option" where
  "drain_tunn ops i ix nets tuns =
     (case call_tunn (decapsulate ops []) i ix of
        (ix, out) \<Rightarrow>
          (case out of
             Done \<Rightarrow> Some (ix, nets, tuns)
           | Network b \<Rightarrow> drain_tunn ops i ix (nets @ [b]) tuns
           | TunnelV4 b \<Rightarrow> drain_tunn ops i ix nets (tuns @ [b])
           | TunnelV6 \<Rightarrow> drain_tunn ops i ix nets tuns))"

definition decap_all ::
  "'t tunn_ops \<Rightarrow> bytes \<Rightarrow> peer_id \<Rightarrow> 't indices \<Rightarrow> ('t indices \<times> bytes list \<times> bytes list) option" where
  "decap_all ops datagram i ix =
     (case call_tunn (decapsulate ops datagram) i ix of
        (ix, Done) \<Rightarrow> Some (ix, [], [])
      | (ix, Network b) \<Rightarrow> drain_tunn ops i ix [b] []
      | (ix, TunnelV4 b) \<Rightarrow> Some (ix, [], [b])
      | (ix, TunnelV6) \<Rightarrow> Some (ix, [], []))"

definition reply_all :: "transport_addr \<Rightarrow> peer_id \<Rightarrow> bytes list \<Rightarrow> 't pump \<Rightarrow> 't pump" where
  "reply_all src i nets s =
     fold (\<lambda>bs s.
       send_outbound src bs
         (sel_record (SelReply (pubkey (peer_at (ps_ix s) i)) (our_index (peer_at (ps_ix s) i)) src (length bs)) s))
       nets s"

definition inbound_allowed :: "inbound_policy \<Rightarrow> 't peer \<Rightarrow> bytes \<Rightarrow> bool" where
  "inbound_allowed policy p plaintext =
     (case parse_ipv4_meta plaintext of
        None \<Rightarrow> False
      | Some meta \<Rightarrow>
          list_ex (\<lambda>cidr. contains cidr (meta_src meta)) (allowed_ips p) \<and>
          allows policy (meta_src meta) (meta_dst meta) (meta_protocol meta) (meta_dst_port meta))"

definition deliver :: "instant \<Rightarrow> peer_id \<Rightarrow> bytes \<Rightarrow> 't pump \<Rightarrow> 't pump" where
  "deliver now i plaintext s =
     (if inbound_allowed (ps_policy s) (peer_at (ps_ix s) i) plaintext
      then (modify_in i (\<lambda>p. p\<lparr>stats := (stats p)\<lparr>rx_bytes := rx_bytes (stats p) + word_of_nat (length plaintext),
                                              last_rx := Some now\<rparr>\<rparr>) s)
             \<lparr>tun_rx := tun_rx s @ [plaintext], rx_notify := True\<rparr>
      else s)"

definition inbound_for_peer ::
  "'t tunn_ops \<Rightarrow> instant \<Rightarrow> transport_addr \<Rightarrow> bytes \<Rightarrow> peer_id \<Rightarrow> 't pump \<Rightarrow> 't pump option" where
  "inbound_for_peer ops now src datagram i s =
     (let s = (case src of Derp _ _ \<Rightarrow> modify_in i (set_transport_addr src) s | Udp _ \<Rightarrow> s)
      in case decap_all ops datagram i (ps_ix s) of
           None \<Rightarrow> None
         | Some (ix, nets, tuns) \<Rightarrow>
             let s = s\<lparr>ps_ix := ix\<rparr>;
                 s = (if nets \<noteq> [] \<or> tuns \<noteq> []
                      then (case src of Udp _ \<Rightarrow> modify_in i (set_auth_src now src) s | Derp _ _ \<Rightarrow> s)
                      else s);
                 s = reply_all src i nets s
             in Some (fold (deliver now i) tuns s))"

fun for_peers :: "(peer_id \<Rightarrow> 's \<Rightarrow> 's option) \<Rightarrow> peer_id list \<Rightarrow> 's \<Rightarrow> 's option" where
  "for_peers f [] s = Some s"
| "for_peers f (i # is) s = (case f i s of None \<Rightarrow> None | Some s \<Rightarrow> for_peers f is s)"

definition routed_peers :: "'t indices \<Rightarrow> bytes \<Rightarrow> peer_id list" where
  "routed_peers ix datagram =
     (case route_inbound ix datagram of
        SinglePeer i \<Rightarrow> [i]
      | Broadcast \<Rightarrow> map snd (by_pubkey ix)
      | Junk \<Rightarrow> [])"

definition handle_inbound ::
  "'t tunn_ops \<Rightarrow> instant \<Rightarrow> transport_addr \<Rightarrow> bytes \<Rightarrow> 't pump \<Rightarrow> 't pump option" where
  "handle_inbound ops now src datagram s =
     for_peers (inbound_for_peer ops now src datagram) (routed_peers (ps_ix s) datagram) s"

section \<open>Outbound, timers, the loop\<close>

definition handle_outbound ::
  "'t tunn_ops \<Rightarrow> instant \<Rightarrow> path_hint \<Rightarrow> bytes \<Rightarrow> 't pump \<Rightarrow> 't pump option" where
  "handle_outbound ops now hint plaintext s =
     (case parse_ipv4_dst plaintext of
        None \<Rightarrow> Some s
      | Some dst \<Rightarrow>
          (case peer_for_ip (ps_ix s) dst of
             None \<Rightarrow> Some s
           | Some i \<Rightarrow>
               let p = peer_at (ps_ix s) i;
                   picked = pick_addr now hint p;
                   s = sel_record (SelData dst (pubkey p) (our_index p) picked (auth_src_load p)
                         (hint_endpoint hint (pubkey p)) (transport_addr p) (length plaintext)) s
               in case picked of
                    None \<Rightarrow> Some s
                  | Some a \<Rightarrow>
                      (case call_tunn (encapsulate ops plaintext) i (ps_ix s) of
                         (ix, Network bs) \<Rightarrow>
                           let s = s\<lparr>ps_ix := modify_peer i (\<lambda>p. p\<lparr>stats := (stats p)\<lparr>tx_bytes :=
                                 tx_bytes (stats p) + word_of_nat (length plaintext)\<rparr>\<rparr>) ix\<rparr>
                           in Some (send_outbound a bs s)
                       | (ix, Done) \<Rightarrow> Some (s\<lparr>ps_ix := ix\<rparr>)
                       | (ix, _) \<Rightarrow> None)))"

definition tick_peer :: "'t tunn_ops \<Rightarrow> instant \<Rightarrow> path_hint \<Rightarrow> peer_id \<Rightarrow> 't pump \<Rightarrow> 't pump" where
  "tick_peer ops now hint i s =
     (let p = peer_at (ps_ix s) i in
      if last_rx (stats p) = None then s
      else case pick_addr now hint p of
             None \<Rightarrow> s
           | Some a \<Rightarrow>
               (case call_tunn (update_timers ops) i (ps_ix s) of
                  (ix, Network bs) \<Rightarrow>
                    send_outbound a bs
                      (sel_record (SelTimer (pubkey p) (our_index p) a (auth_src_load p)
                         (hint_endpoint hint (pubkey p)) (transport_addr p) (length bs)) (s\<lparr>ps_ix := ix\<rparr>))
                | (ix, _) \<Rightarrow> s\<lparr>ps_ix := ix\<rparr>))"

definition tick_timers :: "'t tunn_ops \<Rightarrow> instant \<Rightarrow> path_hint \<Rightarrow> 't pump \<Rightarrow> 't pump" where
  "tick_timers ops now hint s = fold (tick_peer ops now hint) (map snd (by_pubkey (ps_ix s))) s"

definition TIMER_TICK :: duration where "TIMER_TICK = millis 250"

fun outbound_all :: "'t tunn_ops \<Rightarrow> instant \<Rightarrow> path_hint \<Rightarrow> bytes list \<Rightarrow> 't pump \<Rightarrow> 't pump option" where
  "outbound_all ops now hint [] s = Some s"
| "outbound_all ops now hint (p # ps) s =
     (case handle_outbound ops now hint p s of None \<Rightarrow> None | Some s \<Rightarrow> outbound_all ops now hint ps s)"

text \<open>One pass of \<open>run\<close>: what was received, the queue of packets to send, the timers.\<close>

definition pump_pass ::
  "'t tunn_ops \<Rightarrow> path_hint \<Rightarrow> instant \<Rightarrow> (transport_addr \<times> bytes) option \<Rightarrow> instant \<times> 't pump
     \<Rightarrow> (instant \<times> 't pump) option" where
  "pump_pass ops hint now received ls =
     (case ls of (last_tick, s) \<Rightarrow>
      (case (case received of Some (src, d) \<Rightarrow> handle_inbound ops now src d s | None \<Rightarrow> Some s) of
         None \<Rightarrow> None
       | Some s \<Rightarrow>
           (case outbound_all ops now hint (tun_tx s) (s\<lparr>tun_tx := []\<rparr>) of
              None \<Rightarrow> None
            | Some s \<Rightarrow>
                if duration_since now last_tick \<ge> TIMER_TICK
                then Some (now, tick_timers ops now hint s)
                else Some (last_tick, s))))"

section \<open>What the handlers change\<close>

lemma modify_modify [simp]: "modify_peer i f (modify_peer i g ix) = modify_peer i (f \<circ> g) ix"
  by (cases "i < length (heap ix)") (simp_all add: modify_peer_def list_update_beyond)

lemma modify_ident: "(\<And>p. f p = p) \<Longrightarrow> modify_peer i f ix = ix"
  by (simp add: modify_peer_def)

lemma modify_peer_field:
  assumes "\<And>p. F (f p) = F p"
  shows "F (peer_at (modify_peer i f ix) j) = F (peer_at ix j)"
  using assms
  by (cases "i = j"; cases "i < length (heap ix)") (simp_all add: modify_peer_def list_update_beyond)

text \<open>The effect of a handler on one peer, given by what becomes of its mutable fields.\<close>

definition touch ::
  "transport_addr option \<Rightarrow> (transport_addr \<times> instant) option \<Rightarrow> 't \<Rightarrow> peer_stats \<Rightarrow> 't peer \<Rightarrow> 't peer" where
  "touch ta au t st p = p\<lparr>transport_addr := ta, tunn := t, auth_src := au, stats := st\<rparr>"

lemma call_tunn_touch:
  "call_tunn op i ix = (ix', out) \<Longrightarrow>
     \<exists>t. ix' = modify_peer i (\<lambda>p. p\<lparr>tunn := t\<rparr>) ix \<and> (\<exists>r. op (tunn (peer_at ix i)) = (t, r) \<and> out = outcome_of r)"
  by (auto simp: call_tunn_def split: prod.splits)

definition drained ::
  "'t tunn_ops \<Rightarrow> peer_id \<Rightarrow> 't indices \<Rightarrow> bytes list \<Rightarrow> bytes list
     \<Rightarrow> 't indices \<times> bytes list \<times> bytes list \<Rightarrow> bool" where
  "drained ops i ix nets tuns y \<longleftrightarrow> (case y of (ix', nets', tuns') \<Rightarrow>
     (\<exists>t. ix' = modify_peer i (\<lambda>p. p\<lparr>tunn := t\<rparr>) ix) \<and> (\<exists>ns. nets' = nets @ ns) \<and>
     (\<forall>b \<in> set tuns'. b \<in> set tuns \<or> (\<exists>t. snd (decapsulate ops [] t) = WriteToTunnelV4 b)))"

lemma drain_tunn_drained:
  assumes "drain_tunn ops i ix nets tuns = Some y"
  shows "drained ops i ix nets tuns y"
proof (rule drain_tunn.raw_induct [of drained, OF _ assms], goal_cases)
  case (1 drain ops i ix nets tuns y)
  obtain ix1 out where c: "call_tunn (decapsulate ops []) i ix = (ix1, out)" by fastforce
  then obtain t r where ix1: "ix1 = modify_peer i (\<lambda>p. p\<lparr>tunn := t\<rparr>) ix"
    and r: "decapsulate ops [] (tunn (peer_at ix i)) = (t, r)" "out = outcome_of r"
    by (blast dest: call_tunn_touch)
  have tv4: "\<exists>t. snd (decapsulate ops [] t) = WriteToTunnelV4 b" if "out = TunnelV4 b" for b
    using that r by (cases r) (auto intro!: exI [of _ "tunn (peer_at ix i)"])
  show ?case
  proof (cases out)
    case Done
    then show ?thesis using 1(2) c ix1 by (auto simp: drained_def)
  next
    case (Network b)
    then have "drain ops i ix1 (nets @ [b]) tuns = Some y" using 1(2) c by simp
    from 1(1) [OF this] show ?thesis by (auto simp: drained_def ix1 comp_def)
  next
    case (TunnelV4 b)
    then have "drain ops i ix1 nets (tuns @ [b]) = Some y" using 1(2) c by simp
    from 1(1) [OF this] tv4 [OF TunnelV4] show ?thesis by (auto simp: drained_def ix1 comp_def)
  next
    case TunnelV6
    then have "drain ops i ix1 nets tuns = Some y" using 1(2) c by simp
    from 1(1) [OF this] show ?thesis by (auto simp: drained_def ix1 comp_def)
  qed
qed

text \<open>The tunnel accepts a datagram when it produces output for it.\<close>

definition tunn_accepts :: "'t tunn_ops \<Rightarrow> bytes \<Rightarrow> 't \<Rightarrow> bool" where
  "tunn_accepts ops d t =
     (case outcome_of (snd (decapsulate ops d t)) of Network _ \<Rightarrow> True | TunnelV4 _ \<Rightarrow> True | _ \<Rightarrow> False)"

lemma decap_all_touch:
  assumes "decap_all ops datagram i ix = Some (ix', nets, tuns)"
  shows "(\<exists>t. ix' = modify_peer i (\<lambda>p. p\<lparr>tunn := t\<rparr>) ix) \<and>
    (\<forall>b \<in> set tuns. \<exists>d t. snd (decapsulate ops d t) = WriteToTunnelV4 b) \<and>
    (nets \<noteq> [] \<or> tuns \<noteq> [] \<longleftrightarrow> tunn_accepts ops datagram (tunn (peer_at ix i)))"
proof -
  obtain ix1 out where c: "call_tunn (decapsulate ops datagram) i ix = (ix1, out)" by fastforce
  then obtain t r where ix1: "ix1 = modify_peer i (\<lambda>p. p\<lparr>tunn := t\<rparr>) ix"
    and r: "decapsulate ops datagram (tunn (peer_at ix i)) = (t, r)" "out = outcome_of r"
    by (blast dest: call_tunn_touch)
  have acc: "tunn_accepts ops datagram (tunn (peer_at ix i)) \<longleftrightarrow> (case out of Network _ \<Rightarrow> True | TunnelV4 _ \<Rightarrow> True | _ \<Rightarrow> False)"
    using r by (simp add: tunn_accepts_def)
  have tv4: "\<exists>d t. snd (decapsulate ops d t) = WriteToTunnelV4 b" if "out = TunnelV4 b" for b
    using that r by (cases r) (auto intro!: exI [of _ datagram] exI [of _ "tunn (peer_at ix i)"])
  show ?thesis
  proof (cases out)
    case (Network b)
    with assms c have "drain_tunn ops i ix1 [b] [] = Some (ix', nets, tuns)" by (simp add: decap_all_def)
    from drain_tunn_drained [OF this] show ?thesis using acc Network by (auto simp: drained_def ix1 comp_def) blast
  next
    case (TunnelV4 b)
    then show ?thesis using assms c ix1 tv4 acc by (auto simp: decap_all_def) blast
  qed (use assms c ix1 acc in \<open>auto simp: decap_all_def\<close>)
qed

lemma reply_all_frame [frame_simps]:
  "ps_ix (reply_all src i nets s) = ps_ix s"
  "ps_policy (reply_all src i nets s) = ps_policy s"
  "tun_rx (reply_all src i nets s) = tun_rx s"
  "rx_notify (reply_all src i nets s) = rx_notify s"
  "net_sent (reply_all src i nets s) = net_sent s @ map (Pair src) nets"
  unfolding reply_all_def
  by (induction nets arbitrary: s) (auto simp: send_outbound_def sel_record_def)

lemma inbound_allowed_cong: "allowed_ips p = allowed_ips q \<Longrightarrow> inbound_allowed pol p = inbound_allowed pol q"
  by (rule ext) (simp add: inbound_allowed_def split: option.split)

lemma deliver_fold:
  "(\<exists>st. ps_ix (fold (deliver now i) tuns s) = modify_peer i (\<lambda>p. p\<lparr>stats := st p\<rparr>) (ps_ix s)) \<and>
   ps_policy (fold (deliver now i) tuns s) = ps_policy s \<and>
   net_sent (fold (deliver now i) tuns s) = net_sent s \<and>
   tun_rx (fold (deliver now i) tuns s) =
     tun_rx s @ filter (inbound_allowed (ps_policy s) (peer_at (ps_ix s) i)) tuns \<and>
   (rx_notify (fold (deliver now i) tuns s) \<longleftrightarrow>
     rx_notify s \<or> (\<exists>b \<in> set tuns. inbound_allowed (ps_policy s) (peer_at (ps_ix s) i) b))"
proof (induction tuns arbitrary: s)
  case Nil
  show ?case by (simp add: modify_ident exI [of _ stats])
next
  case (Cons b tuns)
  let ?d = "deliver now i b s"
  have same: "inbound_allowed pol (peer_at (ps_ix ?d) i) = inbound_allowed pol (peer_at (ps_ix s) i)" for pol
    by (rule inbound_allowed_cong) (simp add: deliver_def modify_peer_field)
  have "\<exists>st. ps_ix ?d = modify_peer i (\<lambda>p. p\<lparr>stats := st p\<rparr>) (ps_ix s)"
    by (auto simp: deliver_def modify_ident intro: exI [of _ stats])
  then show ?case
    using Cons.IH [of ?d] same
    by (auto simp: comp_def deliver_def)
qed

text \<open>
  Everything one datagram does for one peer, in one statement: the peer's fields, the
  replies, and the packets handed to the network stack.
\<close>

definition inbound_effect ::
  "'t tunn_ops \<Rightarrow> instant \<Rightarrow> transport_addr \<Rightarrow> bytes \<Rightarrow> peer_id \<Rightarrow> 't pump \<Rightarrow> 't pump \<Rightarrow> bool" where
  "inbound_effect ops now src datagram i s s' \<longleftrightarrow>
     (\<exists>t st nets tuns.
        (\<forall>b \<in> set tuns. \<exists>d u. snd (decapsulate ops d u) = WriteToTunnelV4 b) \<and>
        ps_ix s' = modify_peer i (\<lambda>p. touch
            (case src of Derp _ _ \<Rightarrow> Some src | Udp _ \<Rightarrow> transport_addr p)
            (case src of Udp _ \<Rightarrow> (if tunn_accepts ops datagram (tunn (peer_at (ps_ix s) i)) then Some (src, now) else auth_src p)
                       | Derp _ _ \<Rightarrow> auth_src p)
            t (st p) p) (ps_ix s) \<and>
        ps_policy s' = ps_policy s \<and>
        net_sent s' = net_sent s @ map (Pair src) nets \<and>
        tun_rx s' = tun_rx s @ filter (inbound_allowed (ps_policy s) (peer_at (ps_ix s) i)) tuns \<and>
        (rx_notify s' \<longleftrightarrow> rx_notify s \<or> (\<exists>b \<in> set tuns. inbound_allowed (ps_policy s) (peer_at (ps_ix s) i) b)))"

lemma inbound_for_peer_effect:
  assumes "inbound_for_peer ops now src datagram i s = Some s'"
  shows "inbound_effect ops now src datagram i s s'"
proof -
  let ?s1 = "case src of Derp _ _ \<Rightarrow> modify_in i (set_transport_addr src) s | Udp _ \<Rightarrow> s"
  from assms obtain ix nets tuns where d: "decap_all ops datagram i (ps_ix ?s1) = Some (ix, nets, tuns)"
    by (auto simp: inbound_for_peer_def Let_def split: option.splits)
  define s3 where "s3 = (let s2 = ?s1\<lparr>ps_ix := ix\<rparr> in if nets \<noteq> [] \<or> tuns \<noteq> []
    then (case src of Udp _ \<Rightarrow> modify_in i (set_auth_src now src) s2 | Derp _ _ \<Rightarrow> s2) else s2)"
  have s': "s' = fold (deliver now i) tuns (reply_all src i nets s3)"
    using assms d by (simp add: inbound_for_peer_def s3_def Let_def)
  obtain t where ix: "ix = modify_peer i (\<lambda>p. p\<lparr>tunn := t\<rparr>) (ps_ix ?s1)"
    and tuns: "\<forall>b \<in> set tuns. \<exists>d u. snd (decapsulate ops d u) = WriteToTunnelV4 b"
    and out: "nets \<noteq> [] \<or> tuns \<noteq> [] \<longleftrightarrow> tunn_accepts ops datagram (tunn (peer_at (ps_ix ?s1) i))"
    using decap_all_touch [OF d] by blast
  have same_tunn: "tunn (peer_at (ps_ix ?s1) i) = tunn (peer_at (ps_ix s) i)"
    by (cases src) (simp_all add: modify_peer_field set_transport_addr_def)
  have s3: "ps_ix s3 = modify_peer i (\<lambda>p. touch
            (case src of Derp _ _ \<Rightarrow> Some src | Udp _ \<Rightarrow> transport_addr p)
            (case src of Udp _ \<Rightarrow> (if tunn_accepts ops datagram (tunn (peer_at (ps_ix s) i)) then Some (src, now) else auth_src p)
                       | Derp _ _ \<Rightarrow> auth_src p)
            t (stats p) p) (ps_ix s)"
    using out same_tunn
    by (cases src)
      (auto simp: s3_def ix comp_def touch_def set_transport_addr_def set_auth_src_def Let_def)
  have allowed: "inbound_allowed pol (peer_at (ps_ix s3) i) = inbound_allowed pol (peer_at (ps_ix s) i)" for pol
    by (rule inbound_allowed_cong) (simp add: s3 modify_peer_field touch_def)
  have s1: "ps_policy s3 = ps_policy s" "net_sent s3 = net_sent s" "tun_rx s3 = tun_rx s" "rx_notify s3 = rx_notify s"
    by (cases src; simp add: s3_def Let_def)+
  from deliver_fold [of now i tuns "reply_all src i nets s3"] obtain st where
    st: "ps_ix s' = modify_peer i (\<lambda>p. p\<lparr>stats := st p\<rparr>) (ps_ix s3)"
    unfolding s' by (auto simp: frame_simps)
  have rest: "ps_policy s' = ps_policy s" "net_sent s' = net_sent s @ map (Pair src) nets"
    "tun_rx s' = tun_rx s @ filter (inbound_allowed (ps_policy s) (peer_at (ps_ix s) i)) tuns"
    "rx_notify s' \<longleftrightarrow> rx_notify s \<or> (\<exists>b \<in> set tuns. inbound_allowed (ps_policy s) (peer_at (ps_ix s) i) b)"
    using deliver_fold [of now i tuns "reply_all src i nets s3"]
    by (simp_all add: s' frame_simps s1 allowed)
  have "\<exists>st. ps_ix s' = modify_peer i (\<lambda>p. touch
            (case src of Derp _ _ \<Rightarrow> Some src | Udp _ \<Rightarrow> transport_addr p)
            (case src of Udp _ \<Rightarrow> (if tunn_accepts ops datagram (tunn (peer_at (ps_ix s) i)) then Some (src, now) else auth_src p)
                       | Derp _ _ \<Rightarrow> auth_src p)
            t (st p) p) (ps_ix s)"
    by (rule exI [of _ "\<lambda>p. st (touch
            (case src of Derp _ _ \<Rightarrow> Some src | Udp _ \<Rightarrow> transport_addr p)
            (case src of Udp _ \<Rightarrow> (if tunn_accepts ops datagram (tunn (peer_at (ps_ix s) i)) then Some (src, now) else auth_src p)
                       | Derp _ _ \<Rightarrow> auth_src p)
            t (stats p) p)"])
      (simp add: st s3 comp_def touch_def)
  then obtain st' where final: "ps_ix s' = modify_peer i (\<lambda>p. touch
            (case src of Derp _ _ \<Rightarrow> Some src | Udp _ \<Rightarrow> transport_addr p)
            (case src of Udp _ \<Rightarrow> (if tunn_accepts ops datagram (tunn (peer_at (ps_ix s) i)) then Some (src, now) else auth_src p)
                       | Derp _ _ \<Rightarrow> auth_src p)
            t (st' p) p) (ps_ix s)" ..
  with rest tuns final show ?thesis
    unfolding inbound_effect_def by (intro exI [of _ t] exI [of _ st'] exI [of _ nets] exI [of _ tuns] conjI)
qed

section \<open>Over all peers a datagram is for\<close>

definition same_tables :: "'t indices \<Rightarrow> 't indices \<Rightarrow> bool" where
  "same_tables ix ix' \<longleftrightarrow>
     by_pubkey ix' = by_pubkey ix \<and> by_idx ix' = by_idx ix \<and> by_ip ix' = by_ip ix \<and>
     length (heap ix') = length (heap ix) \<and>
     (\<forall>j. pubkey (peer_at ix' j) = pubkey (peer_at ix j) \<and> our_index (peer_at ix' j) = our_index (peer_at ix j) \<and>
          allowed_ips (peer_at ix' j) = allowed_ips (peer_at ix j))"

lemma same_tables_refl [simp]: "same_tables ix ix"
  by (simp add: same_tables_def)

lemma same_tables_trans: "same_tables a b \<Longrightarrow> same_tables b c \<Longrightarrow> same_tables a c"
  by (simp add: same_tables_def)

lemma same_tables_modify: "keeps_identity f \<Longrightarrow> same_tables ix (modify_peer i f ix)"
  by (simp add: same_tables_def keeps_identity_def modify_peer_field)

lemma same_tables_modify_iff [simp]:
  "keeps_identity f \<Longrightarrow> same_tables a (modify_peer i f b) \<longleftrightarrow> same_tables a b"
  by (simp add: same_tables_def keeps_identity_def modify_peer_field)

lemma same_tables_ok: "same_tables ix ix' \<Longrightarrow> ix_ok ix \<Longrightarrow> ix_ok ix'"
  by (simp add: same_tables_def ix_ok_def live_def)

lemma keeps_identity_touch [simp]: "keeps_identity (\<lambda>p. touch (a p) (b p) (c p) (d p) p)"
  by (simp add: keeps_identity_def touch_def)

lemma for_peers_induct:
  assumes "for_peers f is s = Some s'"
    and "\<And>s. R s s" and "\<And>a b c. R a b \<Longrightarrow> R b c \<Longrightarrow> R a c"
    and "\<And>i s s'. i \<in> set is \<Longrightarrow> f i s = Some s' \<Longrightarrow> R s s'"
  shows "R s s'"
  using assms(1,4)
proof (induction "is" arbitrary: s)
  case Nil
  then show ?case using assms(2) by simp
next
  case (Cons i "is")
  then obtain s1 where "f i s = Some s1" "for_peers f is s1 = Some s'" by (auto split: option.splits)
  then have "R s s1" and "R s1 s'" using Cons by auto
  then show ?case by (rule assms(3))
qed

lemma inbound_effect_ix:
  assumes "inbound_effect ops now src datagram i s s'"
  obtains t st where "ps_ix s' = modify_peer i (\<lambda>p. touch
      (case src of Derp _ _ \<Rightarrow> Some src | Udp _ \<Rightarrow> transport_addr p)
      (case src of Udp _ \<Rightarrow> (if tunn_accepts ops datagram (tunn (peer_at (ps_ix s) i)) then Some (src, now) else auth_src p)
                 | Derp _ _ \<Rightarrow> auth_src p)
      t (st p) p) (ps_ix s)"
  using assms unfolding inbound_effect_def by blast

lemma inbound_same_tables:
  assumes "inbound_effect ops now src d i s s'"
  shows "same_tables (ps_ix s) (ps_ix s')"
  using assms by (rule inbound_effect_ix) (simp add: same_tables_modify)

definition packet_ok ::
  "'t tunn_ops \<Rightarrow> peer_id list \<Rightarrow> inbound_policy \<Rightarrow> 't indices \<Rightarrow> bytes \<Rightarrow> bool" where
  "packet_ok ops is pol ix b \<longleftrightarrow> (\<exists>d u. snd (decapsulate ops d u) = WriteToTunnelV4 b) \<and>
     (\<exists>i \<in> set is. inbound_allowed pol (peer_at ix i) b)"

definition admitted :: "'t tunn_ops \<Rightarrow> peer_id list \<Rightarrow> 't pump \<Rightarrow> 't pump \<Rightarrow> bool" where
  "admitted ops is s s' \<longleftrightarrow> same_tables (ps_ix s) (ps_ix s') \<and> ps_policy s' = ps_policy s \<and>
     (\<exists>new. tun_rx s' = tun_rx s @ new \<and> list_all (packet_ok ops is (ps_policy s) (ps_ix s)) new)"

lemma packet_ok_cong: "same_tables ix ix' \<Longrightarrow> packet_ok ops is pol ix' = packet_ok ops is pol ix"
proof
  fix b
  assume "same_tables ix ix'"
  then have "inbound_allowed pol (peer_at ix' i) = inbound_allowed pol (peer_at ix i)" for i
    by (intro inbound_allowed_cong) (simp add: same_tables_def)
  then show "packet_ok ops is pol ix' b = packet_ok ops is pol ix b" by (simp add: packet_ok_def)
qed

lemma admitted_trans:
  assumes "admitted ops is a b" and "admitted ops is b c"
  shows "admitted ops is a c"
proof -
  from assms obtain n1 n2 where
    "tun_rx b = tun_rx a @ n1" "list_all (packet_ok ops is (ps_policy a) (ps_ix a)) n1"
    "tun_rx c = tun_rx b @ n2" "list_all (packet_ok ops is (ps_policy b) (ps_ix b)) n2"
    and t: "same_tables (ps_ix a) (ps_ix b)" "same_tables (ps_ix b) (ps_ix c)"
    "ps_policy b = ps_policy a" "ps_policy c = ps_policy b"
    unfolding admitted_def by blast
  then show ?thesis
    unfolding admitted_def packet_ok_cong [OF t(1)]
    by (intro conjI exI [of _ "n1 @ n2"] same_tables_trans [OF t(1,2)]) simp_all
qed

lemma handle_inbound_admitted:
  assumes "handle_inbound ops now src d s = Some s'"
  shows "admitted ops (routed_peers (ps_ix s) d) s s'"
  using assms unfolding handle_inbound_def
proof (rule for_peers_induct [where R = "admitted ops (routed_peers (ps_ix s) d)"])
  fix a b c
  show "admitted ops (routed_peers (ps_ix s) d) a b \<Longrightarrow> admitted ops (routed_peers (ps_ix s) d) b c
    \<Longrightarrow> admitted ops (routed_peers (ps_ix s) d) a c" by (rule admitted_trans)
next
  fix i a b
  assume "i \<in> set (routed_peers (ps_ix s) d)" and "inbound_for_peer ops now src d i a = Some b"
  then have e: "inbound_effect ops now src d i a b" by (simp add: inbound_for_peer_effect)
  then obtain tuns where "ps_policy b = ps_policy a"
    "tun_rx b = tun_rx a @ filter (inbound_allowed (ps_policy a) (peer_at (ps_ix a) i)) tuns"
    "\<forall>x \<in> set tuns. \<exists>d u. snd (decapsulate ops d u) = WriteToTunnelV4 x"
    unfolding inbound_effect_def by blast
  then show "admitted ops (routed_peers (ps_ix s) d) a b"
    using inbound_same_tables [OF e] \<open>i \<in> _\<close>
    unfolding admitted_def packet_ok_def by (auto simp: list_all_iff)
qed (simp add: admitted_def)

lemma routed_peers_live: "ix_ok ix \<Longrightarrow> i \<in> set (routed_peers ix d) \<Longrightarrow> i \<in> live ix"
  by (auto simp: routed_peers_def route_inbound_def live_def Let_def ix_okD(3)
      split: if_splits option.splits dest: map_of_SomeD)

section \<open>Addresses\<close>

definition addresses_step :: "instant \<Rightarrow> transport_addr \<Rightarrow> 't pump \<Rightarrow> 't pump \<Rightarrow> bool" where
  "addresses_step now src s s' \<longleftrightarrow>
     (\<forall>j. case src of
        Udp _ \<Rightarrow> transport_addr (peer_at (ps_ix s') j) = transport_addr (peer_at (ps_ix s) j) \<and>
          auth_src (peer_at (ps_ix s') j) \<in> {auth_src (peer_at (ps_ix s) j), Some (src, now)}
      | Derp _ _ \<Rightarrow> auth_src (peer_at (ps_ix s') j) = auth_src (peer_at (ps_ix s) j) \<and>
          transport_addr (peer_at (ps_ix s') j) \<in> {transport_addr (peer_at (ps_ix s) j), Some src})"

lemma modify_peer_at:
  "F (peer_at (modify_peer i f ix) j) \<in> {F (peer_at ix j), F (f (peer_at ix j))}"
  by (cases "i = j"; cases "i < length (heap ix)") (simp_all add: modify_peer_def list_update_beyond)

lemma inbound_effect_addresses:
  assumes "inbound_effect ops now src d i s s'"
  shows "addresses_step now src s s'"
proof -
  from assms obtain t st where ix: "ps_ix s' = modify_peer i (\<lambda>p. touch
      (case src of Derp _ _ \<Rightarrow> Some src | Udp _ \<Rightarrow> transport_addr p)
      (case src of Udp _ \<Rightarrow> (if tunn_accepts ops d (tunn (peer_at (ps_ix s) i)) then Some (src, now) else auth_src p)
                 | Derp _ _ \<Rightarrow> auth_src p)
      t (st p) p) (ps_ix s)" by (rule inbound_effect_ix)
  show ?thesis
  proof (cases src)
    case (Udp a)
    then show ?thesis
      unfolding addresses_step_def ix
      using modify_peer_at [where F = auth_src and ix = "ps_ix s" and i = i]
      by (simp add: touch_def modify_peer_field split: if_split_asm) fastforce
  next
    case (Derp r k)
    then show ?thesis
      unfolding addresses_step_def ix
      using modify_peer_at [where F = transport_addr and ix = "ps_ix s" and i = i]
      by (simp add: touch_def modify_peer_field) fastforce
  qed
qed

lemma addresses_step_trans:
  "addresses_step now src a b \<Longrightarrow> addresses_step now src b c \<Longrightarrow> addresses_step now src a c"
  by (cases src) (simp add: addresses_step_def, metis)+

lemma handle_inbound_addresses:
  "handle_inbound ops now src d s = Some s' \<Longrightarrow> addresses_step now src s s'"
  unfolding handle_inbound_def
proof (erule for_peers_induct [where R = "addresses_step now src"])
  fix a b c
  show "addresses_step now src a b \<Longrightarrow> addresses_step now src b c \<Longrightarrow> addresses_step now src a c"
    by (rule addresses_step_trans)
next
  fix a
  show "addresses_step now src a a" by (simp add: addresses_step_def split: transport_addr.split)
qed (blast intro: inbound_effect_addresses inbound_for_peer_effect)

section \<open>The pump keeps running\<close>

text \<open>
  What BoringTun documents of \<open>Tunn\<close>: repeating \<open>decapsulate\<close> with an empty datagram drains
  a finite queue and then returns \<open>Done\<close>, and \<open>encapsulate\<close> never writes to the tunnel.
\<close>

definition tunn_contract :: "('t \<Rightarrow> nat) \<Rightarrow> 't tunn_ops \<Rightarrow> bool" where
  "tunn_contract queued ops \<longleftrightarrow>
     (\<forall>t t' r. decapsulate ops [] t = (t', r) \<and> outcome_of r \<noteq> Done \<longrightarrow> queued t' < queued t) \<and>
     (\<forall>p t b. outcome_of (snd (encapsulate ops p t)) \<noteq> TunnelV4 b \<and>
        outcome_of (snd (encapsulate ops p t)) \<noteq> TunnelV6)"

lemma drain_tunn_total:
  assumes "tunn_contract queued ops" and "i < length (heap ix)"
  shows "\<exists>y. drain_tunn ops i ix nets tuns = Some y"
  using assms(2)
proof (induction "queued (tunn (peer_at ix i))" arbitrary: ix nets tuns rule: less_induct)
  case less
  obtain t r where d: "decapsulate ops [] (tunn (peer_at ix i)) = (t, r)" by fastforce
  let ?ix = "modify_peer i (\<lambda>p. p\<lparr>tunn := t\<rparr>) ix"
  have c: "call_tunn (decapsulate ops []) i ix = (?ix, outcome_of r)" by (simp add: call_tunn_def d)
  have IH: "\<exists>y. drain_tunn ops i ?ix ns ts = Some y" if "outcome_of r \<noteq> Done" for ns ts
  proof (rule less.hyps)
    show "queued (tunn (peer_at ?ix i)) < queued (tunn (peer_at ix i))"
      using assms(1) d that less.prems by (auto simp: tunn_contract_def peer_at_modify)
  qed (simp add: less.prems)
  show ?case
    by (cases "outcome_of r") (use IH c in \<open>simp_all add: drain_tunn.simps [of ops i ix nets tuns]\<close>)
qed

lemma decap_all_total:
  assumes "tunn_contract queued ops" and "i < length (heap ix)"
  shows "\<exists>y. decap_all ops d i ix = Some y"
proof -
  obtain ix1 out where c: "call_tunn (decapsulate ops d) i ix = (ix1, out)" by fastforce
  have "i < length (heap ix1)" using call_tunn_touch [OF c] assms(2) by auto
  then show ?thesis
    using drain_tunn_total [OF assms(1)] c by (cases out) (simp_all add: decap_all_def)
qed

lemma inbound_for_peer_total:
  assumes "tunn_contract queued ops" and "i < length (heap (ps_ix s))"
  shows "\<exists>s'. inbound_for_peer ops now src d i s = Some s'"
proof -
  let ?s1 = "case src of Derp _ _ \<Rightarrow> modify_in i (set_transport_addr src) s | Udp _ \<Rightarrow> s"
  have "i < length (heap (ps_ix ?s1))" using assms(2) by (cases src) simp_all
  from decap_all_total [OF assms(1) this, of d] show ?thesis
    by (auto simp: inbound_for_peer_def Let_def)
qed

lemma for_peers_total:
  assumes "\<forall>i \<in> set is. i < n" and "length (heap (ps_ix s)) = n"
    and "\<And>i s. i < n \<Longrightarrow> length (heap (ps_ix s)) = n \<Longrightarrow>
      \<exists>s'. f i s = Some s' \<and> length (heap (ps_ix s')) = n"
  shows "\<exists>s'. for_peers f is s = Some s'"
  using assms(1,2)
proof (induction "is" arbitrary: s)
  case Nil
  then show ?case by simp
next
  case (Cons i "is")
  then obtain s1 where "f i s = Some s1" "length (heap (ps_ix s1)) = n" using assms(3) [of i s] by auto
  then show ?case using Cons by simp
qed

lemma handle_inbound_total:
  assumes "tunn_contract queued ops" and "ix_ok (ps_ix s)"
  shows "\<exists>s'. handle_inbound ops now src d s = Some s'"
  unfolding handle_inbound_def
proof (rule for_peers_total)
  show "\<forall>i \<in> set (routed_peers (ps_ix s) d). i < length (heap (ps_ix s))"
    using routed_peers_live live_lt assms(2) by blast
  fix i and t :: "'a pump"
  assume "i < length (heap (ps_ix s))" and len: "length (heap (ps_ix t)) = length (heap (ps_ix s))"
  then obtain t' where t': "inbound_for_peer ops now src d i t = Some t'"
    using inbound_for_peer_total [OF assms(1), of i t now src d] by auto
  moreover have "length (heap (ps_ix t')) = length (heap (ps_ix t))"
    using inbound_same_tables [OF inbound_for_peer_effect [OF t']] by (simp add: same_tables_def)
  ultimately show "\<exists>t'. inbound_for_peer ops now src d i t = Some t' \<and>
      length (heap (ps_ix t')) = length (heap (ps_ix s))" using len by auto
qed simp

lemma handle_outbound_total:
  assumes "tunn_contract queued ops"
  shows "\<exists>s'. handle_outbound ops now hint p s = Some s'"
  using assms
  by (auto simp: handle_outbound_def tunn_contract_def call_tunn_def Let_def
      split: option.split prod.split outcome.split) (metis snd_conv)+

lemma outbound_all_total:
  "tunn_contract queued ops \<Longrightarrow> \<exists>s'. outbound_all ops now hint ps s = Some s'"
proof (induction ps arbitrary: s)
  case (Cons p ps)
  then show ?case using handle_outbound_total [of queued ops now hint p s] by auto
qed simp

lemma keeps_identity_fields [simp]:
  "keeps_identity (\<lambda>p. p\<lparr>tunn := t\<rparr>)" "keeps_identity (\<lambda>p. p\<lparr>stats := st p\<rparr>)"
  by (simp_all add: keeps_identity_def)

lemma call_tunn_tables: "call_tunn op i ix = (ix', out) \<Longrightarrow> same_tables ix ix'"
  by (auto dest!: call_tunn_touch intro: same_tables_modify)

lemma handle_outbound_tables:
  "handle_outbound ops now hint p s = Some s' \<Longrightarrow> same_tables (ps_ix s) (ps_ix s')"
  by (auto simp: handle_outbound_def sel_record_def send_outbound_def Let_def
      split: option.splits prod.splits outcome.splits
      intro: call_tunn_tables)

lemma outbound_all_tables:
  "outbound_all ops now hint ps s = Some s' \<Longrightarrow> same_tables (ps_ix s) (ps_ix s')"
  by (induction ps arbitrary: s)
    (auto split: option.splits intro: same_tables_trans [OF handle_outbound_tables])

lemma tick_peer_tables: "same_tables (ps_ix s) (ps_ix (tick_peer ops now hint i s))"
  by (auto simp: tick_peer_def sel_record_def send_outbound_def Let_def
      split: option.splits prod.splits outcome.splits intro: call_tunn_tables)

lemma tick_timers_tables: "same_tables (ps_ix s) (ps_ix (tick_timers ops now hint s))"
proof -
  have "same_tables (ps_ix s) (ps_ix (fold (tick_peer ops now hint) is s))" for "is"
    by (induction "is" arbitrary: s) (auto intro: same_tables_trans [OF tick_peer_tables])
  then show ?thesis by (simp add: tick_timers_def)
qed

lemma pump_pass_total:
  assumes "tunn_contract queued ops" and "ix_ok (ps_ix s)"
  shows "\<exists>lt s'. pump_pass ops hint now received (last_tick, s) = Some (lt, s') \<and> ix_ok (ps_ix s')"
proof -
  obtain s1 where s1: "(case received of Some (src, d) \<Rightarrow> handle_inbound ops now src d s | None \<Rightarrow> Some s) = Some s1"
    using handle_inbound_total [OF assms, of now "fst (the received)" "snd (the received)"]
    by (cases received) auto
  have "same_tables (ps_ix s) (ps_ix s1)"
    using s1 by (cases received) (auto simp: admitted_def dest!: handle_inbound_admitted)
  then have ok1: "ix_ok (ps_ix s1)" using assms(2) by (rule same_tables_ok)
  obtain s2 where s2: "outbound_all ops now hint (tun_tx s1) (s1\<lparr>tun_tx := []\<rparr>) = Some s2"
    using outbound_all_total [OF assms(1)] by blast
  have ok2: "ix_ok (ps_ix s2)"
    using outbound_all_tables [OF s2] ok1 by (simp add: same_tables_ok)
  have "ix_ok (ps_ix (tick_timers ops now hint s2))"
    using tick_timers_tables ok2 by (rule same_tables_ok)
  then show ?thesis using s1 s2 ok2 by (simp add: pump_pass_def)
qed

text \<open>
  A run of the pump: each pass has a time, what was received, and the packets the network
  stack queued for sending.
\<close>

fun pump_run ::
  "'t tunn_ops \<Rightarrow> path_hint \<Rightarrow> (instant \<times> (transport_addr \<times> bytes) option \<times> bytes list) list
     \<Rightarrow> instant \<times> 't pump \<Rightarrow> (instant \<times> 't pump) option" where
  "pump_run ops hint [] ls = Some ls"
| "pump_run ops hint ((now, received, queue) # evs) (lt, s) =
     (case pump_pass ops hint now received (lt, s\<lparr>tun_tx := tun_tx s @ queue\<rparr>) of
        None \<Rightarrow> None
      | Some ls \<Rightarrow> pump_run ops hint evs ls)"

section \<open>A concrete pump\<close>

text \<open>A minimal tunnel that decrypts by dropping the sixteen bytes of a data header.\<close>

definition strip_tunn :: "unit tunn_ops" where
  "strip_tunn = \<lparr>decapsulate = (\<lambda>d t. (t, if length d < 16 then TunnErr else WriteToTunnelV4 (drop 16 d))),
     encapsulate = (\<lambda>p t. (t, WriteToNetwork p)), update_timers = (\<lambda>t. (t, TunnDone))\<rparr>"

lemma strip_tunn_contract: "tunn_contract (\<lambda>_. 0) strip_tunn"
  by (simp add: tunn_contract_def strip_tunn_def)

definition one_peer :: "inbound_policy \<Rightarrow> unit pump" where
  "one_peer pol = \<lparr>ps_ix = indices (engine_new (\<lambda>_ _ _ _. ()) [sample_cfg 1 [any_route]]), ps_policy = pol,
     tun_rx = [], tun_tx = [], rx_notify = False, net_sent = [], sel_log = []\<rparr>"

lemma one_peer_ix:
  "ps_ix (one_peer pol) = \<lparr>heap = [fresh_peer (\<lambda>_ _ _ _. ()) (sample_cfg 1 [any_route]) 1],
     by_pubkey = [(replicate 32 1, 0)], by_idx = [(1, 0)], by_ip = [(any_route, 0)]\<rparr>"
  by (simp add: one_peer_def engine_new_def upsert_peer_cases indices_new_def indices_insert_def
      indices_remove_def allowed_insert_peer_def sort_by_prefix_def fresh_peer_def sample_cfg_def Let_def)

lemma one_peer_ok: "ix_ok (ps_ix (one_peer pol))"
proof -
  have "engine_ok (engine_new (\<lambda>_ _ _ _. ()) [sample_cfg 1 [any_route]])"
    unfolding engine_new_calls by (intro engine_run_ok empty_engine_ok) (simp add: indices_new_def)
  then show ?thesis by (simp add: one_peer_def engine_ok_def)
qed

definition sample_packet :: bytes where
  "sample_packet = [0x45, 0, 0, 20, 0, 0, 0, 0, 64, 1, 0, 0, 10, 0, 0, 1, 10, 0, 0, 2]"

definition sample_datagram :: bytes where
  "sample_datagram = [4, 0, 0, 0, 0, 1, 0, 0, 0, 0, 0, 0, 0, 0, 0, 0] @ sample_packet"

lemma sample_routed: "routed_peers (ps_ix (one_peer pol)) sample_datagram = [0]"
  by (simp add: routed_peers_def route_inbound_def one_peer_ix sample_datagram_def u32_le_at_def
      u32_from_le_bytes_def u32_from_be_bytes_def)

lemma sample_meta: "parse_ipv4_meta sample_packet =
    Some \<lparr>meta_src = ipv4_new 10 0 0 1, meta_dst = ipv4_new 10 0 0 2, meta_protocol = 1, meta_dst_port = None\<rparr>"
  by (simp add: parse_ipv4_meta_def sample_packet_def header_len_def)

lemma sample_inbound:
  "\<exists>s'. handle_inbound strip_tunn now src sample_datagram (one_peer AllowAll) = Some s' \<and>
     tun_rx s' = [sample_packet]"
proof -
  obtain s' where s': "inbound_for_peer strip_tunn now src sample_datagram 0 (one_peer AllowAll) = Some s'"
    using inbound_for_peer_total [OF strip_tunn_contract, of 0 "one_peer AllowAll" now src sample_datagram]
    by (auto simp: one_peer_ix)
  have id: "modify_peer 0 (\<lambda>p. p\<lparr>tunn := ()\<rparr>) ix = ix" for ix :: "unit indices"
    by (rule modify_ident) (metis (full_types) peer.surjective peer.update_convs(6) old.unit.exhaust)
  have d: "decap_all strip_tunn sample_datagram 0 ix = Some (ix, [], [sample_packet])" for ix :: "unit indices"
    by (simp add: decap_all_def call_tunn_def strip_tunn_def sample_datagram_def id)
  have ok: "inbound_allowed AllowAll p sample_packet" if "allowed_ips p = [any_route]" for p :: "unit peer"
    using that by (simp add: inbound_allowed_def sample_meta any_route_def contains_0)
  have at: "allowed_ips (peer_at (ps_ix (one_peer pol)) 0) = [any_route]" for pol
    by (simp add: one_peer_ix fresh_peer_def sample_cfg_def)
  have f: "ps_policy (one_peer pol) = pol" "tun_rx (one_peer pol) = []" for pol by (simp_all add: one_peer_def)
  have "tun_rx s' = [sample_packet]"
    using s' by (cases src) (auto simp: inbound_for_peer_def d deliver_def frame_simps ok at f modify_peer_field
        set_auth_src_def set_transport_addr_def Let_def)
  then show ?thesis using s' by (simp add: handle_inbound_def sample_routed)
qed

section \<open>Properties\<close>

text \<open>
  C1: Nothing reaches the network stack unchecked. Every packet that handling a datagram
  adds to the receive queue was decrypted by a tunnel, parses as IPv4, carries a source
  address that the control plane assigned to a peer the datagram was routed to, and is
  allowed by the packet filter in force; the tables and the filter are left as they were.
\<close>

theorem handle_inbound_checked:
  assumes "handle_inbound ops now src d s = Some s'" and "ix_ok (ps_ix s)"
  shows "\<exists>new. tun_rx s' = tun_rx s @ new \<and> same_tables (ps_ix s) (ps_ix s') \<and> ps_policy s' = ps_policy s \<and>
    (\<forall>pkt \<in> set new. (\<exists>c t. snd (decapsulate ops c t) = WriteToTunnelV4 pkt) \<and>
      (\<exists>i m. i \<in> set (routed_peers (ps_ix s) d) \<and> i \<in> live (ps_ix s) \<and> parse_ipv4_meta pkt = Some m \<and>
         (\<exists>c \<in> set (allowed_ips (peer_at (ps_ix s) i)). contains c (meta_src m)) \<and>
         allows (ps_policy s) (meta_src m) (meta_dst m) (meta_protocol m) (meta_dst_port m)))"
proof -
  from handle_inbound_admitted [OF assms(1)] obtain new where
    "tun_rx s' = tun_rx s @ new" "same_tables (ps_ix s) (ps_ix s')" "ps_policy s' = ps_policy s"
    and ok: "list_all (packet_ok ops (routed_peers (ps_ix s) d) (ps_policy s) (ps_ix s)) new"
    unfolding admitted_def by blast
  moreover have "(\<exists>c t. snd (decapsulate ops c t) = WriteToTunnelV4 pkt) \<and>
      (\<exists>i m. i \<in> set (routed_peers (ps_ix s) d) \<and> i \<in> live (ps_ix s) \<and> parse_ipv4_meta pkt = Some m \<and>
         (\<exists>c \<in> set (allowed_ips (peer_at (ps_ix s) i)). contains c (meta_src m)) \<and>
         allows (ps_policy s) (meta_src m) (meta_dst m) (meta_protocol m) (meta_dst_port m))"
    if "pkt \<in> set new" for pkt
  proof -
    from ok that have "packet_ok ops (routed_peers (ps_ix s) d) (ps_policy s) (ps_ix s) pkt"
      by (simp add: list_all_iff)
    then obtain i where "i \<in> set (routed_peers (ps_ix s) d)"
      and i: "inbound_allowed (ps_policy s) (peer_at (ps_ix s) i) pkt"
      and "\<exists>c t. snd (decapsulate ops c t) = WriteToTunnelV4 pkt"
      unfolding packet_ok_def by blast
    moreover from i obtain m where "parse_ipv4_meta pkt = Some m"
      "\<exists>c \<in> set (allowed_ips (peer_at (ps_ix s) i)). contains c (meta_src m)"
      "allows (ps_policy s) (meta_src m) (meta_dst m) (meta_protocol m) (meta_dst_port m)"
      by (auto simp: inbound_allowed_def list_ex_iff split: option.splits)
    ultimately show ?thesis using routed_peers_live [OF assms(2)] by blast
  qed
  ultimately show ?thesis by blast
qed

theorem handle_inbound_checked_witness:
  "\<exists>s' m. handle_inbound strip_tunn 0 (Derp 1 []) sample_datagram (one_peer AllowAll) = Some s' \<and>
     tun_rx s' = [sample_packet] \<and> parse_ipv4_meta sample_packet = Some m \<and>
     allows AllowAll (meta_src m) (meta_dst m) (meta_protocol m) (meta_dst_port m)"
proof -
  obtain s' where s': "handle_inbound strip_tunn 0 (Derp 1 []) sample_datagram (one_peer AllowAll) = Some s'"
    "tun_rx s' = [sample_packet]" using sample_inbound by blast
  with handle_inbound_checked [OF s'(1) one_peer_ok] show ?thesis
    by (auto simp: one_peer_def)
qed

text \<open>
  C12: Where a packet came from is remembered by kind. A datagram over UDP never changes any
  peer's relay fallback; it can only set the authenticated source of a peer to the address
  it came from. A datagram over a relay never changes any authenticated source; it can only
  set a fallback to that relay address. So relayed traffic cannot pull replies off a
  direct path, and direct traffic cannot erase the fallback.
\<close>

theorem handle_inbound_address_kinds:
  assumes "handle_inbound ops now src d s = Some s'"
  shows "case src of
      Udp _ \<Rightarrow> transport_addr (peer_at (ps_ix s') j) = transport_addr (peer_at (ps_ix s) j) \<and>
        (auth_src (peer_at (ps_ix s') j) = auth_src (peer_at (ps_ix s) j) \<or>
         auth_src (peer_at (ps_ix s') j) = Some (src, now))
    | Derp _ _ \<Rightarrow> auth_src (peer_at (ps_ix s') j) = auth_src (peer_at (ps_ix s) j) \<and>
        (transport_addr (peer_at (ps_ix s') j) = transport_addr (peer_at (ps_ix s) j) \<or>
         transport_addr (peer_at (ps_ix s') j) = Some src)"
  using handle_inbound_addresses [OF assms] by (cases src) (auto simp: addresses_step_def)

theorem handle_inbound_address_kinds_witness:
  "\<exists>s'. handle_inbound strip_tunn 7 (Derp 1 []) sample_datagram (one_peer AllowAll) = Some s' \<and>
     auth_src (peer_at (ps_ix s') 0) = None"
proof -
  obtain s' where s': "handle_inbound strip_tunn 7 (Derp 1 []) sample_datagram (one_peer AllowAll) = Some s'"
    using sample_inbound by blast
  with handle_inbound_address_kinds [OF s', of 0] show ?thesis
    by (simp add: one_peer_ix fresh_peer_def)
qed

lemma inbound_effect_auth:
  assumes "inbound_effect ops now (Udp a) d i s s'" and "i < length (heap (ps_ix s))"
    and "tunn_accepts ops d (tunn (peer_at (ps_ix s) i))"
  shows "auth_src (peer_at (ps_ix s') i) = Some (Udp a, now)"
  using assms(1)
proof (rule inbound_effect_ix)
  fix t st
  assume "ps_ix s' = modify_peer i (\<lambda>p. touch
      (case Udp a of Derp _ _ \<Rightarrow> Some (Udp a) | Udp _ \<Rightarrow> transport_addr p)
      (case Udp a of Udp _ \<Rightarrow> (if tunn_accepts ops d (tunn (peer_at (ps_ix s) i)) then Some (Udp a, now) else auth_src p)
                 | Derp _ _ \<Rightarrow> auth_src p)
      t (st p) p) (ps_ix s)"
  then show ?thesis using assms(2,3) by (simp add: peer_at_modify touch_def)
qed

text \<open>
  C11: Replies follow the peer for 6.5 seconds. Once a peer's tunnel has accepted a datagram
  that came over UDP, packets for that peer go back to exactly that address for as long as
  less than the trust window has passed, whatever the path oracle says; from then on they
  go to the oracle's live endpoint, or to the relay fallback when it has none.
\<close>

theorem reply_address_window:
  assumes "handle_inbound ops t0 (Udp a) d s = Some s'" and "ix_ok (ps_ix s)"
    and "routed_peers (ps_ix s) d = [i]" and "tunn_accepts ops d (tunn (peer_at (ps_ix s) i))"
  shows "pick_addr now hint (peer_at (ps_ix s') i) =
    (if now < t0 + millis 6500 then Some (Udp a)
     else case hint_endpoint hint (pubkey (peer_at (ps_ix s) i)) of
            Some udp \<Rightarrow> Some (Udp udp)
          | None \<Rightarrow> transport_addr (peer_at (ps_ix s) i))"
proof -
  have e: "inbound_effect ops t0 (Udp a) d i s s'"
    using assms(1,3) by (auto simp: handle_inbound_def inbound_for_peer_effect split: option.splits)
  have "i < length (heap (ps_ix s))"
    using routed_peers_live [OF assms(2), of i d] assms(2,3) by (simp add: live_lt)
  then have auth: "auth_src (peer_at (ps_ix s') i) = Some (Udp a, t0)"
    using inbound_effect_auth [OF e] assms(4) by blast
  have "pubkey (peer_at (ps_ix s') i) = pubkey (peer_at (ps_ix s) i)"
    using inbound_same_tables [OF e] by (simp add: same_tables_def)
  moreover have "transport_addr (peer_at (ps_ix s') i) = transport_addr (peer_at (ps_ix s) i)"
    using inbound_effect_addresses [OF e] by (simp add: addresses_step_def)
  ultimately show ?thesis
    using auth by (auto simp: pick_addr_def auth_src_fresh_def hint_endpoint_def duration_since_def
        AUTH_SRC_TRUST_def split: option.split)
qed

theorem reply_address_window_witness:
  "\<exists>s'. handle_inbound strip_tunn 100 (Udp (SockV4 5 6)) sample_datagram (one_peer AllowAll) = Some s' \<and>
     pick_addr 200 None (peer_at (ps_ix s') 0) = Some (Udp (SockV4 5 6)) \<and>
     pick_addr (100 + millis 6500) None (peer_at (ps_ix s') 0) = None"
proof -
  obtain s' where s': "handle_inbound strip_tunn 100 (Udp (SockV4 5 6)) sample_datagram (one_peer AllowAll) = Some s'"
    using sample_inbound by blast
  have "tunn_accepts strip_tunn sample_datagram (tunn (peer_at (ps_ix (one_peer AllowAll)) 0))"
    by (simp add: tunn_accepts_def strip_tunn_def sample_datagram_def)
  from reply_address_window [OF s' one_peer_ok sample_routed this] s' show ?thesis
    by (simp add: hint_endpoint_def one_peer_ix fresh_peer_def sample_cfg_def)
qed

lemma pump_run_comes_back:
  assumes "tunn_contract queued ops" and "ix_ok (ps_ix s)"
  shows "\<exists>lt s'. pump_run ops hint evs (last_tick, s) = Some (lt, s') \<and> ix_ok (ps_ix s')"
  using assms(2)
proof (induction evs arbitrary: last_tick s)
  case Nil
  then show ?case by simp
next
  case (Cons ev evs)
  obtain now received queue where ev: "ev = (now, received, queue)" by (cases ev)
  obtain lt s1 where "pump_pass ops hint now received (last_tick, s\<lparr>tun_tx := tun_tx s @ queue\<rparr>) = Some (lt, s1)"
    and "ix_ok (ps_ix s1)"
    using pump_pass_total [OF assms(1), of "s\<lparr>tun_tx := tun_tx s @ queue\<rparr>" hint now received last_tick]
      Cons.prems by auto
  then show ?case using Cons.IH [of s1 lt] ev by simp
qed

text \<open>
  C29: A relayed handshake initiation overwrites every fallback. Such a datagram names no
  receiver, so it is offered to all peers, and the relay address it came from is stored for
  each of them before its tunnel has accepted anything: afterwards the fallback of every
  peer in the table points at the sender of that one datagram.
\<close>

theorem derp_handshake_init_overwrites_fallbacks:
  assumes "handle_inbound ops now (Derp r k) d s = Some s'" and "ix_ok (ps_ix s)"
    and "4 \<le> length d" and "u32_le_at d 0 = 1" and "j \<in> live (ps_ix s)"
  shows "transport_addr (peer_at (ps_ix s') j) = Some (Derp r k)"
proof -
  have sets: "transport_addr (peer_at (ps_ix b) j) = Some (Derp r k)"
    if "for_peers (inbound_for_peer ops now (Derp r k) d) is a = Some b"
      and "j \<in> set is \<or> transport_addr (peer_at (ps_ix a) j) = Some (Derp r k)" and "j < length (heap (ps_ix a))"
    for "is" a b
    using that
  proof (induction "is" arbitrary: a)
    case Nil
    then show ?case by simp
  next
    case (Cons i "is")
    then obtain c where i: "inbound_for_peer ops now (Derp r k) d i a = Some c"
      and rest: "for_peers (inbound_for_peer ops now (Derp r k) d) is c = Some b"
      by (auto split: option.splits)
    note e = inbound_for_peer_effect [OF i]
    have len: "length (heap (ps_ix c)) = length (heap (ps_ix a))"
      using inbound_same_tables [OF e] by (simp add: same_tables_def)
    have "transport_addr (peer_at (ps_ix c) j) = Some (Derp r k)" if "i = j"
      using e
      by (rule inbound_effect_ix) (simp add: that peer_at_modify touch_def Cons.prems(3))
    moreover have "transport_addr (peer_at (ps_ix c) j) \<in> {transport_addr (peer_at (ps_ix a) j), Some (Derp r k)}"
      using inbound_effect_addresses [OF e] by (simp add: addresses_step_def)
    ultimately show ?case using Cons.IH [OF rest] Cons.prems(2,3) len by auto
  qed
  have "routed_peers (ps_ix s) d = map snd (by_pubkey (ps_ix s))"
    using assms(3,4) by (simp add: routed_peers_def route_inbound_def)
  then have "j \<in> set (routed_peers (ps_ix s) d)" using assms(5) by (simp add: live_def)
  then show ?thesis
    using assms(1) sets live_lt [OF assms(2,5)] unfolding handle_inbound_def by blast
qed

theorem derp_handshake_init_overwrites_fallbacks_witness:
  "\<exists>s'. handle_inbound strip_tunn 0 (Derp 9 [66]) [1, 0, 0, 0] (one_peer AllowAll) = Some s' \<and>
     \<not> tunn_accepts strip_tunn [1, 0, 0, 0] (tunn (peer_at (ps_ix (one_peer AllowAll)) 0)) \<and>
     transport_addr (peer_at (ps_ix s') 0) = Some (Derp 9 [66])"
proof -
  obtain s' where s': "handle_inbound strip_tunn 0 (Derp 9 [66]) [1, 0, 0, 0] (one_peer AllowAll) = Some s'"
    using handle_inbound_total [OF strip_tunn_contract one_peer_ok] by blast
  have "0 \<in> live (ps_ix (one_peer AllowAll))" by (simp add: live_def one_peer_ix)
  moreover have "u32_le_at [1, 0, 0, 0] 0 = 1"
    by (simp add: u32_le_at_def u32_from_le_bytes_def u32_from_be_bytes_def)
  ultimately show ?thesis
    using derp_handshake_init_overwrites_fallbacks [OF s' one_peer_ok] s'
    by (simp add: tunn_accepts_def strip_tunn_def)
qed

end
