(* ===== verification/Wg_Tunn.thy ===== *)
theory Wg_Tunn
  imports Wg_Noise Wg_Pump
begin

unbundle bit_operations_syntax

text \<open>
  The tunnel of the vendored WireGuard implementation: the rate limiter of handshakes
  (\<open>rate_limiter.rs\<close>), the timers (\<open>timers.rs\<close>) and \<open>Tunn\<close> itself (\<open>mod.rs\<close>), in
  \<open>vendor/boringtun/src/noise\<close>. The operations the pump calls on a tunnel are instances of
  this model; the self-test of \<open>wg-engine\<close> runs on two of them.
\<close>

section \<open>Rate limiting\<close>

definition PEER_HANDSHAKE_RATE_LIMIT :: u64 where "PEER_HANDSHAKE_RATE_LIMIT = 10"
definition COOKIE_REFRESH :: nat where "COOKIE_REFRESH = 128"
definition RESET_PERIOD :: nat where "RESET_PERIOD = 1"

record rate_limiter =
  nonce_key :: bytes
  secret_key :: bytes
  rl_start_time :: instant
  nonce_ctr :: u64
  mac1_key :: bytes
  cookie_key :: bytes
  rl_limit :: u64
  rl_count :: u64
  last_reset :: instant

definition rate_limiter_new :: "crypto \<Rightarrow> bytes \<Rightarrow> u64 \<Rightarrow> platform \<Rightarrow> rate_limiter \<times> platform" where
  "rate_limiter_new C pub lim pl =
     (let (secret, pl) = random_secret pl; (nonce, pl) = random_secret pl;
          (start, pl) = instant_now pl; (reset, pl) = instant_now pl
      in (\<lparr>nonce_key = nonce, secret_key = secret, rl_start_time = start, nonce_ctr = 0,
           mac1_key = b2s_hash C LABEL_MAC1 pub, cookie_key = b2s_hash C LABEL_COOKIE pub,
           rl_limit = lim, rl_count = 0, last_reset = reset\<rparr>, pl))"

definition reset_count :: "platform \<Rightarrow> rate_limiter \<Rightarrow> rate_limiter \<times> platform" where
  "reset_count pl rl =
     (case instant_now pl of
        (now, pl) \<Rightarrow>
          (if RESET_PERIOD \<le> duration_since now (last_reset rl) div 1000000000
           then rl\<lparr>rl_count := 0, last_reset := now\<rparr> else rl, pl))"

definition addr_bytes :: "ip_addr \<Rightarrow> bytes" where
  "addr_bytes a =
     (case a of
        IpV4 v4 \<Rightarrow> u32_to_be_bytes v4 @ replicate 12 0
      | IpV6 v6 \<Rightarrow> map (\<lambda>i. ucast (drop_bit (120 - 8 * i) v6)) [0..<16])"

definition current_cookie :: "crypto \<Rightarrow> ip_addr \<Rightarrow> platform \<Rightarrow> rate_limiter \<Rightarrow> bytes \<times> platform" where
  "current_cookie C a pl rl =
     (case instant_now pl of
        (now, pl) \<Rightarrow>
          (let cur_counter = duration_since now (rl_start_time rl) div 1000000000 div COOKIE_REFRESH
           in (b2s_keyed_mac_16_2 C (secret_key rl) (u64_to_le_bytes (word_of_nat cur_counter)) (addr_bytes a), pl)))"

definition rl_nonce :: "crypto \<Rightarrow> rate_limiter \<Rightarrow> bytes \<times> rate_limiter" where
  "rl_nonce C rl = (b2s_mac_24 C (nonce_key rl) (u64_to_le_bytes (nonce_ctr rl)), rl\<lparr>nonce_ctr := nonce_ctr rl + 1\<rparr>)"

definition is_under_load :: "rate_limiter \<Rightarrow> bool \<times> rate_limiter" where
  "is_under_load rl = (rl_limit rl \<le> rl_count rl, rl\<lparr>rl_count := rl_count rl + 1\<rparr>)"

definition format_cookie_reply ::
  "crypto \<Rightarrow> nat \<Rightarrow> u32 \<Rightarrow> bytes \<Rightarrow> bytes \<Rightarrow> rate_limiter \<Rightarrow> rate_limiter \<times> (wg_error + bytes)" where
  "format_cookie_reply C dst_len idx cookie mac1 rl =
     (if dst_len < COOKIE_REPLY_SZ then (rl, Inl DestinationBufferTooSmall)
      else
        case rl_nonce C rl of
          (nonce, rl) \<Rightarrow>
            (rl, Inr (u32_to_le_bytes 3 @ u32_to_le_bytes idx @ nonce @ xaead_seal C (cookie_key rl) nonce mac1 cookie)))"

text \<open>What a call on a tunnel returns.\<close>

datatype tunn_out =
    TDone
  | TErr wg_error
  | TNetwork bytes
  | TTunnelV4 bytes ipv4
  | TTunnelV6 bytes ipv6
  | TPanic

definition sender_idx_of :: "packet \<Rightarrow> u32 option" where
  "sender_idx_of p =
     (case p of PHandshakeInit h \<Rightarrow> Some (hi_sender_idx h) | PHandshakeResponse h \<Rightarrow> Some (hr_sender_idx h) | _ \<Rightarrow> None)"

definition verify_packet ::
  "crypto \<Rightarrow> ip_addr option \<Rightarrow> bytes \<Rightarrow> platform \<Rightarrow> rate_limiter \<Rightarrow> rate_limiter \<times> platform \<times> (tunn_out + packet)" where
  "verify_packet C src_addr src pl rl =
     (case parse_incoming_packet src of
        Inl e \<Rightarrow> (rl, pl, Inl (TErr e))
      | Inr packet \<Rightarrow>
          (case sender_idx_of packet of
             None \<Rightarrow> (rl, pl, Inr packet)
           | Some sender_idx \<Rightarrow>
               (let msg = take (length src - 32) src; macs = drop (length src - 32) src;
                    mac1 = take 16 macs; mac2 = drop 16 macs
                in if b2s_keyed_mac_16 C (mac1_key rl) msg \<noteq> mac1 then (rl, pl, Inl (TErr InvalidMac))
                   else
                     (case is_under_load rl of
                        (False, rl) \<Rightarrow> (rl, pl, Inr packet)
                      | (True, rl) \<Rightarrow>
                          (case src_addr of
                             None \<Rightarrow> (rl, pl, Inl (TErr UnderLoad))
                           | Some a \<Rightarrow>
                               (case current_cookie C a pl rl of
                                  (cookie, pl) \<Rightarrow>
                                    if b2s_keyed_mac_16_2 C cookie msg mac1 = mac2 then (rl, pl, Inr packet)
                                    else
                                      (case format_cookie_reply C COOKIE_REPLY_SZ sender_idx cookie mac1 rl of
                                         (rl, Inl e) \<Rightarrow> (rl, pl, Inl (TErr e))
                                       | (rl, Inr b) \<Rightarrow> (rl, pl, Inl (TNetwork b)))))))))"

section \<open>Timers\<close>

definition REKEY_AFTER_TIME :: duration where "REKEY_AFTER_TIME = secs 120"
definition REJECT_AFTER_TIME :: duration where "REJECT_AFTER_TIME = secs 180"
definition REKEY_ATTEMPT_TIME :: duration where "REKEY_ATTEMPT_TIME = secs 90"
definition REKEY_TIMEOUT :: duration where "REKEY_TIMEOUT = secs 5"
definition KEEPALIVE_TIMEOUT :: duration where "KEEPALIVE_TIMEOUT = secs 10"
definition COOKIE_EXPIRATION_TIME :: duration where "COOKIE_EXPIRATION_TIME = secs 120"

datatype timer_name =
    TimeCurrent | TimeSessionEstablished | TimeLastHandshakeStarted | TimeLastPacketReceived | TimeLastPacketSent
  | TimeLastDataPacketReceived | TimeLastDataPacketSent | TimeCookieReceived | TimePersistentKeepalive

definition N_SESSIONS :: nat where "N_SESSIONS = 8"
definition MAX_QUEUE_DEPTH :: nat where "MAX_QUEUE_DEPTH = 256"

record timers =
  tm_is_initiator :: bool
  time_started :: instant
  tm :: "timer_name \<Rightarrow> duration"
  session_timers :: "duration list"
  want_keepalive :: bool
  want_handshake :: bool
  persistent_keepalive :: nat
  should_reset_rr :: bool

definition timers_new :: "u16 option \<Rightarrow> bool \<Rightarrow> platform \<Rightarrow> timers \<times> platform" where
  "timers_new keepalive reset_rr pl =
     (case instant_now pl of
        (now, pl) \<Rightarrow>
          (\<lparr>tm_is_initiator = False, time_started = now, tm = (\<lambda>_. 0), session_timers = replicate N_SESSIONS 0,
            want_keepalive = False, want_handshake = False,
            persistent_keepalive = (case keepalive of Some k \<Rightarrow> unat k | None \<Rightarrow> 0), should_reset_rr = reset_rr\<rparr>, pl))"

definition timers_clear :: "platform \<Rightarrow> timers \<Rightarrow> timers \<times> platform" where
  "timers_clear pl ts =
     (case instant_now pl of
        (now, pl) \<Rightarrow>
          (ts\<lparr>tm := (\<lambda>_. duration_since now (time_started ts)), want_handshake := False, want_keepalive := False\<rparr>, pl))"

section \<open>The tunnel\<close>

text \<open>
  Byte counts are \<open>usize\<close>, 32 bits on the target, and wrap. Times are durations since the
  tunnel was made; they come from a monotonic clock, so no subtraction below goes negative.
\<close>

record tunn_state =
  tn_handshake :: handshake
  tn_sessions :: "wg_session option list"
  tn_current :: nat
  packet_queue :: "bytes list"
  tn_timers :: timers
  tn_tx_bytes :: u32
  tn_rx_bytes :: u32
  tn_rate_limiter :: rate_limiter
  tn_platform :: platform

text \<open>As the engine makes it: with a rate limiter of its own. The wall clock is read once, for the time stamps.\<close>

definition tunn_make ::
  "crypto \<Rightarrow> duration \<Rightarrow> platform \<Rightarrow> bytes \<Rightarrow> bytes \<Rightarrow> bytes option \<Rightarrow> u16 option \<Rightarrow> u32 \<Rightarrow> tunn_state" where
  "tunn_make C unix_time pl priv peer psk keepalive index =
     (let pub = public_key C priv;
          (start, pl) = instant_now pl;
          h = handshake_new C priv pub peer (push_bit 8 index) psk
                \<lparr>duration_at_start = unix_time, instant_at_start = start\<rparr>;
          (ts, pl) = timers_new keepalive True pl;
          (rl, pl) = rate_limiter_new C pub PEER_HANDSHAKE_RATE_LIMIT pl
      in \<lparr>tn_handshake = h, tn_sessions = replicate N_SESSIONS None, tn_current = 0, packet_queue = [], tn_timers = ts,
          tn_tx_bytes = 0, tn_rx_bytes = 0, tn_rate_limiter = rl, tn_platform = pl\<rparr>)"

definition timer_tick :: "timer_name \<Rightarrow> tunn_state \<Rightarrow> tunn_state" where
  "timer_tick name t =
     (let ts = tn_timers t;
          ts = (case name of
                  TimeLastPacketReceived \<Rightarrow> ts\<lparr>want_keepalive := True, want_handshake := False\<rparr>
                | TimeLastPacketSent \<Rightarrow> ts\<lparr>want_handshake := True, want_keepalive := False\<rparr>
                | _ \<Rightarrow> ts)
      in t\<lparr>tn_timers := ts\<lparr>tm := (tm ts)(name := tm ts TimeCurrent)\<rparr>\<rparr>)"

definition timer_tick_session_established :: "bool \<Rightarrow> nat \<Rightarrow> tunn_state \<Rightarrow> tunn_state" where
  "timer_tick_session_established is_initiator session_idx t =
     (let t = timer_tick TimeSessionEstablished t; ts = tn_timers t
      in t\<lparr>tn_timers := ts\<lparr>session_timers := (session_timers ts)[session_idx mod N_SESSIONS := tm ts TimeCurrent],
                          tm_is_initiator := is_initiator\<rparr>\<rparr>)"

definition clear_all :: "tunn_state \<Rightarrow> tunn_state" where
  "clear_all t =
     (case timers_clear (tn_platform t) (tn_timers t) of
        (ts, pl) \<Rightarrow> t\<lparr>tn_sessions := map (\<lambda>_. None) (tn_sessions t), packet_queue := [], tn_timers := ts, tn_platform := pl\<rparr>)"

definition update_session_timers :: "duration \<Rightarrow> tunn_state \<Rightarrow> tunn_state" where
  "update_session_timers time_now t =
     (let sts = session_timers (tn_timers t)
      in t\<lparr>tn_sessions := map (\<lambda>(s, st). if REJECT_AFTER_TIME < time_now - st then None else s) (zip (tn_sessions t) sts),
           tn_timers := (tn_timers t)\<lparr>session_timers := map (\<lambda>st. if REJECT_AFTER_TIME < time_now - st then time_now else st) sts\<rparr>\<rparr>)"

definition set_current_session :: "nat \<Rightarrow> tunn_state \<Rightarrow> tunn_state" where
  "set_current_session new_idx t =
     (let cur_idx = tn_current t; sts = session_timers (tn_timers t)
      in if cur_idx = new_idx then t
         else if tn_sessions t ! (cur_idx mod N_SESSIONS) = None
              \<or> sts ! (cur_idx mod N_SESSIONS) \<le> sts ! (new_idx mod N_SESSIONS)
         then t\<lparr>tn_current := new_idx\<rparr> else t)"

definition queue_packet :: "bytes \<Rightarrow> tunn_state \<Rightarrow> tunn_state" where
  "queue_packet p t = (if length (packet_queue t) < MAX_QUEUE_DEPTH then t\<lparr>packet_queue := packet_queue t @ [p]\<rparr> else t)"

definition requeue_packet :: "bytes \<Rightarrow> tunn_state \<Rightarrow> tunn_state" where
  "requeue_packet p t = (if length (packet_queue t) < MAX_QUEUE_DEPTH then t\<lparr>packet_queue := p # packet_queue t\<rparr> else t)"

definition tunn_initiation :: "crypto \<Rightarrow> nat \<Rightarrow> bool \<Rightarrow> tunn_state \<Rightarrow> tunn_state \<times> tunn_out" where
  "tunn_initiation C dst_len force_resend t =
     (if is_in_progress (tn_handshake t) \<and> \<not> force_resend then (t, TDone)
      else
        let t = (if is_expired (tn_handshake t)
                 then (case timers_clear (tn_platform t) (tn_timers t) of (ts, pl) \<Rightarrow> t\<lparr>tn_timers := ts, tn_platform := pl\<rparr>)
                 else t);
            starting_new_handshake = \<not> is_in_progress (tn_handshake t)
        in case format_handshake_initiation C dst_len (tn_platform t) (tn_handshake t) of
             (h, pl, r) \<Rightarrow>
               (let t = t\<lparr>tn_handshake := h, tn_platform := pl\<rparr>
                in case r of
                     Inl e \<Rightarrow> (t, TErr e)
                   | Inr packet \<Rightarrow>
                       (let t = (if starting_new_handshake then timer_tick TimeLastHandshakeStarted t else t)
                        in (timer_tick TimeLastPacketSent t, TNetwork packet))))"

definition tunn_encapsulate :: "crypto \<Rightarrow> nat \<Rightarrow> bytes \<Rightarrow> tunn_state \<Rightarrow> tunn_state \<times> tunn_out" where
  "tunn_encapsulate C dst_len src t =
     (let i = tn_current t mod N_SESSIONS
      in case tn_sessions t ! i of
           Some s \<Rightarrow>
             (case format_packet_data C dst_len src s of
                None \<Rightarrow> (t, TPanic)
              | Some (s, packet) \<Rightarrow>
                  (let t = timer_tick TimeLastPacketSent (t\<lparr>tn_sessions := (tn_sessions t)[i := Some s]\<rparr>);
                       t = (if src \<noteq> [] then timer_tick TimeLastDataPacketSent t else t)
                   in (t\<lparr>tn_tx_bytes := tn_tx_bytes t + word_of_nat (length src)\<rparr>, TNetwork packet)))
         | None \<Rightarrow> tunn_initiation C dst_len False (queue_packet src t))"

definition handle_handshake_init :: "crypto \<Rightarrow> nat \<Rightarrow> handshake_init \<Rightarrow> tunn_state \<Rightarrow> tunn_state \<times> tunn_out" where
  "handle_handshake_init C dst_len p t =
     (case receive_handshake_initialization C dst_len p (tn_platform t) (tn_handshake t) of
        (h, pl, r) \<Rightarrow>
          (let t = t\<lparr>tn_handshake := h, tn_platform := pl\<rparr>
           in case r of
                Inl (WgErr e) \<Rightarrow> (t, TErr e)
              | Inl WgPanic \<Rightarrow> (t, TPanic)
              | Inr (packet, s) \<Rightarrow>
                  (let index = unat (receiving_index s);
                       t = t\<lparr>tn_sessions := (tn_sessions t)[index mod N_SESSIONS := Some s]\<rparr>;
                       t = timer_tick TimeLastPacketSent (timer_tick TimeLastPacketReceived t);
                       t = timer_tick_session_established False index t
                   in (set_current_session index t, TNetwork packet))))"

definition handle_handshake_response :: "crypto \<Rightarrow> nat \<Rightarrow> handshake_response \<Rightarrow> tunn_state \<Rightarrow> tunn_state \<times> tunn_out" where
  "handle_handshake_response C dst_len p t =
     (case receive_handshake_response C p (tn_platform t) (tn_handshake t) of
        (h, pl, r) \<Rightarrow>
          (let t = t\<lparr>tn_handshake := h, tn_platform := pl\<rparr>
           in case r of
                Inl e \<Rightarrow> (t, TErr e)
              | Inr s \<Rightarrow>
                  (case format_packet_data C dst_len [] s of
                     None \<Rightarrow> (t, TPanic)
                   | Some (s, keepalive) \<Rightarrow>
                       (let l_idx = unat (receiving_index s); index = l_idx mod N_SESSIONS;
                            t = t\<lparr>tn_sessions := (tn_sessions t)[index := Some s]\<rparr>;
                            t = timer_tick_session_established True index (timer_tick TimeLastPacketReceived t)
                        in (set_current_session l_idx t, TNetwork keepalive)))))"

definition handle_cookie_reply :: "crypto \<Rightarrow> cookie_reply \<Rightarrow> tunn_state \<Rightarrow> tunn_state \<times> tunn_out" where
  "handle_cookie_reply C p t =
     (case receive_cookie_reply C p (tn_handshake t) of
        (h, r) \<Rightarrow>
          (let t = t\<lparr>tn_handshake := h\<rparr>
           in case r of
                Inl e \<Rightarrow> (t, TErr e)
              | Inr _ \<Rightarrow> (timer_tick TimeCookieReceived (timer_tick TimeLastPacketReceived t), TDone)))"

definition ipv6_of_bytes :: "bytes \<Rightarrow> ipv6" where
  "ipv6_of_bytes bs = fold (\<lambda>b w. push_bit 8 w OR ucast b) bs 0"

definition be16_at :: "nat \<Rightarrow> bytes \<Rightarrow> nat" where
  "be16_at i p = unat (u16_from_be_bytes (p ! i) (p ! (i + 1)))"

definition validate_decapsulated_packet :: "bytes \<Rightarrow> tunn_state \<Rightarrow> tunn_state \<times> tunn_out" where
  "validate_decapsulated_packet p t =
     (let accept = (\<lambda>computed_len out.
            if length p < computed_len then (t, TErr InvalidPacket)
            else ((timer_tick TimeLastDataPacketReceived t)\<lparr>tn_rx_bytes := tn_rx_bytes t + word_of_nat computed_len\<rparr>, out (take computed_len p)))
      in if p = [] then (t, TDone)
         else if drop_bit 4 (p ! 0) = 4 \<and> 20 \<le> length p
         then accept (be16_at 2 p) (\<lambda>q. TTunnelV4 q (u32_from_be_bytes (p ! 12) (p ! 13) (p ! 14) (p ! 15)))
         else if drop_bit 4 (p ! 0) = 6 \<and> 40 \<le> length p
         then accept (be16_at 4 p + 40) (\<lambda>q. TTunnelV6 q (ipv6_of_bytes (byte_range 8 24 p)))
         else (t, TErr InvalidPacket))"

definition handle_data :: "crypto \<Rightarrow> nat \<Rightarrow> packet_data \<Rightarrow> tunn_state \<Rightarrow> tunn_state \<times> tunn_out" where
  "handle_data C dst_len p t =
     (let r_idx = unat (pd_receiver_idx p); idx = r_idx mod N_SESSIONS
      in case tn_sessions t ! idx of
           None \<Rightarrow> (t, TErr NoCurrentSession)
         | Some s \<Rightarrow>
             (case receive_packet_data C dst_len p s of
                (s, r) \<Rightarrow>
                  (let t = t\<lparr>tn_sessions := (tn_sessions t)[idx := Some s]\<rparr>
                   in case r of
                        Inl (WgErr e) \<Rightarrow> (t, TErr e)
                      | Inl WgPanic \<Rightarrow> (t, TPanic)
                      | Inr plain \<Rightarrow>
                          validate_decapsulated_packet plain (timer_tick TimeLastPacketReceived (set_current_session r_idx t)))))"

definition handle_verified_packet :: "crypto \<Rightarrow> nat \<Rightarrow> packet \<Rightarrow> tunn_state \<Rightarrow> tunn_state \<times> tunn_out" where
  "handle_verified_packet C dst_len p t =
     (case p of
        PHandshakeInit h \<Rightarrow> handle_handshake_init C dst_len h t
      | PHandshakeResponse h \<Rightarrow> handle_handshake_response C dst_len h t
      | PCookieReply c \<Rightarrow> handle_cookie_reply C c t
      | PData d \<Rightarrow> handle_data C dst_len d t)"

definition send_queued_packet :: "crypto \<Rightarrow> nat \<Rightarrow> tunn_state \<Rightarrow> tunn_state \<times> tunn_out" where
  "send_queued_packet C dst_len t =
     (case packet_queue t of
        [] \<Rightarrow> (t, TDone)
      | p # ps \<Rightarrow>
          (case tunn_encapsulate C dst_len p (t\<lparr>packet_queue := ps\<rparr>) of
             (t, TErr _) \<Rightarrow> (requeue_packet p t, TDone)
           | (t, r) \<Rightarrow> (t, r)))"

text \<open>A cookie reply that does not fit the destination is a panic.\<close>

definition tunn_decapsulate ::
  "crypto \<Rightarrow> nat \<Rightarrow> ip_addr option \<Rightarrow> bytes \<Rightarrow> tunn_state \<Rightarrow> tunn_state \<times> tunn_out" where
  "tunn_decapsulate C dst_len src_addr datagram t =
     (if datagram = [] then send_queued_packet C dst_len t
      else
        case verify_packet C src_addr datagram (tn_platform t) (tn_rate_limiter t) of
          (rl, pl, r) \<Rightarrow>
            (let t = t\<lparr>tn_rate_limiter := rl, tn_platform := pl\<rparr>
             in case r of
                  Inl (TNetwork b) \<Rightarrow> (t, if dst_len < length b then TPanic else TNetwork b)
                | Inl e \<Rightarrow> (t, e)
                | Inr packet \<Rightarrow> handle_verified_packet C dst_len packet t))"

section \<open>The timer tick\<close>

definition expire :: "tunn_state \<Rightarrow> tunn_state \<times> tunn_out" where
  "expire t = (clear_all (t\<lparr>tn_handshake := set_expired (tn_handshake t)\<rparr>), TErr ConnectionExpired)"

text \<open>
  Without a handshake of our own in flight: whether a new one is due, and if not, whether a
  keepalive is. The two wishes are consumed when their conditions are reached.
\<close>

definition idle_timers :: "duration \<Rightarrow> tunn_state \<Rightarrow> tunn_state \<times> bool \<times> bool" where
  "idle_timers now t =
     (let ts = tn_timers t;
          established = tm ts TimeSessionEstablished;
          aut_received = tm ts TimeLastPacketReceived; aut_sent = tm ts TimeLastPacketSent;
          data_received = tm ts TimeLastDataPacketReceived; data_sent = tm ts TimeLastDataPacketSent;
          rekey = tm_is_initiator ts \<and>
            (established < data_sent \<and> REKEY_AFTER_TIME \<le> now - established \<or>
             established < data_received \<and> REJECT_AFTER_TIME - KEEPALIVE_TIMEOUT - REKEY_TIMEOUT \<le> now - established);
          silent = aut_received < data_sent \<and> KEEPALIVE_TIMEOUT + REKEY_TIMEOUT \<le> now - aut_received;
          initiate = rekey \<or> silent \<and> want_handshake ts;
          t = (if silent then t\<lparr>tn_timers := ts\<lparr>want_handshake := False\<rparr>\<rparr> else t)
      in if initiate then (t, True, False)
         else
           let ts = tn_timers t;
               unanswered = aut_sent < data_received \<and> KEEPALIVE_TIMEOUT \<le> now - aut_sent;
               passive = unanswered \<and> want_keepalive ts;
               t = (if unanswered then t\<lparr>tn_timers := ts\<lparr>want_keepalive := False\<rparr>\<rparr> else t);
               persistent = 0 < persistent_keepalive ts \<and>
                 secs (persistent_keepalive ts) \<le> now - tm ts TimePersistentKeepalive
           in (if persistent then timer_tick TimePersistentKeepalive t else t, False, passive \<or> persistent))"

definition tunn_update_timers :: "crypto \<Rightarrow> nat \<Rightarrow> tunn_state \<Rightarrow> tunn_state \<times> tunn_out" where
  "tunn_update_timers C dst_len t =
     (let (time, pl) = instant_now (tn_platform t);
          (rl, pl) = (if should_reset_rr (tn_timers t) then reset_count pl (tn_rate_limiter t) else (tn_rate_limiter t, pl));
          now = duration_since time (time_started (tn_timers t));
          t = t\<lparr>tn_platform := pl, tn_rate_limiter := rl,
                tn_timers := (tn_timers t)\<lparr>tm := (tm (tn_timers t))(TimeCurrent := now)\<rparr>\<rparr>;
          t = update_session_timers now t
      in if is_expired (tn_handshake t) then (t, TErr ConnectionExpired)
         else
           let t = (if has_cookie (tn_handshake t) \<and> COOKIE_EXPIRATION_TIME \<le> now - tm (tn_timers t) TimeCookieReceived
                    then t\<lparr>tn_handshake := clear_cookie (tn_handshake t)\<rparr> else t)
           in if REJECT_AFTER_TIME * 3 \<le> now - tm (tn_timers t) TimeSessionEstablished then expire t
              else
                case hs_timer (tn_handshake t) of
                  Some time_init_sent \<Rightarrow>
                    if REKEY_ATTEMPT_TIME \<le> now - tm (tn_timers t) TimeLastHandshakeStarted then expire t
                    else
                      let (n, pl) = instant_now (tn_platform t); t = t\<lparr>tn_platform := pl\<rparr>
                      in if REKEY_TIMEOUT \<le> duration_since n time_init_sent then tunn_initiation C dst_len True t
                         else (t, TDone)
                | None \<Rightarrow>
                    case idle_timers now t of
                      (t, initiate, keepalive) \<Rightarrow>
                        if initiate then tunn_initiation C dst_len True t
                        else if keepalive then tunn_encapsulate C dst_len [] t
                        else (t, TDone))"

definition time_since_last_handshake :: "tunn_state \<Rightarrow> duration option \<times> tunn_state" where
  "time_since_last_handshake t =
     (if tn_sessions t ! (tn_current t mod N_SESSIONS) \<noteq> None then
        (case instant_now (tn_platform t) of
           (now, pl) \<Rightarrow>
             (Some (duration_since now (time_started (tn_timers t)) - tm (tn_timers t) TimeSessionEstablished), t\<lparr>tn_platform := pl\<rparr>))
      else (None, t))"

definition tunn_set_static_private :: "crypto \<Rightarrow> bytes \<Rightarrow> bytes \<Rightarrow> tunn_state \<Rightarrow> tunn_state option" where
  "tunn_set_static_private C priv pub t =
     (case rate_limiter_new C pub PEER_HANDSHAKE_RATE_LIMIT (tn_platform t) of
        (rl, pl) \<Rightarrow>
          map_option (\<lambda>h. t\<lparr>tn_timers := (tn_timers t)\<lparr>should_reset_rr := True\<rparr>, tn_rate_limiter := rl, tn_platform := pl,
                            tn_handshake := h, tn_sessions := map (\<lambda>_. None) (tn_sessions t)\<rparr>)
            (set_static_private C priv pub (tn_handshake t)))"

definition dst_address :: "bytes \<Rightarrow> ip_addr option" where
  "dst_address p =
     (if p = [] then None
      else if drop_bit 4 (p ! 0) = 4 \<and> 20 \<le> length p
      then Some (IpV4 (u32_from_be_bytes (p ! 16) (p ! 17) (p ! 18) (p ! 19)))
      else if drop_bit 4 (p ! 0) = 6 \<and> 40 \<le> length p then Some (IpV6 (ipv6_of_bytes (byte_range 24 40 p)))
      else None)"

section \<open>The tunnel as the pump calls it\<close>

text \<open>\<open>call_tunn\<close> passes a buffer of 2048 bytes and no source address.\<close>

definition SCRATCH :: nat where "SCRATCH = 2048"

fun tunn_result_of :: "tunn_out \<Rightarrow> tunn_result" where
  "tunn_result_of TDone = TunnDone"
| "tunn_result_of (TErr e) = TunnErr"
| "tunn_result_of (TNetwork b) = WriteToNetwork b"
| "tunn_result_of (TTunnelV4 b a) = WriteToTunnelV4 b"
| "tunn_result_of (TTunnelV6 b a) = WriteToTunnelV6"
| "tunn_result_of TPanic = TunnPanic"

definition boring_ops :: "crypto \<Rightarrow> tunn_state tunn_ops" where
  "boring_ops C =
     \<lparr>decapsulate = (\<lambda>d t. map_prod id tunn_result_of (tunn_decapsulate C SCRATCH None d t)),
      encapsulate = (\<lambda>p t. map_prod id tunn_result_of (tunn_encapsulate C SCRATCH p t)),
      update_timers = (\<lambda>t. map_prod id tunn_result_of (tunn_update_timers C SCRATCH t))\<rparr>"

text \<open>
  What a drain uses up: a queued packet that is sent leaves the queue; one that is queued
  again starts a handshake, and that happens once.
\<close>

definition drain_rank :: "tunn_state \<Rightarrow> nat" where
  "drain_rank t = 2 * length (packet_queue t) + (if is_in_progress (tn_handshake t) then 0 else 1)"

lemma timer_tick_frame [simp]:
  "packet_queue (timer_tick n t) = packet_queue t" "tn_handshake (timer_tick n t) = tn_handshake t"
  "tn_sessions (timer_tick n t) = tn_sessions t" "tn_current (timer_tick n t) = tn_current t"
  "tn_rate_limiter (timer_tick n t) = tn_rate_limiter t" "tn_platform (timer_tick n t) = tn_platform t"
  "session_timers (tn_timers (timer_tick n t)) = session_timers (tn_timers t)"
  by (simp_all add: timer_tick_def Let_def split: timer_name.splits)

lemma initiation_in_progress:
  assumes "format_handshake_initiation C n pl h = (h', pl', Inr packet)"
  shows "is_in_progress h'"
proof -
  have "append_mac1_and_mac2 C i m x = (y, q) \<Longrightarrow> hs_state y = hs_state x" for i m x y q
    by (auto simp: append_mac1_and_mac2_def Let_def)
  with assms show ?thesis
    by (fastforce simp: format_handshake_initiation_def is_in_progress_def Let_def split: if_splits prod.splits)
qed

lemma encapsulate_out: "snd (tunn_encapsulate C n p t) \<in> {TDone, TPanic} \<union> range TErr \<union> range TNetwork"
  by (auto simp: tunn_encapsulate_def tunn_initiation_def Let_def split: option.splits prod.splits sum.splits)

lemma encapsulate_rank:
  assumes "tunn_encapsulate C n p t = (t', TNetwork b)"
  shows "drain_rank t' < drain_rank (t\<lparr>packet_queue := p # packet_queue t\<rparr>)"
proof (cases "tn_sessions t ! (tn_current t mod N_SESSIONS)")
  case None
  with assms have "tunn_initiation C n False (queue_packet p t) = (t', TNetwork b)" by (simp add: tunn_encapsulate_def Let_def)
  then have "\<not> is_in_progress (tn_handshake t)" "is_in_progress (tn_handshake t')" "packet_queue t' = packet_queue (queue_packet p t)"
    using initiation_in_progress
    by (auto simp: tunn_initiation_def queue_packet_def Let_def split: if_splits prod.splits sum.splits)
  then show ?thesis by (simp add: drain_rank_def queue_packet_def is_in_progress_def)
next
  case (Some s)
  with assms show ?thesis
    by (auto simp: tunn_encapsulate_def drain_rank_def is_in_progress_def Let_def split: option.splits prod.splits if_splits)
qed

lemma boring_contract: "tunn_contract drain_rank (boring_ops C)"
proof -
  have "drain_rank t' < drain_rank t" if d: "decapsulate (boring_ops C) [] t = (t', r)" and r: "outcome_of r \<noteq> Done" for t t' r
  proof -
    from d obtain out where out: "send_queued_packet C SCRATCH t = (t', out)" "r = tunn_result_of out"
      by (cases "send_queued_packet C SCRATCH t") (simp add: boring_ops_def tunn_decapsulate_def)
    then obtain p ps where q: "packet_queue t = p # ps" using r by (cases "packet_queue t") (auto simp: send_queued_packet_def)
    obtain t1 o1 where e: "tunn_encapsulate C SCRATCH p (t\<lparr>packet_queue := ps\<rparr>) = (t1, o1)"
      by (cases "tunn_encapsulate C SCRATCH p (t\<lparr>packet_queue := ps\<rparr>)")
    then obtain b where "o1 = TNetwork b" "t' = t1"
      using out r q encapsulate_out [of C SCRATCH p "t\<lparr>packet_queue := ps\<rparr>"] by (auto simp: send_queued_packet_def)
    with encapsulate_rank [of C SCRATCH p "t\<lparr>packet_queue := ps\<rparr>" t1 b] e q show ?thesis
      by (simp add: drain_rank_def)
  qed
  moreover have "outcome_of (snd (encapsulate (boring_ops C) p t)) \<noteq> TunnelV4 b \<and>
      outcome_of (snd (encapsulate (boring_ops C) p t)) \<noteq> TunnelV6" for p t b
    using encapsulate_out [of C SCRATCH p t] by (auto simp: boring_ops_def)
  ultimately show ?thesis by (auto simp: tunn_contract_def)
qed

section \<open>Two tunnels\<close>

text \<open>
  \<open>linked c a b\<close>: the current session of \<open>a\<close> is the mirror of one that \<open>b\<close> holds, and both are
  at counter \<open>c\<close>.
\<close>

definition linked :: "u64 \<Rightarrow> tunn_state \<Rightarrow> tunn_state \<Rightarrow> bool" where
  "linked c a b \<longleftrightarrow> length (tn_sessions a) = 8 \<and> length (tn_sessions b) = 8 \<and>
     (\<exists>s r. tn_sessions a ! (tn_current a mod 8) = Some s \<and> tn_sessions b ! (unat (receiving_index r) mod 8) = Some r \<and>
        mirror s r \<and> sending_key_counter s = c \<and> rk_next (receiving_key_counter r) = c)"

lemma u32_to_le_bytes_not_Nil [simp]: "u32_to_le_bytes w \<noteq> []"
  using length_be_bytes(3) [of w] by force

lemma in_order_mark:
  assumes "unat c + 1024 < 2 ^ 64" and "rk_next r = c"
  shows "will_accept c r = Inr ()" and "\<exists>r'. mark_did_receive c r = (r', Inr ()) \<and> rk_next r' = c + 1"
proof -
  have "\<not> c + N_BITS < c" using unat_add_bits [OF assms(1)] by (simp add: word_less_nat_alt)
  with assms(2) show "will_accept c r = Inr ()" "\<exists>r'. mark_did_receive c r = (r', Inr ()) \<and> rk_next r' = c + 1"
    by (simp_all add: will_accept_def mark_did_receive_def)
qed

lemma set_current_frame [simp]:
  "tn_sessions (set_current_session i t) = tn_sessions t" "tn_timers (set_current_session i t) = tn_timers t"
  "tn_handshake (set_current_session i t) = tn_handshake t" "tn_rate_limiter (set_current_session i t) = tn_rate_limiter t"
  by (simp_all add: set_current_session_def Let_def)

lemma validate_frame [simp]:
  "tn_sessions (fst (validate_decapsulated_packet p t)) = tn_sessions t"
  by (simp add: validate_decapsulated_packet_def Let_def)

lemma linked_step:
  assumes "linked c a b" and C: "crypto_ok C" and c: "unat c + 1024 < 2 ^ 64" and len: "length src + 32 \<le> n" "length src + 16 \<le> m"
  obtains a' pk b' b1 out where "tunn_encapsulate C n src a = (a', TNetwork pk)" "tunn_decapsulate C m None pk b = (b', out)"
    "(b', out) = validate_decapsulated_packet src b1" "linked (c + 1) a' b'" "length pk = length src + 32"
proof -
  from assms(1) obtain s r where l: "length (tn_sessions a) = 8" "length (tn_sessions b) = 8"
    and s: "tn_sessions a ! (tn_current a mod 8) = Some s" and r: "tn_sessions b ! (unat (receiving_index r) mod 8) = Some r"
    and mir: "mirror s r" and cs: "sending_key_counter s = c" "rk_next (receiving_key_counter r) = c" by (auto simp: linked_def)
  let ?s = "s\<lparr>sending_key_counter := c + 1\<rparr>"
  let ?d = "aead_seal C (s_sender s) (counter_nonce c) [] src"
  let ?pk = "u32_to_le_bytes 4 @ u32_to_le_bytes (sending_index s) @ u64_to_le_bytes c @ ?d"
  have fmt: "format_packet_data C n src s = Some (?s, ?pk)" using len cs by (simp add: format_packet_data_def DATA_OVERHEAD_SZ_def)
  obtain rk where mark: "mark_did_receive c (receiving_key_counter r) = (rk, Inr ())" "rk_next rk = c + 1"
    using in_order_mark(2) [OF c cs(2)] by blast
  obtain p where p: "parse_incoming_packet ?pk = Inr (PData p)" "pd_receiver_idx p = receiving_index r"
    "receive_packet_data C m p r = (r\<lparr>receiving_key_counter := rk\<lparr>rk_receive_cnt := rk_receive_cnt rk + 1\<rparr>\<rparr>, Inr src)"
    using data_received [OF fmt C mir _ _ len(2)] in_order_mark(1) [OF c cs(2)] mark(1) cs(1) by metis
  let ?r = "r\<lparr>receiving_key_counter := rk\<lparr>rk_receive_cnt := rk_receive_cnt rk + 1\<rparr>\<rparr>"
  let ?j = "unat (receiving_index r) mod 8"
  let ?b1 = "timer_tick TimeLastPacketReceived (set_current_session (unat (receiving_index r))
     (b\<lparr>tn_sessions := (tn_sessions b)[?j := Some ?r]\<rparr>))"
  obtain a' where enc: "tunn_encapsulate C n src a = (a', TNetwork ?pk)" and a': "tn_sessions a' = (tn_sessions a)[tn_current a mod 8 := Some ?s]"
      "tn_current a' = tn_current a"
    using s fmt by (simp add: tunn_encapsulate_def N_SESSIONS_def Let_def)
  have ver: "verify_packet C None ?pk (tn_platform b) (tn_rate_limiter b) = (tn_rate_limiter b, tn_platform b, Inr (PData p))"
    using p(1) by (simp add: verify_packet_def sender_idx_of_def)
  have dec: "tunn_decapsulate C m None ?pk b = validate_decapsulated_packet src ?b1"
    using ver p(2,3) r by (simp add: tunn_decapsulate_def handle_verified_packet_def handle_data_def N_SESSIONS_def Let_def)
  obtain b' out where b': "validate_decapsulated_packet src ?b1 = (b', out)" by (cases "validate_decapsulated_packet src ?b1")
  then have sb: "tn_sessions b' = (tn_sessions b)[?j := Some ?r]" using validate_frame [of src ?b1] by simp
  have "linked (c + 1) a' b'"
    unfolding linked_def using a' sb l mir mark(2) by (auto intro!: exI [of _ ?s] exI [of _ ?r] simp: mirror_def)
  moreover have "length ?pk = length src + 32"
    using crypto_okD(3) [OF C, of "s_sender s" "counter_nonce c" "[]" src] by simp
  ultimately show thesis using that [OF enc] dec b' by metis
qed


text \<open>A packet that a tunnel hands on: IPv4, with its length in its header.\<close>

definition sound_ipv4 :: "bytes \<Rightarrow> bool" where
  "sound_ipv4 p \<longleftrightarrow> 20 \<le> length p \<and> length p \<le> 2016 \<and> drop_bit 4 (p ! 0) = 4 \<and> be16_at 2 p = length p"

definition ipv4_src :: "bytes \<Rightarrow> ipv4" where
  "ipv4_src p = u32_from_be_bytes (p ! 12) (p ! 13) (p ! 14) (p ! 15)"

lemma validate_sound: "sound_ipv4 p \<Longrightarrow> snd (validate_decapsulated_packet p t) = TTunnelV4 p (ipv4_src p)"
  by (auto simp: sound_ipv4_def validate_decapsulated_packet_def ipv4_src_def Let_def)

lemma validate_empty [simp]: "validate_decapsulated_packet [] t = (t, TDone)"
  by (simp add: validate_decapsulated_packet_def)

text \<open>Packets put into one tunnel, each datagram given to the other.\<close>

fun carry :: "crypto \<Rightarrow> bytes list \<Rightarrow> tunn_state \<Rightarrow> tunn_state \<Rightarrow> tunn_out list" where
  "carry C [] a b = []"
| "carry C (p # ps) a b =
     (case tunn_encapsulate C SCRATCH p a of
        (a, TNetwork d) \<Rightarrow> (case tunn_decapsulate C SCRATCH None d b of (b, out) \<Rightarrow> out # carry C ps a b)
      | (a, _) \<Rightarrow> TDone # carry C ps a b)"

lemma carry_linked:
  assumes "linked c a b" and "crypto_ok C" and "list_all sound_ipv4 ps" and "unat c + length ps + 1024 < 2 ^ 64"
  shows "carry C ps a b = map (\<lambda>p. TTunnelV4 p (ipv4_src p)) ps"
  using assms(1,3,4)
proof (induction ps arbitrary: a b c)
  case (Cons p ps)
  then have c: "unat c + 1024 < 2 ^ 64" and p: "sound_ipv4 p" "length p + 32 \<le> SCRATCH" "length p + 16 \<le> SCRATCH"
    by (auto simp: sound_ipv4_def SCRATCH_def)
  obtain a' pk b' b1 out where st: "tunn_encapsulate C SCRATCH p a = (a', TNetwork pk)" "tunn_decapsulate C SCRATCH None pk b = (b', out)"
    "(b', out) = validate_decapsulated_packet p b1" "linked (c + 1) a' b'"
    by (rule linked_step [OF Cons.prems(1) assms(2) c p(2,3)])
  have "out = TTunnelV4 p (ipv4_src p)" using st(3) validate_sound [OF p(1), of b1] by (metis snd_conv)
  moreover have "unat (c + 1) + length ps + 1024 < 2 ^ 64" using Cons.prems(3) unat_add_one [OF c] by simp
  ultimately show ?case using Cons.IH [OF st(4)] Cons.prems(2) st(1,2) by simp
qed simp

section \<open>From new tunnels to a session\<close>

definition fresh_tunn :: "crypto \<Rightarrow> tunn_state \<Rightarrow> bool" where
  "fresh_tunn C t \<longleftrightarrow> tn_sessions t = replicate 8 None \<and> session_timers (tn_timers t) = replicate 8 0 \<and>
     hs_state (tn_handshake t) = HsNone \<and> rl_count (tn_rate_limiter t) = 0 \<and> rl_limit (tn_rate_limiter t) = 10 \<and>
     last_handshake_timestamp (tn_handshake t) = tai64n_zero \<and>
     mac1_key (tn_rate_limiter t) = b2s_hash C LABEL_MAC1 (static_public (hs_params (tn_handshake t)))"

lemma tunn_make_fresh: "fresh_tunn C (tunn_make C u pl priv peer psk ka idx)"
  by (simp add: fresh_tunn_def tunn_make_def rate_limiter_new_def timers_new_def instant_now_def random_secret_def
      handshake_new_def noise_params_new_def N_SESSIONS_def PEER_HANDSHAKE_RATE_LIMIT_def Let_def)

lemma tunn_make_params:
  "hs_params (tn_handshake (tunn_make C u pl priv peer psk ka idx)) = noise_params_new C priv (public_key C priv) peer psk"
  by (simp add: tunn_make_def rate_limiter_new_def timers_new_def instant_now_def random_secret_def handshake_new_def Let_def)

lemma make_paired:
  "paired C (noise_params_new C x (public_key C x) (public_key C y) psk) (noise_params_new C y (public_key C y) (public_key C x) psk)"
  by (simp add: paired_def keys_ok_def noise_params_new_def)

lemma set_current_new:
  assumes "session_timers (tn_timers t) = (replicate 8 0)[i mod 8 := x]"
  shows "tn_current (set_current_session i t) = i"
proof -
  have "session_timers (tn_timers t) ! (tn_current t mod 8) \<le> session_timers (tn_timers t) ! (i mod 8)"
    unfolding assms by (simp add: nth_list_update)
  then show ?thesis by (simp add: set_current_session_def N_SESSIONS_def Let_def)
qed

lemma session_established_frame [simp]:
  "tn_sessions (timer_tick_session_established i k t) = tn_sessions t"
  "tn_handshake (timer_tick_session_established i k t) = tn_handshake t"
  "tn_rate_limiter (timer_tick_session_established i k t) = tn_rate_limiter t"
  "session_timers (tn_timers (timer_tick_session_established i k t)) =
     (session_timers (tn_timers t))[k mod 8 := tm (tn_timers (timer_tick TimeSessionEstablished t)) TimeCurrent]"
  by (simp_all add: timer_tick_session_established_def N_SESSIONS_def Let_def)

lemma queue_packet_frame [simp]:
  "tn_sessions (queue_packet p t) = tn_sessions t" "tn_timers (queue_packet p t) = tn_timers t"
  "tn_handshake (queue_packet p t) = tn_handshake t" "tn_rate_limiter (queue_packet p t) = tn_rate_limiter t"
  "tn_platform (queue_packet p t) = tn_platform t"
  by (simp_all add: queue_packet_def)

text \<open>A handshake message with the right first tag passes the limiter of a tunnel that is not under load.\<close>

lemma verify_handshake:
  assumes "parse_incoming_packet d = Inr p" and "sender_idx_of p = Some idx"
    and "d = msg @ b2s_keyed_mac_16 C (mac1_key rl) msg @ m2" and "length m2 = 16" and "rl_count rl < rl_limit rl" and C: "crypto_ok C"
  shows "verify_packet C None d pl rl = (rl\<lparr>rl_count := rl_count rl + 1\<rparr>, pl, Inr p)"
proof -
  have len: "length (b2s_keyed_mac_16 C (mac1_key rl) msg) = 16" using crypto_okD(5) [OF C] by (simp add: b2s_keyed_mac_16_def)
  then have split: "take (length d - 32) d = msg" "take 16 (drop (length d - 32) d) = b2s_keyed_mac_16 C (mac1_key rl) msg"
    using assms(3,4) by simp_all
  moreover have "is_under_load rl = (False, rl\<lparr>rl_count := rl_count rl + 1\<rparr>)"
    using assms(5) by (simp add: is_under_load_def not_le)
  ultimately show ?thesis by (simp add: verify_packet_def assms(1,2) Let_def)
qed

lemma initiation_step:
  assumes "fresh_tunn C a" and "crypto_ok C"
  obtains a1 pl1 init where "tunn_encapsulate C SCRATCH [] a = (a1, TNetwork init)"
    "format_handshake_initiation C SCRATCH (tn_platform a) (tn_handshake a) = (tn_handshake a1, pl1, Inr init)"
    "tn_sessions a1 = tn_sessions a" "session_timers (tn_timers a1) = session_timers (tn_timers a)" "tn_rate_limiter a1 = tn_rate_limiter a"
proof -
  obtain h pl r where f: "format_handshake_initiation C SCRATCH (tn_platform a) (tn_handshake a) = (h, pl, r)" by (metis prod_cases3)
  then obtain init where r: "r = Inr init"
    by (auto simp: format_handshake_initiation_def SCRATCH_def HANDSHAKE_INIT_SZ_def Let_def split: prod.splits)
  have st: "tn_sessions a ! (tn_current a mod N_SESSIONS) = None" "hs_state (tn_handshake a) = HsNone"
    using assms(1) by (simp_all add: fresh_tunn_def N_SESSIONS_def)
  let ?q = "queue_packet [] a"
  let ?a1 = "timer_tick TimeLastPacketSent (timer_tick TimeLastHandshakeStarted (?q\<lparr>tn_handshake := h, tn_platform := pl\<rparr>))"
  have "tunn_initiation C SCRATCH False ?q = (?a1, TNetwork init)"
    using st(2) f r by (simp add: tunn_initiation_def is_in_progress_def is_expired_def Let_def)
  then have "tunn_encapsulate C SCRATCH [] a = (?a1, TNetwork init)" using st(1) by (simp add: tunn_encapsulate_def Let_def)
  with f r that [of ?a1] show thesis by simp
qed


lemma responder_step:
  assumes "parse_incoming_packet d = Inr (PHandshakeInit p)" and "verify_packet C None d (tn_platform b) (tn_rate_limiter b) = (rl, tn_platform b, Inr (PHandshakeInit p))"
    and "receive_handshake_initialization C SCRATCH p (tn_platform b) (tn_handshake b) = (g, pl, Inr (resp, sr))"
  shows "\<exists>b1. tunn_decapsulate C SCRATCH None d b = (b1, TNetwork resp) \<and>
    tn_sessions b1 = (tn_sessions b)[unat (receiving_index sr) mod 8 := Some sr]"
proof -
  have "d \<noteq> []" using assms(1) by (auto simp: parse_incoming_packet_def)
  with assms(2,3) show ?thesis
    by (simp add: tunn_decapsulate_def handle_verified_packet_def handle_handshake_init_def N_SESSIONS_def Let_def)
qed

lemma initiator_step:
  assumes "parse_incoming_packet d = Inr (PHandshakeResponse q)"
    and "verify_packet C None d (tn_platform a) (tn_rate_limiter a) = (rl, tn_platform a, Inr (PHandshakeResponse q))"
    and "receive_handshake_response C q (tn_platform a) (tn_handshake a) = (h, pl, Inr si)"
    and "format_packet_data C SCRATCH [] si = Some (si', ka)" and "session_timers (tn_timers a) = replicate 8 0"
  shows "\<exists>a2. tunn_decapsulate C SCRATCH None d a = (a2, TNetwork ka) \<and>
    tn_sessions a2 = (tn_sessions a)[unat (receiving_index si') mod 8 := Some si'] \<and> tn_current a2 = unat (receiving_index si')"
proof -
  have "d \<noteq> []" using assms(1) by (auto simp: parse_incoming_packet_def)
  let ?i = "unat (receiving_index si')"
  let ?t = "timer_tick_session_established True (?i mod 8) (timer_tick TimeLastPacketReceived
     (a\<lparr>tn_rate_limiter := rl, tn_platform := tn_platform a, tn_handshake := h, tn_platform := pl, tn_sessions := (tn_sessions a)[?i mod 8 := Some si']\<rparr>))"
  have "session_timers (tn_timers ?t) = (replicate 8 0)[?i mod 8 := tm (tn_timers (timer_tick TimeSessionEstablished (timer_tick TimeLastPacketReceived
     (a\<lparr>tn_rate_limiter := rl, tn_platform := tn_platform a, tn_handshake := h, tn_platform := pl, tn_sessions := (tn_sessions a)[?i mod 8 := Some si']\<rparr>)))) TimeCurrent]"
    using assms(5) by simp
  note cur = set_current_new [OF this]
  have "tunn_decapsulate C SCRATCH None d a = (set_current_session ?i ?t, TNetwork ka)"
    using \<open>d \<noteq> []\<close> assms(2-4)
    by (simp add: tunn_decapsulate_def handle_verified_packet_def handle_handshake_response_def N_SESSIONS_def Let_def)
  with cur show ?thesis by simp
qed

lemma linked_cong: "linked c a b \<Longrightarrow> tn_sessions a' = tn_sessions a \<Longrightarrow> tn_current a' = tn_current a \<Longrightarrow> linked c a' b"
  by (simp add: linked_def)

text \<open>
  The three messages between two new tunnels: an initiation, its response, and the keepalive
  that confirms it.
\<close>

lemma fresh_handshake:
  assumes C: "crypto_ok C" and a: "fresh_tunn C a" and b: "fresh_tunn C b"
    and pair: "paired C (hs_params (tn_handshake a)) (hs_params (tn_handshake b))"
    and time: "tai_secs (stamped (stamper (tn_handshake a)) (tn_platform a)) \<noteq> 0"
  obtains a1 init b1 resp a2 ka b2 where "tunn_encapsulate C SCRATCH [] a = (a1, TNetwork init)"
    "tunn_decapsulate C SCRATCH None init b = (b1, TNetwork resp)"
    "tunn_decapsulate C SCRATCH None resp a1 = (a2, TNetwork ka)"
    "tunn_decapsulate C SCRATCH None ka b1 = (b2, TDone)" "linked 1 a2 b2"
proof -
  let ?h = "tn_handshake a" and ?g = "tn_handshake b"
  obtain a1 pl1 init where 1: "tunn_encapsulate C SCRATCH [] a = (a1, TNetwork init)"
    "format_handshake_initiation C SCRATCH (tn_platform a) ?h = (tn_handshake a1, pl1, Inr init)"
    "tn_sessions a1 = tn_sessions a" "session_timers (tn_timers a1) = session_timers (tn_timers a)" "tn_rate_limiter a1 = tn_rate_limiter a"
    by (rule initiation_step [OF a C])
  have new: "tai64n_after (stamped (stamper ?h) (tn_platform a)) (last_handshake_timestamp ?g)"
    using b time by (simp add: fresh_tunn_def tai64n_after_def tai64n_zero_def word_neq_0_conv)
  obtain st p msg m2 where i: "hs_state (tn_handshake a1) = InitSent st" "hs_params (tn_handshake a1) = hs_params ?h"
    "init = msg @ b2s_keyed_mac_16 C (b2s_hash C LABEL_MAC1 (static_public (hs_params ?g))) msg @ m2" "length m2 = 16"
    "parse_incoming_packet init = Inr (PHandshakeInit p)"
    "\<And>m qpl. receive_handshake_initialization C m p qpl ?g = format_handshake_response C m qpl
       (?g\<lparr>last_handshake_timestamp := stamped (stamper ?h) (tn_platform a), previous := hs_state ?g,
          hs_state := InitReceived (is_hash st) (is_chaining_key st) (public_key C (is_ephemeral_private st)) (is_local_index st)\<rparr>)"
    using init_accepted [OF 1(2) C pair new] by metis
  let ?gr = "?g\<lparr>last_handshake_timestamp := stamped (stamper ?h) (tn_platform a), previous := hs_state ?g,
      hs_state := InitReceived (is_hash st) (is_chaining_key st) (public_key C (is_ephemeral_private st)) (is_local_index st)\<rparr>"
  let ?rlb = "(tn_rate_limiter b)\<lparr>rl_count := rl_count (tn_rate_limiter b) + 1\<rparr>"
  obtain g1 plg r where f: "format_handshake_response C SCRATCH (tn_platform b) ?gr = (g1, plg, r)" by (metis prod_cases3)
  have pair': "paired C (hs_params (tn_handshake a1)) (hs_params ?gr)" using pair i(2) by simp
  have g0: "hs_state ?gr = InitReceived (is_hash st) (is_chaining_key st) (public_key C (is_ephemeral_private st)) (is_local_index st)" by simp
  have big: "92 \<le> SCRATCH" by (simp add: SCRATCH_def)
  obtain resp sr q msg' m2' si where j: "r = Inr (resp, sr)"
    "sr = wg_session_new (receiving_index sr) (is_local_index st) (s_receiver sr) (s_sender sr)"
    "resp = msg' @ b2s_keyed_mac_16 C (b2s_hash C LABEL_MAC1 (static_public (hs_params (tn_handshake a1)))) msg' @ m2'"
    "length m2' = 16" "parse_incoming_packet resp = Inr (PHandshakeResponse q)"
    "si = wg_session_new (is_local_index st) (receiving_index sr) (s_sender sr) (s_receiver sr)" "mirror si sr"
    "\<And>qpl. \<exists>h' qpl'. receive_handshake_response C q qpl (tn_handshake a1) = (h', qpl', Inr si)"
    using response_accepted [OF f big C pair' i(1) g0] by metis
  let ?i = "unat (is_local_index st)" and ?j = "unat (receiving_index sr)"
  have load: "rl_count (tn_rate_limiter x) < rl_limit (tn_rate_limiter x)" if "fresh_tunn C x" for x
    using that by (simp add: fresh_tunn_def)
  have macs: "mac1_key (tn_rate_limiter b) = b2s_hash C LABEL_MAC1 (static_public (hs_params ?g))"
    "mac1_key (tn_rate_limiter a1) = b2s_hash C LABEL_MAC1 (static_public (hs_params (tn_handshake a1)))"
    using a b 1(5) i(2) by (simp_all add: fresh_tunn_def)
  have "init = msg @ b2s_keyed_mac_16 C (mac1_key (tn_rate_limiter b)) msg @ m2" using i(3) macs(1) by simp
  from verify_handshake [OF i(5) _ this i(4) load [OF b] C, of "hi_sender_idx p" "tn_platform b"]
  have vi: "verify_packet C None init (tn_platform b) (tn_rate_limiter b) = (?rlb, tn_platform b, Inr (PHandshakeInit p))"
    by (simp add: sender_idx_of_def)
  from i(6) [of SCRATCH "tn_platform b"] f j(1)
  have ri: "receive_handshake_initialization C SCRATCH p (tn_platform b) ?g = (g1, plg, Inr (resp, sr))" by simp
  from responder_step [OF i(5) vi ri] obtain b1 where b1: "tunn_decapsulate C SCRATCH None init b = (b1, TNetwork resp)"
    "tn_sessions b1 = (tn_sessions b)[?j mod 8 := Some sr]" by blast
  have "rl_count (tn_rate_limiter a1) < rl_limit (tn_rate_limiter a1)" using load [OF a] 1(5) by simp
  moreover have "resp = msg' @ b2s_keyed_mac_16 C (mac1_key (tn_rate_limiter a1)) msg' @ m2'" using j(3) macs(2) by simp
  ultimately have vr: "verify_packet C None resp (tn_platform a1) (tn_rate_limiter a1) =
      ((tn_rate_limiter a1)\<lparr>rl_count := rl_count (tn_rate_limiter a1) + 1\<rparr>, tn_platform a1, Inr (PHandshakeResponse q))"
    using verify_handshake [OF j(5) _ _ j(4) _ C, of "hr_sender_idx q"] by (simp add: sender_idx_of_def)
  obtain h2 pl2 where rr: "receive_handshake_response C q (tn_platform a1) (tn_handshake a1) = (h2, pl2, Inr si)" using j(8) by blast
  obtain si' ka where ka: "format_packet_data C SCRATCH [] si = Some (si', ka)" "receiving_index si' = is_local_index st"
    using j(6) by (simp add: format_packet_data_def SCRATCH_def DATA_OVERHEAD_SZ_def wg_session_new_def Let_def)
  have "session_timers (tn_timers a1) = replicate 8 0" using a 1(4) by (simp add: fresh_tunn_def)
  from initiator_step [OF j(5) vr rr ka(1) this] ka(2) obtain a2 where a2: "tunn_decapsulate C SCRATCH None resp a1 = (a2, TNetwork ka)"
    "tn_sessions a2 = (tn_sessions a1)[?i mod 8 := Some si']" "tn_current a2 = ?i" by auto
  have len: "length (tn_sessions a1) = 8" "length (tn_sessions b) = 8" using a b 1(3) by (simp_all add: fresh_tunn_def)
  let ?ax = "a2\<lparr>tn_sessions := (tn_sessions a1)[?i mod 8 := Some si]\<rparr>"
  have cnt: "sending_key_counter si = 0" using j(6) by (simp add: wg_session_new_def)
  have "receiving_key_counter sr = replay_default" by (subst j(2)) (simp add: wg_session_new_def)
  then have next0: "rk_next (receiving_key_counter sr) = 0" by (simp add: replay_default_def)
  have "linked 0 ?ax b1"
    unfolding linked_def using len a2(3) b1(2) j(7) cnt next0 by (auto intro!: exI [of _ si] exI [of _ sr])
  then obtain ax' pk b2 bx out where s4: "tunn_encapsulate C SCRATCH [] ?ax = (ax', TNetwork pk)" "tunn_decapsulate C SCRATCH None pk b1 = (b2, out)"
    "(b2, out) = validate_decapsulated_packet [] bx" "linked (0 + 1) ax' b2"
    by (rule linked_step [OF _ C, of 0 _ _ "[]" SCRATCH SCRATCH]) (simp_all add: SCRATCH_def)
  have "tunn_encapsulate C SCRATCH [] ?ax = (timer_tick TimeLastPacketSent (?ax\<lparr>tn_sessions := (tn_sessions a2)\<rparr>), TNetwork ka)"
    using len a2(2,3) ka(1) by (simp add: tunn_encapsulate_def N_SESSIONS_def timer_tick_def Let_def)
  with s4(1) have "pk = ka" "tn_sessions ax' = tn_sessions a2" "tn_current ax' = tn_current a2" by auto
  moreover have "out = TDone" using s4(3) by simp
  ultimately show thesis using that [OF 1(1) b1(1) a2(1)] s4(2,4) linked_cong [of 1 ax' b2 a2] by simp
qed

section \<open>The self-test of the engine\<close>

record self_test_report =
  st_handshake_ok :: bool
  st_keepalive_ok :: bool
  st_data_ok :: bool
  st_data_len :: nat
  st_roundtrip_match :: bool
  st_note :: string

definition self_test_default :: self_test_report where
  "self_test_default = \<lparr>st_handshake_ok = False, st_keepalive_ok = False, st_data_ok = False, st_data_len = 0,
     st_roundtrip_match = False, st_note = []\<rparr>"

fun wg_error_debug :: "wg_error \<Rightarrow> string" where
  "wg_error_debug DestinationBufferTooSmall = ''DestinationBufferTooSmall''"
| "wg_error_debug IncorrectPacketLength = ''IncorrectPacketLength''"
| "wg_error_debug UnexpectedPacket = ''UnexpectedPacket''"
| "wg_error_debug WrongPacketType = ''WrongPacketType''"
| "wg_error_debug WrongIndex = ''WrongIndex''"
| "wg_error_debug WrongKey = ''WrongKey''"
| "wg_error_debug InvalidTai64nTimestamp = ''InvalidTai64nTimestamp''"
| "wg_error_debug WrongTai64nTimestamp = ''WrongTai64nTimestamp''"
| "wg_error_debug InvalidMac = ''InvalidMac''"
| "wg_error_debug InvalidAeadTag = ''InvalidAeadTag''"
| "wg_error_debug InvalidCounter = ''InvalidCounter''"
| "wg_error_debug DuplicateCounter = ''DuplicateCounter''"
| "wg_error_debug InvalidPacket = ''InvalidPacket''"
| "wg_error_debug NoCurrentSession = ''NoCurrentSession''"
| "wg_error_debug LockFailed = ''LockFailed''"
| "wg_error_debug ConnectionExpired = ''ConnectionExpired''"
| "wg_error_debug UnderLoad = ''UnderLoad''"

text \<open>A panic would end the self-test without a report; with its buffers there is none.\<close>

fun tunn_kind :: "tunn_out \<Rightarrow> string" where
  "tunn_kind TDone = ''Done''"
| "tunn_kind (TErr e) = ''Err('' @ wg_error_debug e @ '')''"
| "tunn_kind (TNetwork _) = ''Network''"
| "tunn_kind (TTunnelV4 _ _) = ''TunnelV4''"
| "tunn_kind (TTunnelV6 _ _) = ''TunnelV6''"
| "tunn_kind TPanic = ''Panic''"

definition verdict :: "self_test_report \<Rightarrow> string" where
  "verdict r =
     (if \<not> st_handshake_ok r then ''HANDSHAKE_FAILED''
      else if st_keepalive_ok r \<and> \<not> st_data_ok r then ''AEAD_NONEMPTY_MISCOMPILE''
      else if st_data_ok r \<and> st_roundtrip_match r then ''CRYPTO_OK_NETWORK_SUSPECT''
      else ''INCONCLUSIVE'')"

definition self_test_payload :: bytes where
  "self_test_payload = [0x45, 0] @ u16_to_be_bytes 64 @ map (\<lambda>i. word_of_nat i * 7 + 1) [4..<64]"

definition or_note ::
  "string \<Rightarrow> self_test_report \<Rightarrow> tunn_state \<times> tunn_out \<Rightarrow> (tunn_state \<Rightarrow> bytes \<Rightarrow> self_test_report) \<Rightarrow> self_test_report" where
  "or_note label rep r k =
     (case r of (t, TNetwork p) \<Rightarrow> k t p | (t, other) \<Rightarrow> rep\<lparr>st_note := label @ tunn_kind other\<rparr>)"

text \<open>After the handshake: an empty frame, then one with a payload.\<close>

definition self_test_frames :: "crypto \<Rightarrow> self_test_report \<Rightarrow> tunn_state \<Rightarrow> tunn_state \<Rightarrow> self_test_report" where
  "self_test_frames C rep a b =
     or_note ''ka_encap:'' rep (tunn_encapsulate C 2048 [] a) (\<lambda>a ka_frame.
     (case tunn_decapsulate C 2048 None ka_frame b of
        (b, out) \<Rightarrow>
          (let rep = (if out = TDone then rep\<lparr>st_keepalive_ok := True\<rparr> else rep\<lparr>st_note := ''ka_decap:'' @ tunn_kind out\<rparr>)
           in or_note ''data_encap:'' rep (tunn_encapsulate C 2048 self_test_payload a) (\<lambda>a data_frame.
              let rep = rep\<lparr>st_data_len := length data_frame\<rparr>
              in case tunn_decapsulate C 2048 None data_frame b of
                   (b, TTunnelV4 p _) \<Rightarrow> rep\<lparr>st_data_ok := True, st_roundtrip_match := (p = self_test_payload)\<rparr>
                 | (b, other) \<Rightarrow> rep\<lparr>st_note := ''data_decap:'' @ tunn_kind other\<rparr>))))"

definition data_plane_selftest ::
  "crypto \<Rightarrow> duration \<Rightarrow> platform \<Rightarrow> platform \<Rightarrow> bytes \<Rightarrow> bytes \<Rightarrow> u32 \<Rightarrow> u32 \<Rightarrow> self_test_report" where
  "data_plane_selftest C unix_time pla plb a_secret b_secret ia ib =
     (let a = tunn_make C unix_time pla a_secret (public_key C b_secret) None None ia;
          b = tunn_make C unix_time plb b_secret (public_key C a_secret) None None ib;
          rep = self_test_default
      in or_note ''init_not_network:'' rep (tunn_encapsulate C 2048 [] a) (\<lambda>a ini.
         or_note ''resp_not_network:'' rep (tunn_decapsulate C 2048 None ini b) (\<lambda>b resp.
         or_note ''keepalive_not_network:'' rep (tunn_decapsulate C 2048 None resp a) (\<lambda>a keepalive.
         (case tunn_decapsulate C 2048 None keepalive b of
            (b, TDone) \<Rightarrow> self_test_frames C (rep\<lparr>st_handshake_ok := True\<rparr>) a b
          | (b, other) \<Rightarrow> rep\<lparr>st_note := ''hs_keepalive:'' @ tunn_kind other\<rparr>)))))"

lemma payload_sound: "sound_ipv4 self_test_payload"
proof -
  have "length self_test_payload = 64" by (simp add: self_test_payload_def)
  moreover have "self_test_payload ! 0 = 0x45" "self_test_payload ! 2 = 0" "self_test_payload ! 3 = 64"
    by (simp_all add: self_test_payload_def u16_to_be_bytes_def)
  ultimately show ?thesis by (simp add: sound_ipv4_def be16_at_def u16_from_be_bytes_def)
qed

lemma frames_pass:
  assumes "linked 1 a b" and C: "crypto_ok C"
  shows "self_test_frames C rep a b = rep\<lparr>st_keepalive_ok := True, st_data_len := 96, st_data_ok := True, st_roundtrip_match := True\<rparr>"
proof -
  obtain a1 pk b1 bx out where 1: "tunn_encapsulate C 2048 [] a = (a1, TNetwork pk)" "tunn_decapsulate C 2048 None pk b = (b1, out)"
    "(b1, out) = validate_decapsulated_packet [] bx" "linked (1 + 1) a1 b1"
    by (rule linked_step [OF assms, of "[]" 2048 2048]) simp_all
  have len: "length self_test_payload = 64" by (simp add: self_test_payload_def)
  obtain a2 pk2 b2 by' out2 where 2: "tunn_encapsulate C 2048 self_test_payload a1 = (a2, TNetwork pk2)"
    "tunn_decapsulate C 2048 None pk2 b1 = (b2, out2)" "(b2, out2) = validate_decapsulated_packet self_test_payload by'"
    "length pk2 = length self_test_payload + 32"
    by (rule linked_step [OF 1(4) C, of self_test_payload 2048 2048]) (simp_all add: len)
  have "out2 = TTunnelV4 self_test_payload (ipv4_src self_test_payload)" using 2(3) validate_sound [OF payload_sound, of by'] by (metis snd_conv)
  moreover have "out = TDone" using 1(3) by simp
  ultimately show ?thesis using 1(1,2) 2(1,2,4) len by (simp add: self_test_frames_def or_note_def Let_def)
qed

lemma tai_secs_positive:
  assumes "n < 2 ^ 62"
  shows "word_of_nat n + TAI64_BASE \<noteq> 0"
proof -
  have "unat (word_of_nat n + TAI64_BASE) = n + (2 ^ 62 + 37)"
    using assms by (simp add: unat_word_ariths unat_of_nat TAI64_BASE_def)
  then show ?thesis by (metis add_is_0 unat_0 zero_neq_numeral)
qed

lemma stamped_positive:
  fixes C x peer psk ka i
  assumes "\<forall>k. u + clock pl k < secs (2 ^ 62)"
  defines "t \<equiv> tunn_make C u pl x peer psk ka i"
  shows "tai_secs (stamped (stamper (tn_handshake t)) (tn_platform t)) \<noteq> 0"
proof -
  have st: "duration_at_start (stamper (tn_handshake t)) = u" "clock (tn_platform t) = clock pl"
    by (simp_all add: t_def tunn_make_def rate_limiter_new_def timers_new_def instant_now_def random_secret_def handshake_new_def Let_def)
  have "duration_since (clock pl k) s + u < secs (2 ^ 62)" for k s
    using spec [OF assms(1), of k] by (simp add: duration_since_def)
  then have "(duration_since (clock pl k) s + u) div 1000000000 < 2 ^ 62" for k s
    by (simp add: div_less_iff_less_mult)
  from tai_secs_positive [OF this] show ?thesis by (simp add: stamped_def st Let_def)
qed

lemma new_tunnels_shake:
  assumes "crypto_ok C" and "\<forall>k. u + clock pla k < secs (2 ^ 62)"
  obtains a1 ini b1 resp a2 ka b2
  where "tunn_encapsulate C SCRATCH [] (tunn_make C u pla x (public_key C y) psk ka1 ia) = (a1, TNetwork ini)"
    "tunn_decapsulate C SCRATCH None ini (tunn_make C v plb y (public_key C x) psk ka2 ib) = (b1, TNetwork resp)"
    "tunn_decapsulate C SCRATCH None resp a1 = (a2, TNetwork ka)"
    "tunn_decapsulate C SCRATCH None ka b1 = (b2, TDone)" "linked 1 a2 b2"
proof -
  have pair: "paired C (hs_params (tn_handshake (tunn_make C u pla x (public_key C y) psk ka1 ia)))
      (hs_params (tn_handshake (tunn_make C v plb y (public_key C x) psk ka2 ib)))"
    unfolding tunn_make_params by (rule make_paired)
  show thesis
    by (rule fresh_handshake [OF assms(1) tunn_make_fresh tunn_make_fresh pair stamped_positive [OF assms(2)]]) (rule that)
qed

text \<open>
  C7: Two new tunnels with each other's keys get through. Their handshake takes an initiation,
  a response and a keepalive, whatever the random keys and the clocks; after it, every
  sequence of sound IPv4 packets put into the first comes out of the second, in order and
  unchanged. It rests on the documented behaviour of the cryptographic packages.
\<close>

theorem tunnel_delivers:
  assumes "crypto_ok C" and "\<forall>k. u + clock pla k < secs (2 ^ 62)" and "list_all sound_ipv4 ps" and "length ps + 1025 < 2 ^ 64"
  shows "\<exists>a1 ini b1 resp a2 ka b2.
    tunn_encapsulate C SCRATCH [] (tunn_make C u pla x (public_key C y) psk ka1 ia) = (a1, TNetwork ini) \<and>
    tunn_decapsulate C SCRATCH None ini (tunn_make C v plb y (public_key C x) psk ka2 ib) = (b1, TNetwork resp) \<and>
    tunn_decapsulate C SCRATCH None resp a1 = (a2, TNetwork ka) \<and> tunn_decapsulate C SCRATCH None ka b1 = (b2, TDone) \<and>
    carry C ps a2 b2 = map (\<lambda>p. TTunnelV4 p (ipv4_src p)) ps"
proof -
  obtain a1 ini b1 resp a2 ka b2
    where s: "tunn_encapsulate C SCRATCH [] (tunn_make C u pla x (public_key C y) psk ka1 ia) = (a1, TNetwork ini)"
      "tunn_decapsulate C SCRATCH None ini (tunn_make C v plb y (public_key C x) psk ka2 ib) = (b1, TNetwork resp)"
      "tunn_decapsulate C SCRATCH None resp a1 = (a2, TNetwork ka)"
      "tunn_decapsulate C SCRATCH None ka b1 = (b2, TDone)" "linked 1 a2 b2"
    by (rule new_tunnels_shake [OF assms(1,2)])
  from carry_linked [OF s(5) assms(1,3)] assms(4) s(1-4) show ?thesis by auto
qed

text \<open>A stand-in for the cryptographic packages, with key agreement by exclusive or.\<close>

definition pad32 :: "bytes \<Rightarrow> bytes" where
  "pad32 bs = take 32 (bs @ replicate 32 0)"

definition xor_crypto :: crypto where
  "xor_crypto =
     \<lparr>blake2s = pad32, hmac_blake2s = (\<lambda>k d. pad32 d), keyed_mac_16 = (\<lambda>k d. take 16 (pad32 d)), keyed_mac_24 = (\<lambda>k d. take 24 (pad32 d)),
      diffie_hellman = (\<lambda>a p. map2 (XOR) (pad32 a) p), public_key = pad32,
      aead_seal = (\<lambda>k n ad p. p @ replicate 16 0),
      aead_open = (\<lambda>k n ad c. if 16 \<le> length c \<and> drop (length c - 16) c = replicate 16 0 then Some (take (length c - 16) c) else None),
      xaead_seal = (\<lambda>k n ad p. p @ replicate 16 0), xaead_open = (\<lambda>k n ad c. Some (take (length c - 16) c))\<rparr>"

lemma length_pad32 [simp]: "length (pad32 bs) = 32"
  by (simp add: pad32_def)

lemma xor_crypto_ok: "crypto_ok xor_crypto"
proof -
  have "map2 (XOR) xs ys = map2 (XOR) ys (xs :: bytes)" for xs ys
    by (rule nth_equalityI) (auto simp: xor.commute)
  then show ?thesis by (simp add: crypto_ok_def xor_crypto_def)
qed

definition still_platform :: platform where
  "still_platform = \<lparr>clock = (\<lambda>_. 7), clock_reads = 0, rng = (\<lambda>k. [word_of_nat k]), rng_reads = 0\<rparr>"

theorem tunnel_delivers_witness:
  "\<exists>a1 ini b1 resp a2 ka b2.
    tunn_encapsulate xor_crypto SCRATCH [] (tunn_make xor_crypto 1 still_platform [3] (public_key xor_crypto [4]) None None 1) = (a1, TNetwork ini) \<and>
    tunn_decapsulate xor_crypto SCRATCH None ini (tunn_make xor_crypto 1 still_platform [4] (public_key xor_crypto [3]) None None 2) =
      (b1, TNetwork resp) \<and>
    tunn_decapsulate xor_crypto SCRATCH None resp a1 = (a2, TNetwork ka) \<and>
    tunn_decapsulate xor_crypto SCRATCH None ka b1 = (b2, TDone) \<and>
    carry xor_crypto [self_test_payload] a2 b2 = [TTunnelV4 self_test_payload (ipv4_src self_test_payload)]"
proof -
  have "\<forall>k. 1 + clock still_platform k < secs (2 ^ 62)" by (simp add: still_platform_def)
  from tunnel_delivers [OF xor_crypto_ok this, of "[self_test_payload]"] payload_sound show ?thesis by simp
qed

text \<open>
  C9: The self-test the engine runs at start-up passes when cryptography works: the report has
  every stage in order, a data frame of 96 bytes, and no note. So a verdict of
  \<open>AEAD_NONEMPTY_MISCOMPILE\<close> does blame the cryptographic packages.
\<close>

theorem selftest_passes:
  assumes "crypto_ok C" and "\<forall>k. u + clock pla k < secs (2 ^ 62)"
  shows "data_plane_selftest C u pla plb x y ia ib =
    \<lparr>st_handshake_ok = True, st_keepalive_ok = True, st_data_ok = True, st_data_len = 96, st_roundtrip_match = True, st_note = []\<rparr>"
proof -
  obtain a1 ini b1 resp a2 ka b2
    where s: "tunn_encapsulate C SCRATCH [] (tunn_make C u pla x (public_key C y) None None ia) = (a1, TNetwork ini)"
      "tunn_decapsulate C SCRATCH None ini (tunn_make C u plb y (public_key C x) None None ib) = (b1, TNetwork resp)"
      "tunn_decapsulate C SCRATCH None resp a1 = (a2, TNetwork ka)"
      "tunn_decapsulate C SCRATCH None ka b1 = (b2, TDone)" "linked 1 a2 b2"
    by (rule new_tunnels_shake [OF assms])
  from frames_pass [OF s(5) assms(1)] s(1-4) show ?thesis
    by (simp add: data_plane_selftest_def or_note_def SCRATCH_def self_test_default_def Let_def)
qed

theorem selftest_passes_witness:
  "verdict (data_plane_selftest xor_crypto 1 still_platform still_platform [3] [4] 1 2) = ''CRYPTO_OK_NETWORK_SUSPECT''"
proof -
  have "\<forall>k. 1 + clock still_platform k < secs (2 ^ 62)" by (simp add: still_platform_def)
  from selftest_passes [OF xor_crypto_ok this] show ?thesis by (simp add: verdict_def)
qed

text \<open>
  C6: The pump never gets stuck on its tunnels. With the vendored tunnels, and whatever their
  cryptography returns, every run of passes over any received datagrams and queued packets
  comes back, and leaves the peer tables in order: a drain of a tunnel's queue ends.
\<close>

theorem pump_run_total:
  assumes "ix_ok (ps_ix s)"
  shows "\<exists>lt s'. pump_run (boring_ops C) hint evs (last_tick, s) = Some (lt, s') \<and> ix_ok (ps_ix s')"
  by (rule pump_run_comes_back [OF boring_contract assms])

definition boring_peer :: "tunn_state pump" where
  "boring_peer =
     \<lparr>ps_ix = indices (engine_new (tunn_make xor_crypto 1 still_platform [3]) [sample_cfg 1 [any_route]]), ps_policy = AllowAll,
      tun_rx = [], tun_tx = [], rx_notify = False, net_sent = [], sel_log = []\<rparr>"

theorem pump_run_total_witness:
  "\<exists>lt s'. pump_run (boring_ops xor_crypto) None [(secs 1, Some (Derp 1 [], sample_datagram), [sample_packet])] (0, boring_peer) =
     Some (lt, s') \<and> ix_ok (ps_ix s')"
proof -
  have "engine_ok (engine_new (tunn_make xor_crypto 1 still_platform [3]) [sample_cfg 1 [any_route]])"
    unfolding engine_new_calls by (intro engine_run_ok empty_engine_ok) (simp add: indices_new_def)
  then have "ix_ok (ps_ix boring_peer)" by (simp add: boring_peer_def engine_ok_def)
  then show ?thesis by (rule pump_run_total)
qed

end
