(* ===== verification/Spec2Isabelle.thy ===== *)
theory Spec2Isabelle
  imports Derp_Mux Wg_Icmp Netcheck Chan Ftp Taildrop Wg_Tunn
begin

text \<open>Verification library of tailscale-vita.\<close>

end
